(* ===== verification/Go_Base.thy ===== *)
theory Go_Base
  imports Main "HOL-Library.Word"
begin

text \<open>
  The prelude: machine types, error values, byte-level encodings and the generic lemmas the
  component theories share.
  \<^item> types: Go's \<open>byte\<close>, \<open>uint32\<close>, \<open>uint64\<close> and \<open>int64\<close> are words of that width, \<open>[32]byte\<close> is a
    256-bit word read big-endian (so every value of the type is a well-formed array), \<open>[]byte\<close> is a
    list of bytes, \<open>string\<close> is Isabelle's \<open>string\<close>;
  \<^item> errors: every error value of the program is a constructor of \<open>error\<close>; a Go function that returns
    \<open>(T, error)\<close> is a function into \<open>error + T\<close>, one that returns only \<open>error\<close> a function into
    \<open>error option\<close>;
  \<^item> the parts of \<open>encoding/binary\<close>, \<open>io\<close>, \<open>encoding/hex\<close>, \<open>fmt\<close> and \<open>math/big\<close> the program uses:
    fixed-width little- and big-endian integers, \<open>io.ReadFull\<close>, hexadecimal and decimal text;
  \<^item> the interface \<open>codec\<close>: a writer and a reader of one type that invert each other. Every
    serialised type of the program is an interpretation of it.
\<close>

unbundle bit_operations_syntax

named_theorems guard_simps \<open>overflow guards of the source as facts on natural numbers\<close>
named_theorems eval_simps \<open>evaluation of the model on concrete inputs\<close>
named_theorems codec_rules \<open>reading back what was written\<close>

type_synonym byte = "8 word"
type_synonym u32 = "32 word"
type_synonym u64 = "64 word"
type_synonym i64 = "64 word"
type_synonym hash = "256 word"

datatype error =
    EOF | ErrUnexpectedEOF
  | ErrDustOutput | ErrInflation | ErrFeeTooLow
  | ErrCountTooLarge u64 | ErrByteFieldTooLarge u64
  | ErrTooManyInputs nat | ErrTooManyOutputs nat | ErrTooManyBlockTransactions u64
  | ErrSupplyScheduleExceedsMax
  | ErrInvalidProofOfWork | ErrInvalidMerkleRoot | ErrInvalidCoinbase | ErrInvalidSignature
  | ErrMissingUTXO | ErrDoubleSpend | ErrBadTimestamp | ErrImmatureCoinbase | ErrBadDifficulty
  | ErrNotFound | ErrOS string | ErrNotExist | ErrJSON
  | ErrChainUninitialized | ErrReorgTooDeep | ErrInsufficientWork | ErrDifficultyAnomaly
  | ContextCanceled
  | ErrHexLength | ErrInvalidByte char
  | ErrSeedWordCount | ErrSeedWordlist
  | ErrUnknownMessageType | ErrPeerRateLimited | ErrPeerIPLimit
  | ErrReleaseGateFailed "string list"
  | ErrText string
  | Errorf string error

section \<open>Overflow guards\<close>

text \<open>The source guards every addition of amounts by \<open>^uint64(0)-x < a\<close>.\<close>

definition add_overflows :: "u64 \<Rightarrow> u64 \<Rightarrow> bool" where
  "add_overflows x a \<longleftrightarrow> NOT 0 - x < a"

text \<open>The accumulating loop \<open>for ... { if ^uint64(0)-acc < a { fail }; acc += a }\<close>.\<close>

fun checked_sum :: "u64 \<Rightarrow> u64 list \<Rightarrow> u64 option" where
  "checked_sum acc [] = Some acc"
| "checked_sum acc (a # as) = (if add_overflows acc a then None else checked_sum (acc + a) as)"

section \<open>Fixed-width integers as bytes\<close>

fun le_bytes :: "nat \<Rightarrow> nat \<Rightarrow> byte list" where
  "le_bytes 0 v = []"
| "le_bytes (Suc k) v = of_nat v # le_bytes k (v div 256)"

fun le_val :: "byte list \<Rightarrow> nat" where
  "le_val [] = 0"
| "le_val (b # bs) = unat b + 256 * le_val bs"

definition PutUint32 :: "u32 \<Rightarrow> byte list" where
  "PutUint32 w = le_bytes 4 (unat w)"

definition PutUint64 :: "u64 \<Rightarrow> byte list" where
  "PutUint64 w = le_bytes 8 (unat w)"

definition hash_bytes :: "hash \<Rightarrow> byte list" where
  "hash_bytes h = rev (le_bytes 32 (unat h))"

definition bytes_hash :: "byte list \<Rightarrow> hash" where
  "bytes_hash bs = of_nat (le_val (rev bs))"

text \<open>\<open>copy(h[:], v)\<close> into a zeroed \<open>[32]byte\<close>: at most 32 bytes, left aligned.\<close>

definition copy_hash :: "byte list \<Rightarrow> hash" where
  "copy_hash v = bytes_hash (take 32 (v @ replicate 32 0))"

section \<open>Readers\<close>

type_synonym 'a reader = "byte list \<Rightarrow> error + ('a \<times> byte list)"

text \<open>\<open>io.ReadFull\<close>: \<open>EOF\<close> when nothing could be read, \<open>ErrUnexpectedEOF\<close> when too little.\<close>

definition ReadFull :: "nat \<Rightarrow> byte list reader" where
  "ReadFull n bs =
     (if n \<le> length bs then Inr (take n bs, drop n bs)
      else if bs = [] then Inl EOF else Inl ErrUnexpectedEOF)"

text \<open>\<open>if err != nil { return err }\<close> between two reads.\<close>

fun and_then :: "error + ('a \<times> byte list) \<Rightarrow> ('a \<Rightarrow> byte list \<Rightarrow> error + 'b) \<Rightarrow> error + 'b" where
  "and_then (Inl e) f = Inl e"
| "and_then (Inr (x, r)) f = f x r"

definition ReadUint32 :: "u32 reader" where
  "ReadUint32 bs = and_then (ReadFull 4 bs) (\<lambda>b r. Inr (of_nat (le_val b), r))"

definition ReadUint64 :: "u64 reader" where
  "ReadUint64 bs = and_then (ReadFull 8 bs) (\<lambda>b r. Inr (of_nat (le_val b), r))"

definition ReadHash :: "hash reader" where
  "ReadHash bs = and_then (ReadFull 32 bs) (\<lambda>b r. Inr (bytes_hash b, r))"

text \<open>\<open>for i := range xs { xs[i], err = read(r) }\<close> over \<open>n\<close> elements.\<close>

fun read_n :: "'a reader \<Rightarrow> nat \<Rightarrow> 'a list reader" where
  "read_n rd 0 bs = Inr ([], bs)"
| "read_n rd (Suc n) bs =
     and_then (rd bs) (\<lambda>x r. and_then (read_n rd n r) (\<lambda>xs r'. Inr (x # xs, r')))"

section \<open>Text\<close>

definition hex_digit :: "nat \<Rightarrow> char" where
  "hex_digit n = ''0123456789abcdef'' ! n"

definition hex_byte :: "byte \<Rightarrow> string" where
  "hex_byte b = [hex_digit (unat b div 16), hex_digit (unat b mod 16)]"

definition hex_EncodeToString :: "byte list \<Rightarrow> string" where
  "hex_EncodeToString bs = concat (map hex_byte bs)"

definition hex_hash :: "hash \<Rightarrow> string" where
  "hex_hash h = hex_EncodeToString (hash_bytes h)"

text \<open>\<open>hex.DecodeString\<close>: both letter cases, and the first fault is reported.\<close>

definition hex_digit_val :: "char \<Rightarrow> nat option" where
  "hex_digit_val c =
     (let n = of_char c in
      if 48 \<le> n \<and> n \<le> 57 then Some (n - 48)
      else if 97 \<le> n \<and> n \<le> 102 then Some (n - 87)
      else if 65 \<le> n \<and> n \<le> 70 then Some (n - 55) else None)"

fun hex_DecodeString :: "string \<Rightarrow> error + byte list" where
  "hex_DecodeString [] = Inr []"
| "hex_DecodeString [p] = Inl (if hex_digit_val p = None then ErrInvalidByte p else ErrHexLength)"
| "hex_DecodeString (p # q # s) =
     (case hex_digit_val p of
        None \<Rightarrow> Inl (ErrInvalidByte p)
      | Some a \<Rightarrow>
          case hex_digit_val q of
            None \<Rightarrow> Inl (ErrInvalidByte q)
          | Some b \<Rightarrow>
              case hex_DecodeString s of Inl e \<Rightarrow> Inl e | Inr bs \<Rightarrow> Inr (of_nat (16 * a + b) # bs))"

fun dec_string :: "nat \<Rightarrow> string" where
  "dec_string n = (if n < 10 then [hex_digit n] else dec_string (n div 10) @ [hex_digit (n mod 10)])"

declare dec_string.simps [simp del]

definition digit_val :: "char \<Rightarrow> nat option" where
  "digit_val c =
     (let n = of_char c in if 48 \<le> n \<and> n \<le> 57 then Some (n - 48) else None)"

fun dec_val :: "nat \<Rightarrow> string \<Rightarrow> nat option" where
  "dec_val acc [] = Some acc"
| "dec_val acc (c # cs) =
     (case digit_val c of None \<Rightarrow> None | Some d \<Rightarrow> dec_val (10 * acc + d) cs)"

text \<open>\<open>big.Int.String\<close> and \<open>big.Int.SetString(s, 10)\<close>.\<close>

definition big_String :: "int \<Rightarrow> string" where
  "big_String z = (if z < 0 then CHR ''-'' # dec_string (nat (- z)) else dec_string (nat z))"

definition big_SetString :: "string \<Rightarrow> int option" where
  "big_SetString s =
     (case s of
        [] \<Rightarrow> None
      | c # cs \<Rightarrow>
          if c = CHR ''-'' then (if cs = [] then None else map_option (\<lambda>n. - int n) (dec_val 0 cs))
          else if c = CHR ''+'' then (if cs = [] then None else map_option int (dec_val 0 cs))
          else map_option int (dec_val 0 s))"

definition string_bytes :: "string \<Rightarrow> byte list" where
  "string_bytes s = map (\<lambda>c. of_nat (of_char c)) s"

definition bytes_string :: "byte list \<Rightarrow> string" where
  "bytes_string bs = map (\<lambda>b. char_of (unat b)) bs"

section \<open>Lemmas: overflow guards\<close>

lemma unat_u64_less: "unat (x :: u64) < 2 ^ 64"
  using unsigned_less [of x, where 'a = nat] by simp

lemma unat_max: "unat (- 1 :: u64) = 2 ^ 64 - 1"
  by (simp add: unsigned_minus_1_eq_mask mask_eq_exp_minus_1)

lemma unat_max_diff: "unat (- 1 - (x :: u64)) = 2 ^ 64 - 1 - unat x"
proof -
  have "unat (- 1 - x) = unat (- 1 :: u64) - unat x"
    by (rule unat_sub) simp
  then show ?thesis by (simp add: unat_max)
qed

lemma add_overflows_iff [guard_simps]:
  "add_overflows x a \<longleftrightarrow> 2 ^ 64 \<le> unat x + unat a"
proof -
  have "unat x < 2 ^ 64" using unsigned_less [of x] by simp
  then show ?thesis
    by (auto simp: add_overflows_def word_less_nat_alt unat_max_diff)
qed

lemma unat_add_no_overflow [guard_simps]:
  "\<not> add_overflows x a \<Longrightarrow> unat (x + a) = unat x + unat a"
  by (simp add: add_overflows_iff unat_word_ariths)

lemma unat_add_le: "unat (x + y :: u64) \<le> unat x + unat y"
  by (simp add: unat_word_ariths)

lemma checked_sum_unat:
  "checked_sum acc as = Some s \<Longrightarrow> unat s = unat acc + sum_list (map unat as)"
proof (induction as arbitrary: acc)
  case Nil
  then show ?case by simp
next
  case (Cons a as)
  then show ?case by (auto simp: unat_add_no_overflow split: if_splits)
qed

lemma checked_sum_Some_iff:
  "(\<exists>s. checked_sum acc as = Some s) \<longleftrightarrow> unat acc + sum_list (map unat as) < 2 ^ 64"
proof (induction as arbitrary: acc)
  case Nil
  then show ?case using unsigned_less [of acc] by simp
next
  case (Cons a as)
  show ?case
  proof (cases "add_overflows acc a")
    case True
    then show ?thesis by (auto simp: add_overflows_iff)
  next
    case False
    with Cons.IH [of "acc + a"] show ?thesis
      by (simp add: unat_add_no_overflow add.assoc)
  qed
qed

lemma checked_sum_None_iff:
  "checked_sum acc as = None \<longleftrightarrow> 2 ^ 64 \<le> unat acc + sum_list (map unat as)"
  using checked_sum_Some_iff [of acc as] by (cases "checked_sum acc as") auto

section \<open>Lemmas: integers as bytes\<close>

lemma length_le_bytes [simp]: "length (le_bytes k v) = k"
  by (induction k arbitrary: v) auto

lemma le_bytes_numeral [eval_simps]:
  "le_bytes (numeral k) v = of_nat v # le_bytes (pred_numeral k) (v div 256)"
  by (simp only: numeral_eq_Suc [of k] le_bytes.simps)

lemma replicate_numeral_eval [eval_simps]:
  "replicate (numeral k) x = x # replicate (pred_numeral k) x"
  by (simp only: numeral_eq_Suc [of k] replicate_Suc)

lemma funpow_numeral_eval [eval_simps]: "(f ^^ numeral k) x = (f ^^ pred_numeral k) (f x)"
  by (simp only: numeral_eq_Suc [of k] funpow_Suc_right o_apply)

lemma unat_of_nat_byte: "unat (of_nat v :: byte) = v mod 256"
  by (simp add: unat_of_nat take_bit_eq_mod)

lemma le_val_le_bytes: "le_val (le_bytes k v) = v mod 256 ^ k"
proof (induction k arbitrary: v)
  case 0
  then show ?case by simp
next
  case (Suc k)
  have "v mod (256 * 256 ^ k) = 256 * (v div 256 mod 256 ^ k) + v mod 256"
    by (rule mod_mult2_eq)
  with Suc show ?case by (simp add: unat_of_nat_byte)
qed

lemma le_val_bound: "le_val bs < 256 ^ length bs"
proof (induction bs)
  case Nil
  then show ?case by simp
next
  case (Cons b bs)
  have b: "unat b < 256" using unsigned_less [of b] by simp
  have "unat b + 256 * le_val bs < 256 * (le_val bs + 1)" using b by simp
  also have "\<dots> \<le> 256 * 256 ^ length bs" using Cons by simp
  finally show ?case by simp
qed

lemma le_bytes_le_val: "le_bytes (length bs) (le_val bs) = bs"
proof (induction bs)
  case Nil
  then show ?case by simp
next
  case (Cons b bs)
  have b: "unat b < 256" using unsigned_less [of b] by simp
  have "(of_nat (unat b + 256 * le_val bs) :: byte) = b"
    by (rule word_unat_eq_iff [THEN iffD2]) (simp only: unat_of_nat_byte, use b in simp)
  moreover have "(unat b + 256 * le_val bs) div 256 = le_val bs" using b by simp
  ultimately show ?case using Cons by simp
qed

lemma length_hash_bytes [simp]: "length (hash_bytes h) = 32"
  by (simp add: hash_bytes_def)

lemma bytes_hash_bytes [simp]: "bytes_hash (hash_bytes h) = h"
proof -
  have "unat h < 256 ^ 32" using unsigned_less [of h] by simp
  then show ?thesis by (simp add: bytes_hash_def hash_bytes_def le_val_le_bytes)
qed

lemma hash_bytes_hash: "length bs = 32 \<Longrightarrow> hash_bytes (bytes_hash bs) = bs"
proof -
  assume len: "length bs = 32"
  have "le_val (rev bs) < 256 ^ 32" using le_val_bound [of "rev bs"] len by simp
  then have "unat (of_nat (le_val (rev bs)) :: hash) = le_val (rev bs)"
    by (simp add: unat_of_nat take_bit_eq_mod)
  then show ?thesis
    using le_bytes_le_val [of "rev bs"] len by (simp add: hash_bytes_def bytes_hash_def)
qed

lemma hash_bytes_inj [simp]: "hash_bytes g = hash_bytes h \<longleftrightarrow> g = h"
  by (metis bytes_hash_bytes)

lemma copy_hash_bytes [simp]: "copy_hash (hash_bytes h) = h"
proof -
  have "take 32 (hash_bytes h @ zs) = hash_bytes h" for zs by simp
  then show ?thesis by (simp only: copy_hash_def bytes_hash_bytes)
qed

section \<open>The interface of a serialised type\<close>

text \<open>
  A writer \<open>enc\<close> and a reader \<open>dec\<close> of one type: the reader returns a written value and leaves
  what follows it, and whatever it accepts is the writing of a well-formed value. The two laws
  make the encoding prefix-free and the reader the exact inverse of the writer.
\<close>

locale codec =
  fixes enc :: "'a \<Rightarrow> byte list" and dec :: "'a reader" and wf :: "'a \<Rightarrow> bool"
  assumes dec_enc: "wf x \<Longrightarrow> dec (enc x @ rest) = Inr (x, rest)"
    and dec_sound: "dec bs = Inr (x, rest) \<Longrightarrow> wf x \<and> bs = enc x @ rest"
begin

lemma dec_iff: "dec bs = Inr (x, rest) \<longleftrightarrow> wf x \<and> bs = enc x @ rest"
  by (auto simp: dec_enc dest: dec_sound)

lemma enc_prefix_free:
  assumes "wf x" and "wf y" and "enc x @ r = enc y @ s"
  shows "x = y \<and> r = s"
proof -
  have "dec (enc x @ r) = Inr (x, r)" using assms(1) by (rule dec_enc)
  moreover have "dec (enc x @ r) = Inr (y, s)"
    unfolding assms(3) using assms(2) by (rule dec_enc)
  ultimately show ?thesis by simp
qed

lemma enc_inj: "wf x \<Longrightarrow> wf y \<Longrightarrow> enc x = enc y \<Longrightarrow> x = y"
  using enc_prefix_free [of x y "[]" "[]"] by simp

lemma dec_and_then [codec_rules]: "wf x \<Longrightarrow> and_then (dec (enc x @ rest)) f = f x rest"
  by (simp add: dec_enc)

lemma and_then_dec_Inr:
  assumes "and_then (dec bs) f = Inr y"
  obtains x rest where "wf x" and "bs = enc x @ rest" and "f x rest = Inr y"
proof (cases "dec bs")
  case (Inl e)
  with assms show ?thesis by simp
next
  case (Inr p)
  obtain x rest where p: "p = (x, rest)" by (cases p)
  have "wf x" and "bs = enc x @ rest" using dec_sound Inr p by auto
  moreover have "f x rest = Inr y" using assms Inr p by simp
  ultimately show ?thesis by (rule that)
qed

lemma read_n_enc:
  "list_all wf xs \<Longrightarrow> read_n dec (length xs) (concat (map enc xs) @ rest) = Inr (xs, rest)"
  by (induction xs) (simp_all add: dec_enc)

lemma read_n_sound:
  "read_n dec n bs = Inr (xs, rest) \<Longrightarrow>
     length xs = n \<and> list_all wf xs \<and> bs = concat (map enc xs) @ rest"
proof (induction n arbitrary: bs xs)
  case 0
  then show ?case by simp
next
  case (Suc n)
  from Suc.prems obtain x r where x: "wf x" "bs = enc x @ r"
    and *: "and_then (read_n dec n r) (\<lambda>xs r'. Inr (x # xs, r')) = Inr (xs, rest)"
    by (auto elim: and_then_dec_Inr)
  from * obtain ys where "read_n dec n r = Inr (ys, rest)" and "xs = x # ys"
    by (cases "read_n dec n r") auto
  with Suc.IH x show ?case by force
qed

lemma and_then_read_n_Inr:
  assumes "and_then (read_n dec n bs) f = Inr y"
  obtains xs rest where "length xs = n" and "list_all wf xs"
    and "bs = concat (map enc xs) @ rest" and "f xs rest = Inr y"
proof (cases "read_n dec n bs")
  case (Inl e)
  with assms show ?thesis by simp
next
  case (Inr p)
  obtain xs rest where p: "p = (xs, rest)" by (cases p)
  with Inr have "length xs = n \<and> list_all wf xs \<and> bs = concat (map enc xs) @ rest"
    by (intro read_n_sound) simp
  moreover have "f xs rest = Inr y" using assms Inr p by simp
  ultimately show ?thesis using that by blast
qed

lemma codec_list:
  "codec (\<lambda>xs. concat (map enc xs)) (read_n dec n) (\<lambda>xs. length xs = n \<and> list_all wf xs)"
proof (unfold_locales, goal_cases)
  case (1 xs rest)
  then show ?case using read_n_enc [of xs rest] by simp
next
  case (2 bs xs rest)
  then show ?case using read_n_sound [of n bs xs rest] by simp
qed

end

lemma ReadFull_append [simp]: "length xs = n \<Longrightarrow> ReadFull n (xs @ rest) = Inr (xs, rest)"
  by (auto simp: ReadFull_def)

lemma ReadFull_sound: "ReadFull n bs = Inr (xs, rest) \<Longrightarrow> length xs = n \<and> bs = xs @ rest"
  by (auto simp: ReadFull_def split: if_splits)

lemma ReadFull_short: "length bs < n \<Longrightarrow> \<exists>e. ReadFull n bs = Inl e"
  by (simp add: ReadFull_def)

lemma ReadFull_InlD: "ReadFull n bs = Inl e \<Longrightarrow> length bs < n \<and> (e = EOF \<or> e = ErrUnexpectedEOF)"
  by (auto simp: ReadFull_def split: if_splits)

text \<open>A fixed-width word read from \<open>k\<close> bytes: the shape of the three primitive readers.\<close>

lemma codec_fixed:
  fixes enc :: "'a \<Rightarrow> byte list"
  assumes "\<And>x. length (enc x) = k" and "\<And>x. val (enc x) = x"
    and "\<And>bs. length bs = k \<Longrightarrow> enc (val bs) = bs"
    and "\<And>bs. dec bs = and_then (ReadFull k bs) (\<lambda>b r. Inr (val b, r))"
  shows "codec enc dec (\<lambda>_. True)"
proof (unfold_locales, goal_cases)
  case (1 x rest)
  then show ?case using assms by simp
next
  case (2 bs x rest)
  then obtain b where "ReadFull k bs = Inr (b, rest)" and "x = val b"
    using assms(4) by (cases "ReadFull k bs") auto
  then show ?case using ReadFull_sound assms(3) by metis
qed

lemma of_nat_le_val_le_bytes:
  "LENGTH('a::len) = 8 * k \<Longrightarrow> (of_nat (le_val (le_bytes k (unat w))) :: 'a word) = w"
proof -
  assume len: "LENGTH('a) = 8 * k"
  have "unat w < 2 ^ LENGTH('a)" by (rule unsigned_less)
  also have "(2 :: nat) ^ LENGTH('a) = 256 ^ k" by (simp add: len power_mult)
  finally show ?thesis by (simp add: le_val_le_bytes)
qed

lemma le_bytes_unat_of_nat:
  "LENGTH('a::len) = 8 * length bs \<Longrightarrow>
     le_bytes (length bs) (unat (of_nat (le_val bs) :: 'a word)) = bs"
proof -
  assume len: "LENGTH('a) = 8 * length bs"
  have "(2 :: nat) ^ LENGTH('a) = 256 ^ length bs" by (simp add: len power_mult)
  then have "unat (of_nat (le_val bs) :: 'a word) = le_val bs"
    using le_val_bound [of bs] by (simp add: unat_of_nat take_bit_eq_mod)
  then show ?thesis by (simp add: le_bytes_le_val)
qed

interpretation u32_codec: codec PutUint32 ReadUint32 "\<lambda>_. True"
proof (rule codec_fixed [where k = 4 and val = "\<lambda>b. of_nat (le_val b)"])
  show "length (PutUint32 x) = 4" for x by (simp add: PutUint32_def)
  show "of_nat (le_val (PutUint32 x)) = x" for x
    by (simp add: PutUint32_def of_nat_le_val_le_bytes)
  show "PutUint32 (of_nat (le_val bs)) = bs" if "length bs = 4" for bs
    using le_bytes_unat_of_nat [of bs, where 'a = 32] that by (simp add: PutUint32_def)
  show "ReadUint32 bs = and_then (ReadFull 4 bs) (\<lambda>b r. Inr (of_nat (le_val b), r))" for bs
    by (simp add: ReadUint32_def)
qed

interpretation u64_codec: codec PutUint64 ReadUint64 "\<lambda>_. True"
proof (rule codec_fixed [where k = 8 and val = "\<lambda>b. of_nat (le_val b)"])
  show "length (PutUint64 x) = 8" for x by (simp add: PutUint64_def)
  show "of_nat (le_val (PutUint64 x)) = x" for x
    by (simp add: PutUint64_def of_nat_le_val_le_bytes)
  show "PutUint64 (of_nat (le_val bs)) = bs" if "length bs = 8" for bs
    using le_bytes_unat_of_nat [of bs, where 'a = 64] that by (simp add: PutUint64_def)
  show "ReadUint64 bs = and_then (ReadFull 8 bs) (\<lambda>b r. Inr (of_nat (le_val b), r))" for bs
    by (simp add: ReadUint64_def)
qed

interpretation hash_codec: codec hash_bytes ReadHash "\<lambda>_. True"
  by (rule codec_fixed [where k = 32 and val = bytes_hash])
     (auto simp: ReadHash_def hash_bytes_hash)

lemma PutUint32_inj [simp]: "PutUint32 x = PutUint32 y \<longleftrightarrow> x = y"
  using u32_codec.enc_inj by auto

lemma PutUint64_inj [simp]: "PutUint64 x = PutUint64 y \<longleftrightarrow> x = y"
  using u64_codec.enc_inj by auto

lemma length_PutUint32 [simp]: "length (PutUint32 w) = 4"
  by (simp add: PutUint32_def)

lemma length_PutUint64 [simp]: "length (PutUint64 w) = 8"
  by (simp add: PutUint64_def)

section \<open>Lemmas: text\<close>

lemma less_16_cases: "(n :: nat) < 16 \<Longrightarrow>
   n \<in> {0, 1, 2, 3, 4, 5, 6, 7, 8, 9, 10, 11, 12, 13, 14, 15}"
  by (simp, presburger)

lemma hex_digit_inj: "m < 16 \<Longrightarrow> n < 16 \<Longrightarrow> hex_digit m = hex_digit n \<Longrightarrow> m = n"
  by (drule less_16_cases, drule less_16_cases) (auto simp: hex_digit_def)

lemma hex_digit_safe: "n < 16 \<Longrightarrow> hex_digit n \<noteq> CHR ''/'' \<and> hex_digit n \<noteq> CHR '':''
    \<and> hex_digit n \<noteq> CHR ''-'' \<and> hex_digit n \<noteq> CHR ''+''"
  by (drule less_16_cases) (auto simp: hex_digit_def)

lemma digit_val_hex_digit: "n < 10 \<Longrightarrow> digit_val (hex_digit n) = Some n"
proof -
  assume "n < 10"
  then have "n \<in> {0, 1, 2, 3, 4, 5, 6, 7, 8, 9}" by auto
  then show ?thesis by (auto simp: hex_digit_def digit_val_def Let_def)
qed

lemma unat_byte_less: "unat (b :: byte) < 256"
  using unsigned_less [of b] by simp

lemma hex_byte_inj: "hex_byte a = hex_byte b \<Longrightarrow> a = b"
proof -
  assume eq: "hex_byte a = hex_byte b"
  have less: "unat c div 16 < 16 \<and> unat c mod 16 < 16" for c :: byte
    using unat_byte_less [of c] by auto
  have "unat a div 16 = unat b div 16" and "unat a mod 16 = unat b mod 16"
    using eq less [of a] less [of b] by (auto simp: hex_byte_def intro: hex_digit_inj)
  then have "unat a = unat b" by (metis div_mult_mod_eq)
  then show ?thesis by (rule word_unat_eq_iff [THEN iffD2])
qed

lemma length_hex_EncodeToString [simp]: "length (hex_EncodeToString bs) = 2 * length bs"
  by (induction bs) (simp_all add: hex_EncodeToString_def hex_byte_def)

lemma hex_EncodeToString_inj:
  "hex_EncodeToString as = hex_EncodeToString bs \<Longrightarrow> as = bs"
proof (induction as arbitrary: bs)
  case Nil
  then have "length (hex_EncodeToString bs) = 0" by (simp add: hex_EncodeToString_def)
  then show ?case by (simp only: length_hex_EncodeToString) simp
next
  case (Cons a as)
  then obtain b bs' where bs: "bs = b # bs'"
    by (cases bs) (auto simp: hex_EncodeToString_def hex_byte_def)
  have "hex_byte a @ hex_EncodeToString as = hex_byte b @ hex_EncodeToString bs'"
    using Cons.prems bs by (simp add: hex_EncodeToString_def)
  then have "hex_byte a = hex_byte b" and "hex_EncodeToString as = hex_EncodeToString bs'"
    by (simp_all add: hex_byte_def)
  then show ?case using Cons.IH bs hex_byte_inj by blast
qed

lemma hex_EncodeToString_chars:
  "c \<in> set (hex_EncodeToString bs) \<Longrightarrow> c \<noteq> CHR ''/'' \<and> c \<noteq> CHR '':''"
proof (induction bs)
  case Nil
  then show ?case by (simp add: hex_EncodeToString_def)
next
  case (Cons b bs)
  have "unat b div 16 < 16" and "unat b mod 16 < 16" using unat_byte_less [of b] by auto
  then show ?case using Cons by (auto simp: hex_EncodeToString_def hex_byte_def hex_digit_safe)
qed

lemma hex_digit_val_digit: "n < 16 \<Longrightarrow> hex_digit_val (hex_digit n) = Some n"
  by (drule less_16_cases) (auto simp: hex_digit_def hex_digit_val_def Let_def)

lemma hex_DecodeString_encode [simp]: "hex_DecodeString (hex_EncodeToString bs) = Inr bs"
proof (induction bs)
  case Nil
  then show ?case by (simp add: hex_EncodeToString_def)
next
  case (Cons b bs)
  have "unat b div 16 < 16" "unat b mod 16 < 16" using unat_byte_less [of b] by auto
  moreover have "of_nat (16 * (unat b div 16) + unat b mod 16) = b" by simp
  ultimately show ?case
    using Cons by (simp add: hex_EncodeToString_def hex_byte_def hex_digit_val_digit)
qed

lemma length_hex_hash [simp]: "length (hex_hash h) = 64"
  by (simp add: hex_hash_def)

lemma hex_hash_inj [simp]: "hex_hash g = hex_hash h \<longleftrightarrow> g = h"
  by (metis hex_EncodeToString_inj hash_bytes_inj hex_hash_def)

lemma dec_val_append:
  "dec_val acc (s @ t) = (case dec_val acc s of None \<Rightarrow> None | Some a \<Rightarrow> dec_val a t)"
  by (induction s arbitrary: acc) (auto split: option.splits)

lemma dec_val_dec_string: "dec_val 0 (dec_string n) = Some n"
proof (induction n rule: dec_string.induct)
  case (1 n)
  show ?case
  proof (cases "n < 10")
    case True
    then show ?thesis by (simp add: dec_string.simps [of n] digit_val_hex_digit)
  next
    case False
    with 1 show ?thesis
      by (simp add: dec_string.simps [of n] dec_val_append digit_val_hex_digit)
  qed
qed

lemma dec_string_inj [simp]: "dec_string m = dec_string n \<longleftrightarrow> m = n"
  by (metis dec_val_dec_string option.inject)

lemma dec_string_chars:
  "c \<in> set (dec_string n) \<Longrightarrow>
     c \<noteq> CHR ''/'' \<and> c \<noteq> CHR '':'' \<and> c \<noteq> CHR ''-'' \<and> c \<noteq> CHR ''+''"
proof (induction n rule: dec_string.induct)
  case (1 n)
  show ?case
  proof (cases "n < 10")
    case True
    with 1 show ?thesis by (simp add: dec_string.simps [of n] hex_digit_safe)
  next
    case False
    have "n mod 10 < 16" by (rule less_trans [of _ 10]) auto
    with False 1 show ?thesis by (auto simp: dec_string.simps [of n] hex_digit_safe)
  qed
qed

lemma dec_string_not_Nil [simp]: "dec_string n \<noteq> []"
  by (subst dec_string.simps) simp

lemma big_SetString_String [simp]: "big_SetString (big_String z) = Some z"
proof (cases "z < 0")
  case True
  then show ?thesis by (simp add: big_String_def big_SetString_def dec_val_dec_string)
next
  case False
  obtain c cs where d: "dec_string (nat z) = c # cs" by (cases "dec_string (nat z)") auto
  then have "c \<noteq> CHR ''-''" and "c \<noteq> CHR ''+''" using dec_string_chars [of c "nat z"] by auto
  then have "big_SetString (c # cs) = map_option int (dec_val 0 (c # cs))"
    by (simp add: big_SetString_def)
  also have "\<dots> = Some z" using dec_val_dec_string [of "nat z"] False d by simp
  finally show ?thesis using False d by (simp add: big_String_def)
qed

lemma bytes_string_bytes [simp]: "bytes_string (string_bytes s) = s"
  by (induction s) (simp_all add: bytes_string_def string_bytes_def unat_of_nat_byte)

end
