(* ===== verification/Sha256.thy ===== *)
theory Sha256
  imports Go_Base
begin

text \<open>
  \<open>crypto/sha256\<close> of Go's standard library, as FIPS 180-4 defines it: the program hashes
  transactions, headers, Merkle nodes and public keys with it. The digest \<open>[32]byte\<close> is a
  \<^typ>\<open>hash\<close>, its eight 32-bit words read big-endian. The test vector at the end is the standard's
  for the message \<open>abc\<close>.
\<close>

type_synonym sha256_state = "u32 \<times> u32 \<times> u32 \<times> u32 \<times> u32 \<times> u32 \<times> u32 \<times> u32"

definition rotr32 :: "nat \<Rightarrow> u32 \<Rightarrow> u32" where
  "rotr32 n x = drop_bit n x OR push_bit (32 - n) x"

definition sha256_S0 :: "u32 \<Rightarrow> u32" where
  "sha256_S0 x = rotr32 2 x XOR rotr32 13 x XOR rotr32 22 x"

definition sha256_S1 :: "u32 \<Rightarrow> u32" where
  "sha256_S1 x = rotr32 6 x XOR rotr32 11 x XOR rotr32 25 x"

definition sha256_s0 :: "u32 \<Rightarrow> u32" where
  "sha256_s0 x = rotr32 7 x XOR rotr32 18 x XOR drop_bit 3 x"

definition sha256_s1 :: "u32 \<Rightarrow> u32" where
  "sha256_s1 x = rotr32 17 x XOR rotr32 19 x XOR drop_bit 10 x"

text \<open>The round constants: the leading 32 fractional bits of the cube roots of the first 64 primes.\<close>

definition sha256_K :: "u32 list" where
  "sha256_K = [
   1116352408, 1899447441, 3049323471, 3921009573, 961987163, 1508970993,
   2453635748, 2870763221, 3624381080, 310598401, 607225278, 1426881987,
   1925078388, 2162078206, 2614888103, 3248222580, 3835390401, 4022224774,
   264347078, 604807628, 770255983, 1249150122, 1555081692, 1996064986,
   2554220882, 2821834349, 2952996808, 3210313671, 3336571891, 3584528711,
   113926993, 338241895, 666307205, 773529912, 1294757372, 1396182291,
   1695183700, 1986661051, 2177026350, 2456956037, 2730485921, 2820302411,
   3259730800, 3345764771, 3516065817, 3600352804, 4094571909, 275423344,
   430227734, 506948616, 659060556, 883997877, 958139571, 1322822218,
   1537002063, 1747873779, 1955562222, 2024104815, 2227730452, 2361852424,
   2428436474, 2756734187, 3204031479, 3329325298]"

definition sha256_init :: sha256_state where
  "sha256_init = (0x6a09e667, 0xbb67ae85, 0x3c6ef372, 0xa54ff53a,
                  0x510e527f, 0x9b05688c, 0x1f83d9ab, 0x5be0cd19)"

text \<open>The message schedule, kept newest word first while it grows from 16 to 64 words.\<close>

definition sha256_extend :: "u32 list \<Rightarrow> u32 list" where
  "sha256_extend r = (sha256_s1 (r ! 1) + r ! 6 + sha256_s0 (r ! 14) + r ! 15) # r"

definition sha256_schedule :: "u32 list \<Rightarrow> u32 list" where
  "sha256_schedule ws = rev (fold (\<lambda>_. sha256_extend) (replicate 48 ()) (rev ws))"

fun sha256_round :: "sha256_state \<Rightarrow> u32 \<Rightarrow> u32 \<Rightarrow> sha256_state" where
  "sha256_round (a, b, c, d, e, f, g, h) k w =
     (let t1 = h + sha256_S1 e + ((e AND f) XOR (NOT e AND g)) + k + w;
          t2 = sha256_S0 a + ((a AND b) XOR (a AND c) XOR (b AND c))
      in (t1 + t2, a, b, c, d + t1, e, f, g))"

fun sha256_rounds :: "sha256_state \<Rightarrow> u32 list \<Rightarrow> u32 list \<Rightarrow> sha256_state" where
  "sha256_rounds s (k # ks) (w # ws) = sha256_rounds (sha256_round s k w) ks ws"
| "sha256_rounds s ks ws = s"

fun sha256_add :: "sha256_state \<Rightarrow> sha256_state \<Rightarrow> sha256_state" where
  "sha256_add (a, b, c, d, e, f, g, h) (a', b', c', d', e', f', g', h') =
     (a + a', b + b', c + c', d + d', e + e', f + f', g + g', h + h')"

fun be_words :: "byte list \<Rightarrow> u32 list" where
  "be_words (a # b # c # d # bs) = of_nat (le_val [d, c, b, a]) # be_words bs"
| "be_words bs = []"

definition sha256_compress :: "sha256_state \<Rightarrow> byte list \<Rightarrow> sha256_state" where
  "sha256_compress s block =
     sha256_add s (sha256_rounds s sha256_K (sha256_schedule (be_words block)))"

fun sha256_blocks :: "sha256_state \<Rightarrow> byte list \<Rightarrow> sha256_state" where
  "sha256_blocks s [] = s"
| "sha256_blocks s (b # bs) =
     sha256_blocks (sha256_compress s (b # take 63 bs)) (drop 63 bs)"

definition sha256_pad :: "byte list \<Rightarrow> byte list" where
  "sha256_pad m =
     m @ [0x80] @ replicate ((119 - length m mod 64) mod 64) 0 @ rev (le_bytes 8 (8 * length m))"

fun sha256_digest :: "sha256_state \<Rightarrow> hash" where
  "sha256_digest (a, b, c, d, e, f, g, h) =
     of_nat (foldl (\<lambda>n w. n * 2 ^ 32 + unat w) 0 [a, b, c, d, e, f, g, h])"

definition Sum256 :: "byte list \<Rightarrow> hash" where
  "Sum256 m = sha256_digest (sha256_blocks sha256_init (sha256_pad m))"

text \<open>The double hash of headers, transactions and Merkle nodes.\<close>

definition Sum256d :: "byte list \<Rightarrow> hash" where
  "Sum256d m = Sum256 (hash_bytes (Sum256 m))"

section \<open>Evaluation and a test vector of the standard\<close>

text \<open>
  The simplifier adds word numerals without reducing them, so the evaluation rules insert the
  reduction \<open>norm32\<close> (the identity) where a round, the schedule or the final addition stores a word.
\<close>

definition norm32 :: "u32 \<Rightarrow> u32" where
  "norm32 x = x"

lemma norm32_eval:
  "norm32 0 = 0" "norm32 1 = 1" "norm32 (numeral n) = of_nat (numeral n mod 4294967296)"
proof -
  have "x = of_nat (unat x)" for x :: u32 by simp
  then have "(numeral n :: u32) = of_nat (unat (numeral n :: u32))" .
  also have "unat (numeral n :: u32) = numeral n mod 4294967296"
    by (simp only: unsigned_numeral take_bit_eq_mod) simp
  finally show "norm32 (numeral n) = of_nat (numeral n mod 4294967296)"
    by (simp only: norm32_def)
qed (simp_all add: norm32_def)

lemma sha256_extend_eval:
  "sha256_extend r = norm32 (sha256_s1 (r ! 1) + r ! 6 + sha256_s0 (r ! 14) + r ! 15) # r"
  by (simp add: sha256_extend_def norm32_def)

lemma sha256_round_eval:
  "sha256_round (a, b, c, d, e, f, g, h) k w =
     (let t1 = norm32 (h + sha256_S1 e + ((e AND f) XOR (NOT e AND g)) + k + w);
          t2 = sha256_S0 a + ((a AND b) XOR (a AND c) XOR (b AND c))
      in (norm32 (t1 + t2), a, b, c, norm32 (d + t1), e, f, g))"
  by (simp add: norm32_def)

lemma sha256_add_eval:
  "sha256_add (a, b, c, d, e, f, g, h) (a', b', c', d', e', f', g', h') =
     (norm32 (a + a'), norm32 (b + b'), norm32 (c + c'), norm32 (d + d'),
      norm32 (e + e'), norm32 (f + f'), norm32 (g + g'), norm32 (h + h'))"
  by (simp add: norm32_def)

declare sha256_round.simps [simp del] sha256_add.simps [simp del]

lemmas sha256_eval =
  Sum256_def sha256_pad_def sha256_init_def sha256_compress_def sha256_schedule_def sha256_K_def
  sha256_S0_def sha256_S1_def sha256_s0_def sha256_s1_def rotr32_def
  sha256_extend_eval sha256_round_eval sha256_add_eval norm32_eval eval_simps

lemma Sum256_abc:
  "Sum256 [0x61, 0x62, 0x63] = 0xba7816bf8f01cfea414140de5dae2223b00361a396177a9cb410ff61f20015ad"
  by (simp add: sha256_eval)

end
