(* ===== verification/Params.thy ===== *)
theory Params
  imports Go_Base
begin

text \<open>
  Package \<open>params\<close>: the monetary constants, the three networks, the compact encoding of
  proof-of-work targets (\<open>params/params.go\<close>) and the audit of the subsidy schedule
  (\<open>params/economics.go\<close>). \<open>*big.Int\<close> is \<^typ>\<open>int\<close>. The audit loop counts blocks up to a height the
  caller chooses; it is a total function because the subsidy reaches zero after 36 halvings. The
  lemmas give the closed form of the subsidy sum and its bound, and the precision and the fixed
  points of the compact encoding.
\<close>

section \<open>Constants and networks\<close>

definition UnitsPerNEVEL :: u64 where
  "UnitsPerNEVEL = 100000000"

definition MaxSupply :: u64 where
  "MaxSupply = 21000000000 * UnitsPerNEVEL"

definition TargetBlockSec :: i64 where
  "TargetBlockSec = 60"

definition InitialReward :: u64 where
  "InitialReward = 500 * UnitsPerNEVEL"

definition HalvingInterval :: u64 where
  "HalvingInterval = 2102400"

definition DifficultyAdjustmentInterval :: u64 where
  "DifficultyAdjustmentInterval = 720"

definition DifficultyWindow :: u64 where
  "DifficultyWindow = DifficultyAdjustmentInterval"

definition ExpectedRetargetSec :: i64 where
  "ExpectedRetargetSec = TargetBlockSec * DifficultyAdjustmentInterval"

definition CoinbaseMaturity :: u64 where
  "CoinbaseMaturity = 100"

definition MaxBlockBytes :: int where
  "MaxBlockBytes = 2000000"

definition DefaultMempoolMaxByte :: int where
  "DefaultMempoolMaxByte = 64 * 1024 * 1024"

definition MinRelayFeePerByte :: u64 where
  "MinRelayFeePerByte = 1"

definition ProductionPowBits :: u32 where
  "ProductionPowBits = 0x1d00ffff"

definition RegtestPowBits :: u32 where
  "RegtestPowBits = 0x207fffff"

record Network =
  net_ID :: string
  net_AddressPrefix :: string
  net_DefaultRPC :: string
  net_GenesisBits :: u32
  net_InitialBits :: u32
  net_PowLimit :: int

definition MaxPowLimit :: int where
  "MaxPowLimit = push_bit 256 1 - 1"

definition CompactToBig :: "u32 \<Rightarrow> int" where
  "CompactToBig compact =
     (let size = drop_bit 24 compact;
          word = compact AND 0x007fffff;
          bn = int (unat word);
          bn = (if size \<le> 3 then drop_bit (unat (8 * (3 - size))) bn
                else push_bit (unat (8 * (size - 3))) bn)
      in if compact AND 0x00800000 \<noteq> 0 then - bn else bn)"

text \<open>\<open>len(n.Bytes())\<close>: the number of base-256 digits of the absolute value.\<close>

fun nbytes :: "nat \<Rightarrow> nat" where
  "nbytes n = (if n = 0 then 0 else Suc (nbytes (n div 256)))"

declare nbytes.simps [simp del]

text \<open>\<open>big.Int.Uint64\<close>: the low 64 bits of the absolute value.\<close>

definition big_Uint64 :: "int \<Rightarrow> u64" where
  "big_Uint64 z = of_nat (nat \<bar>z\<bar>)"

definition BigToCompact :: "int \<Rightarrow> u32" where
  "BigToCompact n =
     (if n = 0 then 0
      else
        let size = nbytes (nat \<bar>n\<bar>);
            compact = (if size \<le> 3 then ucast (big_Uint64 (push_bit (8 * (3 - size)) n))
                       else ucast (big_Uint64 (drop_bit (8 * (size - 3)) n)));
            (compact, size) =
              (if compact AND 0x00800000 \<noteq> 0 then (drop_bit 8 compact, Suc size)
               else (compact, size))
        in compact OR push_bit 24 (of_nat size))"

definition Mainnet :: Network where
  "Mainnet =
     \<lparr>net_ID = ''nevel-mainnet-1'', net_AddressPrefix = ''nevel'',
      net_DefaultRPC = ''127.0.0.1:8332'', net_GenesisBits = ProductionPowBits,
      net_InitialBits = ProductionPowBits, net_PowLimit = CompactToBig ProductionPowBits\<rparr>"

definition Testnet :: Network where
  "Testnet =
     \<lparr>net_ID = ''nevel-testnet-1'', net_AddressPrefix = ''tnevel'',
      net_DefaultRPC = ''127.0.0.1:18332'', net_GenesisBits = ProductionPowBits,
      net_InitialBits = ProductionPowBits, net_PowLimit = CompactToBig ProductionPowBits\<rparr>"

definition Regtest :: Network where
  "Regtest =
     \<lparr>net_ID = ''nevel-regtest-1'', net_AddressPrefix = ''rnevel'',
      net_DefaultRPC = ''127.0.0.1:18443'', net_GenesisBits = RegtestPowBits,
      net_InitialBits = RegtestPowBits, net_PowLimit = CompactToBig RegtestPowBits\<rparr>"

definition ByName :: "string \<Rightarrow> Network" where
  "ByName name =
     (if name = ''mainnet'' then Mainnet else if name = ''testnet'' then Testnet else Regtest)"

section \<open>The subsidy schedule\<close>

record SupplyAudit =
  sa_MaxSupply :: u64
  sa_InitialReward :: u64
  sa_HalvingInterval :: u64
  sa_TotalSubsidy :: u64
  sa_Pass :: bool

definition schedule_reward :: "u64 \<Rightarrow> u64" where
  "schedule_reward height =
     (let reward = drop_bit (unat (height div HalvingInterval)) InitialReward
      in if 64 \<le> height div HalvingInterval then 0 else reward)"

lemma schedule_reward_zero: "75686400 \<le> unat height \<Longrightarrow> schedule_reward height = 0"
proof -
  assume h: "75686400 \<le> unat height"
  have "36 \<le> unat height div 2102400" using div_le_mono [OF h, of 2102400] by simp
  then obtain k where k: "unat height div 2102400 = 36 + k" using le_Suc_ex by blast
  have "drop_bit (36 + k) x = drop_bit k (drop_bit 36 x)" for x :: u64
    by (subst add.commute) (rule drop_bit_drop_bit [symmetric])
  moreover have "drop_bit 36 (50000000000 :: u64) = 0" by simp
  ultimately have "drop_bit (36 + k) (50000000000 :: u64) = 0" by (simp only: drop_bit_of_0)
  moreover have "unat (height div 2102400) = 36 + k"
    using k by (simp add: unat_div)
  ultimately have "drop_bit (unat (height div HalvingInterval)) InitialReward = 0"
    unfolding InitialReward_def UnitsPerNEVEL_def HalvingInterval_def by simp
  then show ?thesis by (simp add: schedule_reward_def)
qed

text \<open>
  The loop of \<open>AuditSupplySchedule\<close>: the running total, and whether it stopped with
  \<open>ErrSupplyScheduleExceedsMax\<close>.
\<close>

function audit_loop :: "u64 \<Rightarrow> u64 \<Rightarrow> u64 \<Rightarrow> u64 \<times> error option" where
  "audit_loop maxHeight height tot =
     (if height \<le> maxHeight then
        let reward = schedule_reward height in
        if add_overflows tot reward \<or> tot + reward > MaxSupply then
          (tot, Some ErrSupplyScheduleExceedsMax)
        else if reward = 0 then (tot + reward, None)
        else audit_loop maxHeight (height + 1) (tot + reward)
      else (tot, None))"
  by pat_completeness auto
termination
proof (relation "measure (\<lambda>(m, h, t). 75686400 - unat h)", goal_cases)
  case 1
  show ?case by simp
next
  case (2 m h t reward)
  then have "unat h < 75686400" using schedule_reward_zero [of h] by force
  then show ?case by (simp add: unat_word_ariths)
qed

declare audit_loop.simps [simp del]

definition AuditSupplySchedule :: "u64 \<Rightarrow> SupplyAudit \<times> error option" where
  "AuditSupplySchedule maxHeight =
     (let report = \<lparr>sa_MaxSupply = MaxSupply, sa_InitialReward = InitialReward,
                    sa_HalvingInterval = HalvingInterval, sa_TotalSubsidy = 0, sa_Pass = False\<rparr>
      in case audit_loop maxHeight 0 0 of
           (tot, Some e) \<Rightarrow> (report\<lparr>sa_TotalSubsidy := tot\<rparr>, Some e)
         | (tot, None) \<Rightarrow>
             (report\<lparr>sa_TotalSubsidy := tot, sa_Pass := tot \<le> MaxSupply\<rparr>, None))"

section \<open>Lemmas: the subsidy\<close>

text \<open>The subsidy of block \<open>n\<close> over the naturals: the reference for \<open>schedule_reward\<close>.\<close>

definition subsidy :: "nat \<Rightarrow> nat" where
  "subsidy n = 50000000000 div 2 ^ (n div 2102400)"

lemma div_power_zero: "n < 2 ^ k \<Longrightarrow> k \<le> j \<Longrightarrow> n div 2 ^ j = (0 :: nat)"
  by (meson div_less less_le_trans one_le_numeral power_increasing)

lemma unat_drop_bit: "unat (drop_bit k (x :: 'a::len word)) = unat x div 2 ^ k"
  by (simp only: unsigned_drop_bit_eq) (simp add: drop_bit_eq_div take_bit_nat_eq_self)

lemma unat_drop_bit_reward: "unat (drop_bit k InitialReward) = 50000000000 div 2 ^ k"
  by (simp only: unat_drop_bit) (simp add: InitialReward_def UnitsPerNEVEL_def)

lemma unat_schedule_reward: "unat (schedule_reward h) = subsidy (unat h)"
proof -
  have d: "unat (h div HalvingInterval) = unat h div 2102400"
    by (simp add: unat_div HalvingInterval_def)
  have ge: "64 \<le> h div HalvingInterval \<longleftrightarrow> 64 \<le> unat h div 2102400"
    by (simp add: word_le_nat_alt d)
  show ?thesis
  proof (cases "64 \<le> unat h div 2102400")
    case True
    moreover have "50000000000 div 2 ^ (unat h div 2102400) = (0 :: nat)"
      by (rule div_power_zero [OF _ True]) simp
    ultimately show ?thesis by (simp add: schedule_reward_def ge subsidy_def)
  next
    case False
    then show ?thesis by (simp add: schedule_reward_def ge subsidy_def d unat_drop_bit_reward)
  qed
qed

lemma subsidy_antimono: "m \<le> n \<Longrightarrow> subsidy n \<le> subsidy m"
  unfolding subsidy_def by (intro div_le_mono2 power_increasing div_le_mono) auto

lemma halving_sum: "(\<Sum>j<k. R div 2 ^ j) + 2 * (R div 2 ^ k) \<le> 2 * (R :: nat)"
proof (induction k)
  case 0
  then show ?case by simp
next
  case (Suc k)
  have "2 * (R div 2 ^ Suc k) \<le> R div 2 ^ k"
    by (metis div_mult2_eq mult.commute power_Suc2 times_div_less_eq_dividend)
  with Suc show ?case by simp
qed

lemma subsidy_era: "(\<Sum>n<2102400 * k. subsidy n) = 2102400 * (\<Sum>j<k. 50000000000 div 2 ^ j)"
proof (induction k)
  case 0
  then show ?case by simp
next
  case (Suc k)
  let ?H = "2102400 :: nat"
  have "(\<Sum>n<?H * Suc k. subsidy n) = (\<Sum>n<?H * k. subsidy n) + (\<Sum>n=?H * k..<?H * Suc k. subsidy n)"
    by (simp only: lessThan_atLeast0) (rule sum.atLeastLessThan_concat [symmetric], auto)
  also have "(\<Sum>n=?H * k..<?H * Suc k. subsidy n) = (\<Sum>n=?H * k..<?H * Suc k. 50000000000 div 2 ^ k)"
  proof (rule sum.cong)
    fix n assume "n \<in> {?H * k..<?H * Suc k}"
    then have "n div ?H = k" by (intro div_nat_eqI) auto
    then show "subsidy n = 50000000000 div 2 ^ k" by (simp add: subsidy_def)
  qed simp
  finally show ?case using Suc by (simp add: distrib_left)
qed

lemma subsidy_sum_bound: "(\<Sum>i<n. subsidy i) \<le> 210240000000000000"
proof -
  have "n \<le> 2102400 * n" by simp
  then have "(\<Sum>i<n. subsidy i) \<le> (\<Sum>i<2102400 * n. subsidy i)"
    by (intro sum_mono2) auto
  also have "\<dots> = 2102400 * (\<Sum>j<n. 50000000000 div 2 ^ j)" by (rule subsidy_era)
  also have "(\<Sum>j<n. 50000000000 div 2 ^ j) \<le> (2 * 50000000000 :: nat)"
    by (rule order_trans [OF le_add1 halving_sum])
  finally show ?thesis by simp
qed

lemma subsidy_zero_from: "subsidy m = 0 \<Longrightarrow> m \<le> n \<Longrightarrow> subsidy n = 0"
  using subsidy_antimono [of m n] by simp

lemma unat_MaxSupply: "unat MaxSupply = 2100000000000000000"
  by (simp add: MaxSupply_def UnitsPerNEVEL_def)

lemma audit_loop_sum:
  assumes "unat t = (\<Sum>i<unat h. subsidy i)"
  shows "\<exists>t'. audit_loop m h t = (t', None) \<and>
              unat t' = (\<Sum>i<max (unat h) (Suc (unat m)). subsidy i)"
  using assms
proof (induction m h t rule: audit_loop.induct)
  case (1 m h t)
  let ?r = "schedule_reward h"
  have next_sum: "unat t + unat ?r = (\<Sum>i<Suc (unat h). subsidy i)"
    using 1(2) by (simp add: unat_schedule_reward)
  then have bound: "unat t + unat ?r \<le> 210240000000000000"
    using subsidy_sum_bound by metis
  then have ov: "\<not> add_overflows t ?r" by (simp add: add_overflows_iff)
  then have sum: "unat (t + ?r) = unat t + unat ?r" by (rule unat_add_no_overflow)
  then have le: "\<not> t + ?r > MaxSupply"
    using bound by (simp add: word_less_nat_alt unat_MaxSupply)
  show ?case
  proof (cases "h \<le> m")
    case False
    then have "max (unat h) (Suc (unat m)) = unat h" by (simp add: word_le_nat_alt)
    with False 1(2) show ?thesis by (simp add: audit_loop.simps [of m h t])
  next
    case hm: True
    show ?thesis
    proof (cases "?r = 0")
      case True
      have zero: "subsidy i = 0" if "unat h \<le> i" for i
        using subsidy_zero_from [OF _ that] True unat_schedule_reward [of h] by simp
      have "(\<Sum>i<max (unat h) (Suc (unat m)). subsidy i) = (\<Sum>i<unat h. subsidy i)"
        by (rule sum.mono_neutral_right) (auto simp: zero)
      with True hm ov le 1(2) show ?thesis by (simp add: audit_loop.simps [of m h t] Let_def)
    next
      case False
      then have "unat h < 75686400" using schedule_reward_zero [of h] by force
      then have h1: "unat (h + 1) = Suc (unat h)" by (simp add: unat_word_ariths)
      then have "unat (t + ?r) = (\<Sum>i<unat (h + 1). subsidy i)"
        using next_sum sum by simp
      then obtain t' where "audit_loop m (h + 1) (t + ?r) = (t', None)"
        and "unat t' = (\<Sum>i<max (unat (h + 1)) (Suc (unat m)). subsidy i)"
        using 1(1) [OF hm refl] ov le False by auto
      moreover have "max (unat (h + 1)) (Suc (unat m)) = max (unat h) (Suc (unat m))"
        using hm h1 by (simp add: word_le_nat_alt)
      ultimately show ?thesis using hm ov le False by (simp add: audit_loop.simps [of m h t] Let_def)
    qed
  qed
qed

section \<open>Lemmas: the compact encoding\<close>

lemma unat_and_mantissa: "unat (c AND 0x7fffff :: u32) = unat c mod 2 ^ 23"
proof -
  have "c AND 0x7fffff = take_bit 23 c" by (simp add: take_bit_eq_mask mask_eq_exp_minus_1)
  then have "unat (c AND 0x7fffff) = take_bit 23 (unat c)"
    by (simp only: unsigned_take_bit_eq)
  then show ?thesis by (simp only: take_bit_eq_mod)
qed

lemma and_sign_bit: "c AND 0x800000 \<noteq> (0 :: u32) \<longleftrightarrow> odd (unat c div 2 ^ 23)"
proof -
  have "c AND 0x800000 = (0 :: u32) \<longleftrightarrow> \<not> bit c 23"
    using and_exp_eq_0_iff_not_bit [of c 23] by simp
  also have "bit c 23 \<longleftrightarrow> bit (unat c) 23" by (simp add: bit_unsigned_iff)
  also have "bit (unat c) 23 \<longleftrightarrow> odd (unat c div 2 ^ 23)" by (rule bit_iff_odd)
  finally show ?thesis by simp
qed

lemma unat_of_nat_small: "n < 2 ^ LENGTH('a::len) \<Longrightarrow> unat (of_nat n :: 'a word) = n"
  by (simp add: unat_of_nat take_bit_nat_eq_self)

lemma CompactToBig_fields:
  assumes "s < 256" and "m < 2 ^ 23"
  shows "CompactToBig (of_nat (s * 2 ^ 24 + m)) =
           (if s \<le> 3 then int (m div 2 ^ (8 * (3 - s))) else int (m * 2 ^ (8 * (s - 3))))"
proof -
  let ?c = "of_nat (s * 2 ^ 24 + m) :: u32"
  have c: "unat ?c = s * 2 ^ 24 + m"
    using assms by (intro unat_of_nat_small) simp
  have size: "drop_bit 24 ?c = of_nat s"
    using assms by (intro word_unat_eq_iff [THEN iffD2]) (simp only: unat_drop_bit c, simp add: unat_of_nat_small)
  have us: "unat (of_nat s :: u32) = s" using assms by (intro unat_of_nat_small) simp
  have split: "s * 2 ^ 24 + m = m + 2 ^ 23 * (2 * s)" by simp
  have "(s * 2 ^ 24 + m) mod 2 ^ 23 = m"
    using assms by (simp only: split mod_mult_self2 mod_less)
  then have mant: "unat (?c AND 0x7fffff) = m" by (simp only: unat_and_mantissa c)
  have "(s * 2 ^ 24 + m) div 2 ^ 23 = 2 * s" using assms by simp
  then have sign: "\<not> ?c AND 0x800000 \<noteq> 0" by (simp only: and_sign_bit c) simp
  have le3: "(of_nat s :: u32) \<le> 3 \<longleftrightarrow> s \<le> 3" by (simp add: word_le_nat_alt us)
  show ?thesis
  proof (cases "s \<le> 3")
    case True
    then have "s = 0 \<or> s = 1 \<or> s = 2 \<or> s = 3" by auto
    then have "unat (8 * (3 - of_nat s :: u32)) = 8 * (3 - s)" by auto
    with True sign show ?thesis
      by (simp only: CompactToBig_def Let_def size mant le3 if_True if_False)
         (simp add: drop_bit_eq_div zdiv_int)
  next
    case False
    have "of_nat s - 3 = (of_nat (s - 3) :: u32)" using False by simp
    then have "8 * (of_nat s - 3 :: u32) = of_nat (8 * (s - 3))" by simp
    then have "unat (8 * (of_nat s - 3 :: u32)) = 8 * (s - 3)"
      using assms by (simp only:) (rule unat_of_nat_small, simp)
    with False sign show ?thesis
      by (simp only: CompactToBig_def Let_def size mant le3 if_True if_False)
         (simp add: push_bit_eq_mult)
  qed
qed

lemma nbytes_upper: "n < 256 ^ nbytes n"
proof (induction n rule: nbytes.induct)
  case (1 n)
  show ?case
  proof (cases "n = 0")
    case True
    then show ?thesis by (simp add: nbytes.simps)
  next
    case False
    with 1 have "n div 256 < 256 ^ nbytes (n div 256)" by simp
    then have "n < 256 * 256 ^ nbytes (n div 256)" by (simp add: div_less_iff_less_mult mult.commute)
    with False show ?thesis by (simp add: nbytes.simps [of n])
  qed
qed

lemma nbytes_lower: "0 < n \<Longrightarrow> 256 ^ (nbytes n - 1) \<le> n"
proof (induction n rule: nbytes.induct)
  case (1 n)
  show ?case
  proof (cases "n < 256")
    case True
    then show ?thesis using 1(2) by (simp add: nbytes.simps [of n] nbytes.simps [of 0])
  next
    case False
    then have pos: "0 < n div 256" by (simp add: div_greater_zero_iff)
    with 1 have "256 ^ (nbytes (n div 256) - 1) \<le> n div 256" by simp
    then have "256 * 256 ^ (nbytes (n div 256) - 1) \<le> n" by simp
    moreover have "nbytes (n div 256) = Suc (nbytes (n div 256) - 1)"
      using pos by (simp add: nbytes.simps [of "n div 256"])
    ultimately show ?thesis using 1(2)
      by (simp add: nbytes.simps [of n]) (metis power_Suc)
  qed
qed

lemma nbytes_unique: "256 ^ k \<le> n \<Longrightarrow> n < 256 ^ Suc k \<Longrightarrow> nbytes n = Suc k"
proof -
  assume lo: "256 ^ k \<le> n" and hi: "n < 256 ^ Suc k"
  have n: "0 < n" using lo by (metis less_le_trans zero_less_numeral zero_less_power)
  have "(256 :: nat) ^ k < 256 ^ nbytes n" using lo nbytes_upper by (rule le_less_trans)
  then have "k < nbytes n" by (rule power_less_imp_less_exp [rotated]) simp
  moreover have "(256 :: nat) ^ (nbytes n - 1) < 256 ^ Suc k"
    using nbytes_lower [OF n] hi by (rule le_less_trans)
  then have "nbytes n - 1 < Suc k" by (rule power_less_imp_less_exp [rotated]) simp
  ultimately show ?thesis by simp
qed

text \<open>The three leading bytes of \<open>n\<close>: the mantissa before normalisation.\<close>

definition lead :: "nat \<Rightarrow> nat" where
  "lead n = (if nbytes n \<le> 3 then n * 2 ^ (8 * (3 - nbytes n)) else n div 2 ^ (8 * (nbytes n - 3)))"

lemma lead_bounds: "0 < n \<Longrightarrow> 2 ^ 16 \<le> lead n \<and> lead n < 2 ^ 24"
proof -
  assume n: "0 < n"
  let ?k = "nbytes n"
  have p: "(2 :: nat) ^ (8 * j) = 256 ^ j" for j by (simp add: power_mult)
  have k: "0 < ?k" using n by (simp add: nbytes.simps [of n])
  have lo: "256 ^ (?k - 1) \<le> n" and hi: "n < 256 ^ ?k"
    using nbytes_lower [OF n] nbytes_upper by auto
  show ?thesis
  proof (cases "?k \<le> 3")
    case True
    with k consider "?k = 1" | "?k = 2" | "?k = 3" by linarith
    then show ?thesis using lo hi by cases (simp_all add: lead_def)
  next
    case False
    then obtain j where j: "?k = 3 + j" by (metis le_Suc_ex nat_le_linear)
    then have "?k - 1 = 2 + j" by simp
    then have "256 ^ 2 * 256 ^ j \<le> n" and "n < 256 ^ 3 * 256 ^ j"
      using lo hi j by (simp_all only: power_add)
    moreover have "lead n = n div 256 ^ j" using False j by (simp add: lead_def p)
    ultimately show ?thesis
      by (simp add: less_eq_div_iff_mult_less_eq div_less_iff_less_mult)
  qed
qed

lemma or_size_field:
  assumes "m < 2 ^ 24"
  shows "of_nat m OR push_bit 24 (of_nat s) = (of_nat (s * 2 ^ 24 + m) :: u32)"
proof -
  have "\<not> bit (of_nat m :: u32) i \<or> \<not> bit (push_bit 24 (of_nat s) :: u32) i" for i
  proof (cases "i < 24")
    case True
    then show ?thesis by (simp add: bit_push_bit_iff)
  next
    case False
    have "m < 2 ^ i" by (rule less_le_trans [OF assms power_increasing]) (use False in auto)
    then have "\<not> bit m i" by (simp add: bit_iff_odd)
    then show ?thesis by (simp add: bit_of_nat_iff)
  qed
  then have "of_nat m OR push_bit 24 (of_nat s :: u32) = of_nat m + push_bit 24 (of_nat s)"
    by (intro disjunctive_add [symmetric]) auto
  then show ?thesis by (simp add: push_bit_eq_mult)
qed

lemma BigToCompact_fields:
  assumes "0 < n"
  shows "BigToCompact (int n) =
           (if lead n < 2 ^ 23 then of_nat (nbytes n * 2 ^ 24 + lead n)
            else of_nat (Suc (nbytes n) * 2 ^ 24 + lead n div 2 ^ 8))"
proof -
  let ?k = "nbytes n"
  have l: "lead n < 2 ^ 24" using lead_bounds [OF assms] by blast
  have u64: "unat (of_nat (lead n) :: u64) = lead n" using l by (intro unat_of_nat_small) simp
  have u32: "unat (of_nat (lead n) :: u32) = lead n" using l by (intro unat_of_nat_small) simp
  have lead64: "(if ?k \<le> 3 then ucast (big_Uint64 (push_bit (8 * (3 - ?k)) (int n)))
                 else ucast (big_Uint64 (drop_bit (8 * (?k - 3)) (int n)))) = (of_nat (lead n) :: u32)"
  proof -
    have "push_bit (8 * (3 - ?k)) (int n) = int (lead n)" if "?k \<le> 3"
      using that by (simp add: lead_def push_bit_eq_mult)
    moreover have "drop_bit (8 * (?k - 3)) (int n) = int (lead n)" if "\<not> ?k \<le> 3"
      using that by (simp add: lead_def drop_bit_eq_div zdiv_int)
    moreover have "ucast (big_Uint64 (int (lead n))) = (of_nat (lead n) :: u32)"
    proof -
      have "ucast (of_nat (lead n) :: u64) = (of_nat (unat (of_nat (lead n) :: u64)) :: u32)"
        by simp
      then show ?thesis by (simp only: u64 big_Uint64_def) simp
    qed
    ultimately show ?thesis by simp
  qed
  have sign: "of_nat (lead n) AND 0x800000 \<noteq> (0 :: u32) \<longleftrightarrow> \<not> lead n < 2 ^ 23"
  proof -
    have "odd (lead n div 2 ^ 23) \<longleftrightarrow> \<not> lead n < 2 ^ 23"
    proof (cases "lead n < 2 ^ 23")
      case False
      with l have "lead n div 2 ^ 23 = 1" by (intro div_nat_eqI) auto
      with False show ?thesis by simp
    qed simp
    then show ?thesis by (simp only: and_sign_bit u32)
  qed
  have shift: "drop_bit 8 (of_nat (lead n) :: u32) = of_nat (lead n div 2 ^ 8)"
  proof -
    have "lead n div 2 ^ 8 < 2 ^ 24" using l by (meson div_le_dividend le_less_trans)
    then show ?thesis
      by (intro word_unat_eq_iff [THEN iffD2])
         (simp only: unat_drop_bit u32, simp add: unat_of_nat_small)
  qed
  have l8: "lead n div 2 ^ 8 < 2 ^ 24" using l by (meson div_le_dividend le_less_trans)
  have abs: "nat \<bar>int n\<bar> = n" by simp
  show ?thesis
    unfolding BigToCompact_def abs Let_def lead64 sign shift
    using assms l l8 by (auto simp: or_size_field simp del: of_nat_add of_nat_mult of_nat_Suc)
qed

text \<open>
  Encoding truncates: it keeps the leading bits of the target and clears the low \<open>e\<close> ones, and never
  touches more than the low part of a 15-bit mantissa.
\<close>

lemma compact_truncates:
  assumes "0 < n" and "nbytes n < 255"
  shows "\<exists>e. CompactToBig (BigToCompact (int n)) = int (n div 2 ^ e * 2 ^ e)
             \<and> (e = 0 \<or> 2 ^ 15 * 2 ^ e \<le> n)"
proof (cases "lead n < 2 ^ 23")
  case True
  have c: "CompactToBig (BigToCompact (int n)) =
      (if nbytes n \<le> 3 then int (lead n div 2 ^ (8 * (3 - nbytes n)))
       else int (lead n * 2 ^ (8 * (nbytes n - 3))))"
    using True assms CompactToBig_fields [of "nbytes n" "lead n"]
    by (simp only: BigToCompact_fields [OF assms(1)] if_True)
  show ?thesis
  proof (cases "nbytes n \<le> 3")
    case True
    then show ?thesis unfolding c by (intro exI [of _ 0]) (simp add: lead_def)
  next
    case False
    have "2 ^ 16 \<le> n div 2 ^ (8 * (nbytes n - 3))"
      using lead_bounds [OF assms(1)] False by (simp add: lead_def)
    then have "2 ^ 16 * 2 ^ (8 * (nbytes n - 3)) \<le> n" by (simp add: less_eq_div_iff_mult_less_eq)
    then have "2 ^ 15 * 2 ^ (8 * (nbytes n - 3)) \<le> n" by simp
    with False show ?thesis
      unfolding c by (intro exI [of _ "8 * (nbytes n - 3)"]) (simp add: lead_def)
  qed
next
  case False
  have m: "lead n div 2 ^ 8 < 2 ^ 23" using lead_bounds [OF assms(1)] by (simp add: div_less_iff_less_mult)
  have c: "CompactToBig (BigToCompact (int n)) =
      (if Suc (nbytes n) \<le> 3 then int (lead n div 2 ^ 8 div 2 ^ (8 * (3 - Suc (nbytes n))))
       else int (lead n div 2 ^ 8 * 2 ^ (8 * (Suc (nbytes n) - 3))))"
    using False assms m CompactToBig_fields [of "Suc (nbytes n)" "lead n div 2 ^ 8"]
    by (simp only: BigToCompact_fields [OF assms(1)] if_False)
  consider "nbytes n \<le> 2" | j where "nbytes n = 3 + j"
    by (metis Suc_leI eval_nat_numeral(3) le_add_diff_inverse not_less numeral_2_eq_2 numeral_3_eq_3)
  then show ?thesis
  proof cases
    case 1
    then have "3 - nbytes n = Suc (3 - Suc (nbytes n))" by simp
    then have "lead n = n * (2 ^ 8 * 2 ^ (8 * (3 - Suc (nbytes n))))"
      using 1 by (simp only: lead_def power_add [symmetric]) simp
    then have "lead n div 2 ^ 8 div 2 ^ (8 * (3 - Suc (nbytes n))) = n"
      by (simp add: div_mult2_eq [symmetric])
    with 1 show ?thesis unfolding c by (intro exI [of _ 0]) simp
  next
    case (2 j)
    have pw: "(2 :: nat) ^ (8 * Suc j) = 2 ^ (8 * j) * 2 ^ 8" by (simp add: power_add)
    have l: "lead n = n div 2 ^ (8 * j)" using 2 by (simp add: lead_def)
    then have "lead n div 2 ^ 8 = n div 2 ^ (8 * Suc j)" by (simp only: pw div_mult2_eq)
    moreover have "2 ^ 23 * 2 ^ (8 * j) \<le> n"
      using False l by (simp add: less_eq_div_iff_mult_less_eq not_less)
    then have "2 ^ 15 * 2 ^ (8 * Suc j) \<le> n" by (simp only: pw) simp
    ultimately show ?thesis
      unfolding c using 2 by (intro exI [of _ "8 * Suc j"]) simp
  qed
qed

definition canonical_bits :: "u32 \<Rightarrow> bool" where
  "canonical_bits c \<longleftrightarrow>
     3 \<le> unat c div 2 ^ 24 \<and> 2 ^ 15 \<le> unat c mod 2 ^ 24 \<and> unat c mod 2 ^ 24 < 2 ^ 23"

lemma lead_mantissa_wide:
  assumes "2 ^ 16 \<le> m" and "m < 2 ^ 24"
  shows "nbytes (m * 256 ^ j) = 3 + j" and "lead (m * 256 ^ j) = m"
proof -
  have "256 ^ (2 + j) \<le> m * 256 ^ j" and "m * 256 ^ j < 256 ^ Suc (2 + j)"
    using assms by (simp_all add: power_add)
  then have "nbytes (m * 256 ^ j) = Suc (2 + j)" by (rule nbytes_unique)
  then show k: "nbytes (m * 256 ^ j) = 3 + j" by simp
  show "lead (m * 256 ^ j) = m"
    using k by (cases "j = 0") (simp_all add: lead_def power_mult)
qed

lemma compact_fixed_point:
  assumes "canonical_bits c"
  shows "BigToCompact (CompactToBig c) = c"
proof -
  define s m where "s = unat c div 2 ^ 24" and "m = unat c mod 2 ^ 24"
  have c: "c = of_nat (s * 2 ^ 24 + m)"
    unfolding s_def m_def by (simp only: div_mult_mod_eq) simp
  have s: "3 \<le> s" "s < 256" and m: "2 ^ 15 \<le> m" "m < 2 ^ 23"
    using assms unsigned_less [of c] by (auto simp: canonical_bits_def s_def m_def div_less_iff_less_mult)
  define j where "j = s - 3"
  have sj: "s = 3 + j" using s by (simp add: j_def)
  have big: "CompactToBig c = int (m * 256 ^ j)"
    unfolding c by (subst CompactToBig_fields [OF s(2) m(2)]) (simp add: sj power_mult)
  have pos: "0 < m * 256 ^ j" using m by simp
  show ?thesis
  proof (cases "2 ^ 16 \<le> m")
    case True
    then have "nbytes (m * 256 ^ j) = s" and "lead (m * 256 ^ j) = m"
      using m lead_mantissa_wide [of m j] sj by auto
    then show ?thesis
      unfolding big BigToCompact_fields [OF pos] using m c by simp
  next
    case False
    have w: "2 ^ 16 \<le> m * 256" "m * 256 < 2 ^ 24" using False m by auto
    have k: "nbytes (m * 256 ^ j) = 2 + j \<and> lead (m * 256 ^ j) = m * 256"
    proof (cases j)
      case 0
      have "nbytes m = Suc 1" using m False by (intro nbytes_unique) auto
      with 0 show ?thesis by (simp add: lead_def)
    next
      case (Suc i)
      then have e: "m * 256 ^ j = m * 256 * 256 ^ i" by simp
      show ?thesis unfolding e by (simp only: lead_mantissa_wide [OF w, of i] Suc) simp
    qed
    then have "\<not> lead (m * 256 ^ j) < 2 ^ 23" and "lead (m * 256 ^ j) div 2 ^ 8 = m"
      and "Suc (nbytes (m * 256 ^ j)) = s"
      using m sj by auto
    then show ?thesis
      unfolding big BigToCompact_fields [OF pos] using c by (simp only: if_False)
  qed
qed

section \<open>Properties\<close>

text \<open>
  the audit of the subsidy schedule succeeds for every height: it never reports
  \<open>ErrSupplyScheduleExceedsMax\<close>, its total is the sum of the subsidies of the blocks up to that
  height, and that total never exceeds 210,240,000,000,000,000 units, a tenth of \<open>MaxSupply\<close>.
\<close>

theorem AuditSupplySchedule_passes:
  "\<exists>r. AuditSupplySchedule maxHeight = (r, None) \<and> sa_Pass r
       \<and> unat (sa_TotalSubsidy r) = (\<Sum>i\<le>unat maxHeight. subsidy i)
       \<and> unat (sa_TotalSubsidy r) \<le> 210240000000000000
       \<and> 9 * unat (sa_TotalSubsidy r) < unat (sa_MaxSupply r)"
proof -
  obtain t where loop: "audit_loop maxHeight 0 0 = (t, None)"
    and t: "unat t = (\<Sum>i<Suc (unat maxHeight). subsidy i)"
    using audit_loop_sum [of 0 0 maxHeight] by auto
  have bound: "unat t \<le> 210240000000000000" unfolding t by (rule subsidy_sum_bound)
  then have "t \<le> MaxSupply" by (simp add: word_le_nat_alt unat_MaxSupply)
  with loop t bound show ?thesis
    by (simp add: AuditSupplySchedule_def unat_MaxSupply lessThan_Suc_atMost)
qed

text \<open>
  encoding a positive target in compact form only rounds it down, by less than one part in
  \<open>2^15\<close>; the decoded target is again positive.
\<close>

theorem compact_precision:
  assumes "0 < n" and "n < 2 ^ 2032"
  shows "0 < CompactToBig (BigToCompact n) \<and> CompactToBig (BigToCompact n) \<le> n
         \<and> (n - CompactToBig (BigToCompact n)) * 2 ^ 15 < n"
proof -
  obtain k where k: "n = int k" and pos: "0 < k" using assms(1) by (metis pos_int_cases)
  have "256 ^ (nbytes k - 1) \<le> k" by (rule nbytes_lower [OF pos])
  also have "k < 256 ^ 254" using assms(2) by (simp add: k)
  finally have "nbytes k - 1 < 254" by (rule power_less_imp_less_exp [rotated]) simp
  then have "nbytes k < 255" by simp
  then obtain e where e: "CompactToBig (BigToCompact n) = int (k div 2 ^ e * 2 ^ e)"
    and small: "e = 0 \<or> 2 ^ 15 * 2 ^ e \<le> k"
    using compact_truncates [OF pos] k by blast
  have rest: "k - k div 2 ^ e * 2 ^ e = k mod 2 ^ e" by (simp add: minus_div_mult_eq_mod)
  have le: "k div 2 ^ e * 2 ^ e \<le> k" by simp
  have "k mod 2 ^ e * 2 ^ 15 < k"
  proof (cases "e = 0")
    case True
    with pos show ?thesis by simp
  next
    case False
    have "k mod 2 ^ e < 2 ^ e" by simp
    then have "k mod 2 ^ e * 2 ^ 15 < 2 ^ 15 * 2 ^ e" by simp
    also have "\<dots> \<le> k" using small False by simp
    finally show ?thesis .
  qed
  then have lt: "(k - k div 2 ^ e * 2 ^ e) * 2 ^ 15 < k" by (simp only: rest)
  then have "int ((k - k div 2 ^ e * 2 ^ e) * 2 ^ 15) < int k" by (simp only: of_nat_less_iff)
  then have "(int k - int (k div 2 ^ e * 2 ^ e)) * 2 ^ 15 < int k"
    by (simp only: of_nat_mult of_nat_diff [OF le] of_nat_power of_nat_numeral)
  moreover have "0 < k div 2 ^ e * 2 ^ e"
    using lt pos by (cases "k div 2 ^ e * 2 ^ e = 0") auto
  ultimately show ?thesis unfolding e using le k by (simp only: of_nat_0_less_iff of_nat_le_iff)
qed

theorem compact_precision_witness:
  "0 < CompactToBig (BigToCompact 123456789) \<and> CompactToBig (BigToCompact 123456789) \<le> 123456789
   \<and> (123456789 - CompactToBig (BigToCompact 123456789)) * 2 ^ 15 < 123456789"
  by (rule compact_precision) simp_all

text \<open>
  a compact value in normal form (at least three bytes, a 23-bit mantissa with its top byte or
  its second byte's high bit in use, no sign bit) survives decoding and encoding unchanged. The
  proof-of-work bits of every network are in that form.
\<close>

theorem compact_roundtrip:
  assumes "canonical_bits c"
  shows "BigToCompact (CompactToBig c) = c"
  using assms by (rule compact_fixed_point)

theorem compact_roundtrip_witness:
  "BigToCompact (CompactToBig (net_GenesisBits Mainnet)) = net_GenesisBits Mainnet"
  by (rule compact_roundtrip) (simp add: canonical_bits_def Mainnet_def ProductionPowBits_def)

end
