(* ===== verification/Tx.thy ===== *)
theory Tx
  imports Sha256 Params
begin

text \<open>
  Package \<open>tx\<close> (\<open>tx/transaction.go\<close>): transactions, their binary encoding and its reader with the
  limits it enforces, the double-SHA256 identifier, the coinbase test and the overflow-checked fee.
  A Go slice is a list, so \<open>nil\<close> and the empty slice are one value; both are written the same way.
  The writers target a \<open>bytes.Buffer\<close>, whose \<open>Write\<close> never fails, and are the bytes they append.
  The interpretations of \<open>codec\<close> show that reader and writer invert each other on the values
  within the limits.
\<close>

record Input =
  in_PrevTxHash :: hash
  in_OutputIdx :: u32
  in_Signature :: "byte list"
  in_PublicKey :: "byte list"

record Output =
  out_Amount :: u64
  out_LockingScript :: "byte list"

record Transaction =
  tx_Version :: u32
  tx_Inputs :: "Input list"
  tx_Outputs :: "Output list"
  tx_LockTime :: u64

section \<open>Writing\<close>

definition writeVarBytesList :: "nat \<Rightarrow> byte list" where
  "writeVarBytesList n = PutUint64 (of_nat n)"

definition writeBytes :: "byte list \<Rightarrow> byte list" where
  "writeBytes b = PutUint64 (of_nat (length b)) @ b"

definition WriteInput :: "Input \<Rightarrow> byte list" where
  "WriteInput i =
     hash_bytes (in_PrevTxHash i) @ PutUint32 (in_OutputIdx i)
       @ writeBytes (in_Signature i) @ writeBytes (in_PublicKey i)"

definition WriteOutput :: "Output \<Rightarrow> byte list" where
  "WriteOutput out = PutUint64 (out_Amount out) @ writeBytes (out_LockingScript out)"

definition WriteTransaction :: "Transaction \<Rightarrow> byte list" where
  "WriteTransaction t =
     PutUint32 (tx_Version t)
       @ writeVarBytesList (length (tx_Inputs t)) @ concat (map WriteInput (tx_Inputs t))
       @ writeVarBytesList (length (tx_Outputs t)) @ concat (map WriteOutput (tx_Outputs t))
       @ PutUint64 (tx_LockTime t)"

definition SerializeTransaction :: "Transaction \<Rightarrow> byte list" where
  "SerializeTransaction t = WriteTransaction t"

section \<open>Reading\<close>

definition readCount :: "nat reader" where
  "readCount bs =
     and_then (ReadUint64 bs) (\<lambda>n r.
       if n > 1000000 then Inl (ErrCountTooLarge n) else Inr (unat n, r))"

definition readBytes :: "byte list reader" where
  "readBytes bs =
     and_then (ReadUint64 bs) (\<lambda>n r.
       if n > 1000000 then Inl (ErrByteFieldTooLarge n) else ReadFull (unat n) r)"

definition ReadInput :: "Input reader" where
  "ReadInput bs =
     and_then (ReadHash bs) (\<lambda>h r.
     and_then (ReadUint32 r) (\<lambda>i r.
     and_then (readBytes r) (\<lambda>sig r.
     and_then (readBytes r) (\<lambda>pk r.
       Inr (\<lparr>in_PrevTxHash = h, in_OutputIdx = i, in_Signature = sig, in_PublicKey = pk\<rparr>, r)))))"

definition ReadOutput :: "Output reader" where
  "ReadOutput bs =
     and_then (ReadUint64 bs) (\<lambda>a r.
     and_then (readBytes r) (\<lambda>s r.
       Inr (\<lparr>out_Amount = a, out_LockingScript = s\<rparr>, r)))"

definition ReadTransaction :: "Transaction reader" where
  "ReadTransaction bs =
     and_then (ReadUint32 bs) (\<lambda>v r.
     and_then (readCount r) (\<lambda>inputs r.
       if inputs > 10000 then Inl (ErrTooManyInputs inputs) else
     and_then (read_n ReadInput inputs r) (\<lambda>is r.
     and_then (readCount r) (\<lambda>outputs r.
       if outputs > 10000 then Inl (ErrTooManyOutputs outputs) else
     and_then (read_n ReadOutput outputs r) (\<lambda>os r.
     and_then (ReadUint64 r) (\<lambda>lt r.
       Inr (\<lparr>tx_Version = v, tx_Inputs = is, tx_Outputs = os, tx_LockTime = lt\<rparr>, r)))))))"

text \<open>\<open>DeserializeTransaction\<close> reads one transaction and ignores what follows it.\<close>

definition DeserializeTransaction :: "byte list \<Rightarrow> error + Transaction" where
  "DeserializeTransaction b = and_then (ReadTransaction b) (\<lambda>t r. Inr t)"

section \<open>Hash, coinbase, fee\<close>

definition tx_Hash :: "Transaction \<Rightarrow> hash" where
  "tx_Hash t = Sum256d (SerializeTransaction t)"

fun IsCoinbase :: "Transaction \<Rightarrow> bool" where
  "IsCoinbase t =
     (case tx_Inputs t of
        [i] \<Rightarrow> in_PrevTxHash i = 0 \<and> in_OutputIdx i = NOT 0
      | _ \<Rightarrow> False)"

definition Fee :: "Transaction \<Rightarrow> u64 \<Rightarrow> error + u64" where
  "Fee t inputTotal =
     (case checked_sum 0 (map out_Amount (tx_Outputs t)) of
        None \<Rightarrow> Inl ErrInflation
      | Some out \<Rightarrow> if out > inputTotal then Inl ErrInflation else Inr (inputTotal - out))"

definition NewCoinbase :: "string \<Rightarrow> u64 \<Rightarrow> byte list \<Rightarrow> Transaction" where
  "NewCoinbase message amount script =
     \<lparr>tx_Version = 1,
      tx_Inputs = [\<lparr>in_PrevTxHash = 0, in_OutputIdx = NOT 0,
                    in_Signature = string_bytes message, in_PublicKey = []\<rparr>],
      tx_Outputs = [\<lparr>out_Amount = amount, out_LockingScript = script\<rparr>], tx_LockTime = 0\<rparr>"

declare IsCoinbase.simps [simp del]

section \<open>The limits of the reader\<close>

definition wf_Input :: "Input \<Rightarrow> bool" where
  "wf_Input i \<longleftrightarrow> length (in_Signature i) \<le> 1000000 \<and> length (in_PublicKey i) \<le> 1000000"

definition wf_Output :: "Output \<Rightarrow> bool" where
  "wf_Output out \<longleftrightarrow> length (out_LockingScript out) \<le> 1000000"

definition wf_Transaction :: "Transaction \<Rightarrow> bool" where
  "wf_Transaction t \<longleftrightarrow>
     length (tx_Inputs t) \<le> 10000 \<and> list_all wf_Input (tx_Inputs t) \<and>
     length (tx_Outputs t) \<le> 10000 \<and> list_all wf_Output (tx_Outputs t)"

section \<open>Reader and writer invert each other\<close>

lemma unat_of_nat_limit: "n \<le> 1000000 \<Longrightarrow> unat (of_nat n :: u64) = n"
  by (rule unat_of_nat_small) simp

lemma limit_word: "(n :: u64) > 1000000 \<longleftrightarrow> 1000000 < unat n"
  by (simp add: word_less_nat_alt)

interpretation count_codec: codec writeVarBytesList readCount "\<lambda>n. n \<le> 1000000"
proof (unfold_locales, goal_cases)
  case (1 n rest)
  then show ?case
    by (simp add: readCount_def writeVarBytesList_def codec_rules limit_word unat_of_nat_limit)
next
  case (2 bs n rest)
  then show ?case
    by (auto simp: readCount_def writeVarBytesList_def limit_word
             elim!: u64_codec.and_then_dec_Inr split: if_splits)
qed

interpretation bytes_codec: codec writeBytes readBytes "\<lambda>b. length b \<le> 1000000"
proof (unfold_locales, goal_cases)
  case (1 b rest)
  then show ?case
    by (simp add: readBytes_def writeBytes_def codec_rules limit_word unat_of_nat_limit)
next
  case (2 bs b rest)
  then show ?case
    by (auto simp: readBytes_def writeBytes_def limit_word dest!: ReadFull_sound
             elim!: u64_codec.and_then_dec_Inr split: if_splits)
qed

interpretation input_codec: codec WriteInput ReadInput wf_Input
proof (unfold_locales, goal_cases)
  case (1 i rest)
  then show ?case
    by (simp add: ReadInput_def WriteInput_def wf_Input_def codec_rules)
next
  case (2 bs i rest)
  then show ?case
    by (auto simp: ReadInput_def WriteInput_def wf_Input_def
             elim!: hash_codec.and_then_dec_Inr u32_codec.and_then_dec_Inr bytes_codec.and_then_dec_Inr)
qed

interpretation output_codec: codec WriteOutput ReadOutput wf_Output
proof (unfold_locales, goal_cases)
  case (1 out rest)
  then show ?case
    by (simp add: ReadOutput_def WriteOutput_def wf_Output_def codec_rules)
next
  case (2 bs out rest)
  then show ?case
    by (auto simp: ReadOutput_def WriteOutput_def wf_Output_def
             elim!: u64_codec.and_then_dec_Inr bytes_codec.and_then_dec_Inr)
qed

interpretation tx_codec: codec WriteTransaction ReadTransaction wf_Transaction
proof (unfold_locales, goal_cases)
  case (1 t rest)
  then show ?case
    by (simp add: ReadTransaction_def WriteTransaction_def wf_Transaction_def codec_rules
          input_codec.read_n_enc output_codec.read_n_enc)
next
  case (2 bs t rest)
  then show ?case
    by (auto simp: ReadTransaction_def WriteTransaction_def wf_Transaction_def not_less
             elim!: u32_codec.and_then_dec_Inr u64_codec.and_then_dec_Inr
               count_codec.and_then_dec_Inr input_codec.and_then_read_n_Inr
               output_codec.and_then_read_n_Inr
             split: if_splits)
qed

section \<open>Coinbase and fee\<close>

lemma IsCoinbase_NewCoinbase [simp]: "IsCoinbase (NewCoinbase message amount script)"
  by (simp add: NewCoinbase_def IsCoinbase.simps)

lemma IsCoinbase_single_input: "IsCoinbase t \<Longrightarrow> length (tx_Inputs t) = 1"
  by (auto simp: IsCoinbase.simps split: list.splits)

text \<open>The sum of the outputs over the naturals, where nothing wraps.\<close>

definition output_total :: "Transaction \<Rightarrow> nat" where
  "output_total t = sum_list (map (\<lambda>out. unat (out_Amount out)) (tx_Outputs t))"

lemma checked_sum_outputs:
  "checked_sum 0 (map out_Amount (tx_Outputs t)) =
     (if output_total t < 2 ^ 64 then Some (of_nat (output_total t)) else None)"
proof (cases "checked_sum 0 (map out_Amount (tx_Outputs t))")
  case None
  then show ?thesis by (simp add: checked_sum_None_iff output_total_def o_def)
next
  case (Some s)
  have s: "unat s = output_total t"
    using checked_sum_unat [OF Some] by (simp add: output_total_def o_def)
  moreover have "unat s < 2 ^ 64" using unsigned_less [of s] by simp
  ultimately show ?thesis using Some by (simp flip: s)
qed

lemma length_writeBytes [simp]: "length (writeBytes b) = 8 + length b"
  by (simp add: writeBytes_def)

lemma length_SerializeTransaction_pos: "0 < length (SerializeTransaction t)"
  by (simp add: SerializeTransaction_def WriteTransaction_def)

section \<open>Properties\<close>

text \<open>
  the reader accepts exactly the encodings of the transactions within its limits, and returns
  the encoded transaction together with the unread bytes. So reading inverts writing, no two
  transactions share an encoding, no encoding is a prefix of another, and every accepted byte
  string is in the one form the writer produces.
\<close>

theorem ReadTransaction_iff:
  "ReadTransaction bs = Inr (t, rest) \<longleftrightarrow> wf_Transaction t \<and> bs = SerializeTransaction t @ rest"
  by (simp add: SerializeTransaction_def tx_codec.dec_iff)

text \<open>
  \<open>DeserializeTransaction\<close> returns the transaction that was serialised, whatever bytes follow
  its encoding.
\<close>

theorem Deserialize_Serialize:
  assumes "wf_Transaction t"
  shows "DeserializeTransaction (SerializeTransaction t @ junk) = Inr t"
  using assms by (simp add: DeserializeTransaction_def SerializeTransaction_def tx_codec.dec_enc)

theorem Deserialize_Serialize_witness:
  "DeserializeTransaction (SerializeTransaction (NewCoinbase ''genesis'' 5 [1, 2]) @ [7]) =
     Inr (NewCoinbase ''genesis'' 5 [1, 2])"
  by (rule Deserialize_Serialize)
     (simp add: NewCoinbase_def wf_Transaction_def wf_Input_def wf_Output_def string_bytes_def)

text \<open>
  \<open>Fee\<close> is the exact difference of the input total and the outputs' sum over the naturals, and
  \<open>ErrInflation\<close> exactly when the outputs exceed the inputs; outputs whose sum leaves 64 bits are
  rejected too, never wrapped.
\<close>

theorem Fee_exact:
  "Fee t inputTotal =
     (if output_total t \<le> unat inputTotal then Inr (of_nat (unat inputTotal - output_total t))
      else Inl ErrInflation)"
proof (cases "output_total t < 2 ^ 64")
  case True
  have u: "unat (of_nat (output_total t) :: u64) = output_total t"
    using True by (intro unat_of_nat_small) simp
  have gt: "of_nat (output_total t) > inputTotal \<longleftrightarrow> \<not> output_total t \<le> unat inputTotal"
    by (simp only: word_less_nat_alt u not_le)
  have "inputTotal - of_nat (output_total t) = of_nat (unat inputTotal - output_total t)"
    if "output_total t \<le> unat inputTotal"
    using that by simp
  with True gt show ?thesis by (simp add: Fee_def checked_sum_outputs)
next
  case False
  then have "\<not> output_total t \<le> unat inputTotal" using unat_u64_less [of inputTotal] by simp
  with False show ?thesis by (simp add: Fee_def checked_sum_outputs)
qed

end
