(* ===== verification/Block.thy ===== *)
theory Block
  imports Tx
begin

text \<open>
  Package \<open>blockchain\<close> (\<open>blockchain/block.go\<close>, \<open>blockchain/genesis.go\<close>): headers, blocks, their binary
  encoding, the header hash, the Merkle root and the genesis block. The Merkle loop is a total
  function: each round halves the list. \<open>time.Now\<close> is an argument (seconds since the epoch) of the
  one function that reads it. The lemmas show that block reader and writer invert each other, that
  the loop computes the hash of a binary tree, and what the root commits to.
\<close>

record BlockHeader =
  hdr_Version :: u32
  hdr_PrevHash :: hash
  hdr_MerkleRoot :: hash
  hdr_Timestamp :: i64
  hdr_Bits :: u32
  hdr_Nonce :: u64
  hdr_Height :: u64

record Block =
  blk_Header :: BlockHeader
  blk_Transactions :: "Transaction list"

definition hdr_Hash :: "BlockHeader \<Rightarrow> hash" where
  "hdr_Hash h =
     (let b = PutUint32 (hdr_Version h) @ hash_bytes (hdr_PrevHash h) @ hash_bytes (hdr_MerkleRoot h)
              @ PutUint64 (hdr_Timestamp h) @ PutUint32 (hdr_Bits h) @ PutUint64 (hdr_Nonce h)
              @ PutUint64 (hdr_Height h)
      in Sum256 (hash_bytes (Sum256 b)))"

definition blk_Hash :: "Block \<Rightarrow> hash" where
  "blk_Hash b = hdr_Hash (blk_Header b)"

section \<open>Merkle root\<close>

text \<open>One inner loop: \<open>sha256d\<close> of each pair of neighbours.\<close>

definition merkle_node :: "hash \<Rightarrow> hash \<Rightarrow> hash" where
  "merkle_node l r = Sum256 (hash_bytes (Sum256 (hash_bytes l @ hash_bytes r)))"

fun merkle_pairs :: "hash list \<Rightarrow> hash list" where
  "merkle_pairs (l # r # hs) = merkle_node l r # merkle_pairs hs"
| "merkle_pairs hs = []"

definition merkle_even :: "hash list \<Rightarrow> hash list" where
  "merkle_even hs = (if length hs mod 2 = 1 then hs @ [last hs] else hs)"

lemma length_merkle_pairs: "length (merkle_pairs hs) = length hs div 2"
  by (induction hs rule: merkle_pairs.induct) auto

lemma length_merkle_level: "length (merkle_pairs (merkle_even hs)) = (length hs + 1) div 2"
  by (simp add: length_merkle_pairs merkle_even_def) presburger

function merkle_loop :: "hash list \<Rightarrow> hash" where
  "merkle_loop hs =
     (if length hs > 1 then merkle_loop (merkle_pairs (merkle_even hs)) else hs ! 0)"
  by pat_completeness auto
termination
  by (relation "measure length") (auto simp: length_merkle_level)

declare merkle_loop.simps [simp del]

definition BuildMerkleRoot :: "Transaction list \<Rightarrow> hash" where
  "BuildMerkleRoot txs = (if txs = [] then 0 else merkle_loop (map tx_Hash txs))"

section \<open>Blocks\<close>

definition NewBlock :: "i64 \<Rightarrow> hash \<Rightarrow> u64 \<Rightarrow> u32 \<Rightarrow> Transaction list \<Rightarrow> Block" where
  "NewBlock now prev height bits txs =
     \<lparr>blk_Header = \<lparr>hdr_Version = 1, hdr_PrevHash = prev, hdr_MerkleRoot = BuildMerkleRoot txs,
                    hdr_Timestamp = now, hdr_Bits = bits, hdr_Nonce = 0, hdr_Height = height\<rparr>,
      blk_Transactions = txs\<rparr>"

definition WriteHeader :: "BlockHeader \<Rightarrow> byte list" where
  "WriteHeader h =
     PutUint32 (hdr_Version h) @ hash_bytes (hdr_PrevHash h) @ hash_bytes (hdr_MerkleRoot h)
       @ PutUint64 (hdr_Timestamp h) @ PutUint32 (hdr_Bits h) @ PutUint64 (hdr_Nonce h)
       @ PutUint64 (hdr_Height h)"

definition WriteBlock :: "Block \<Rightarrow> byte list" where
  "WriteBlock b =
     WriteHeader (blk_Header b) @ PutUint64 (of_nat (length (blk_Transactions b)))
       @ concat (map WriteTransaction (blk_Transactions b))"

definition SerializeBlock :: "Block \<Rightarrow> byte list" where
  "SerializeBlock b = WriteBlock b"

definition ReadBlock :: "Block reader" where
  "ReadBlock bs =
     and_then (ReadUint32 bs) (\<lambda>v r.
     and_then (ReadHash r) (\<lambda>p r.
     and_then (ReadHash r) (\<lambda>m r.
     and_then (ReadUint64 r) (\<lambda>ts r.
     and_then (ReadUint32 r) (\<lambda>bits r.
     and_then (ReadUint64 r) (\<lambda>nonce r.
     and_then (ReadUint64 r) (\<lambda>height r.
     and_then (ReadUint64 r) (\<lambda>n r.
       if n > 100000 then Inl (ErrTooManyBlockTransactions n) else
     and_then (read_n ReadTransaction (unat n) r) (\<lambda>txs r.
       Inr (\<lparr>blk_Header = \<lparr>hdr_Version = v, hdr_PrevHash = p, hdr_MerkleRoot = m, hdr_Timestamp = ts,
                           hdr_Bits = bits, hdr_Nonce = nonce, hdr_Height = height\<rparr>,
             blk_Transactions = txs\<rparr>, r))))))))))"

definition DeserializeBlock :: "byte list \<Rightarrow> error + Block" where
  "DeserializeBlock data = and_then (ReadBlock data) (\<lambda>b r. Inr b)"

definition GenesisMessage :: string where
  "GenesisMessage = ''NEVEL: The global money network begins.''"

definition CreateGenesisBlock :: "Network \<Rightarrow> Block" where
  "CreateGenesisBlock net =
     (let coinbase = NewCoinbase GenesisMessage InitialReward (string_bytes ''genesis'');
          block = \<lparr>blk_Header = \<lparr>hdr_Version = 1, hdr_PrevHash = 0, hdr_MerkleRoot = 0,
                                 hdr_Timestamp = 1780000000, hdr_Bits = net_GenesisBits net,
                                 hdr_Nonce = 0, hdr_Height = 0\<rparr>,
                   blk_Transactions = [coinbase]\<rparr>
      in block\<lparr>blk_Header := (blk_Header block)\<lparr>
                 hdr_MerkleRoot := BuildMerkleRoot (blk_Transactions block)\<rparr>\<rparr>)"

section \<open>Reader and writer invert each other\<close>

definition wf_Block :: "Block \<Rightarrow> bool" where
  "wf_Block b \<longleftrightarrow>
     length (blk_Transactions b) \<le> 100000 \<and> list_all wf_Transaction (blk_Transactions b)"

lemma unat_block_limit: "n \<le> 100000 \<Longrightarrow> unat (of_nat n :: u64) = n"
  by (rule unat_of_nat_small) simp

lemma block_limit_word: "(n :: u64) > 100000 \<longleftrightarrow> 100000 < unat n"
  by (simp add: word_less_nat_alt)

interpretation block_codec: codec WriteBlock ReadBlock wf_Block
proof (unfold_locales, goal_cases)
  case (1 b rest)
  then show ?case
    by (simp add: ReadBlock_def WriteBlock_def WriteHeader_def wf_Block_def codec_rules
          unat_block_limit block_limit_word tx_codec.read_n_enc)
next
  case (2 bs b rest)
  then show ?case
    by (auto simp: ReadBlock_def WriteBlock_def WriteHeader_def wf_Block_def block_limit_word not_less
             elim!: u32_codec.and_then_dec_Inr u64_codec.and_then_dec_Inr
               hash_codec.and_then_dec_Inr tx_codec.and_then_read_n_Inr
             split: if_splits)
qed

lemma hdr_Hash_WriteHeader: "hdr_Hash h = Sum256d (WriteHeader h)"
  by (simp add: hdr_Hash_def WriteHeader_def Sum256d_def Let_def)

lemma length_WriteHeader: "length (WriteHeader h) = 96"
  by (simp add: WriteHeader_def)

lemma WriteHeader_inj: "WriteHeader g = WriteHeader h \<Longrightarrow> g = h"
  by (rule BlockHeader.equality) (simp_all add: WriteHeader_def)

section \<open>What the Merkle root commits to\<close>

text \<open>The messages the loop hashes: pairs of node hashes, level by level.\<close>

fun pair_bytes :: "hash list \<Rightarrow> byte list list" where
  "pair_bytes (l # r # hs) = (hash_bytes l @ hash_bytes r) # pair_bytes hs"
| "pair_bytes hs = []"

function merkle_inputs :: "hash list \<Rightarrow> byte list list" where
  "merkle_inputs hs =
     (if length hs > 1 then pair_bytes (merkle_even hs) @ merkle_inputs (merkle_pairs (merkle_even hs))
      else [])"
  by pat_completeness auto
termination
  by (relation "measure length") (auto simp: length_merkle_level)

declare merkle_inputs.simps [simp del]

lemma merkle_node_Sum256d: "merkle_node l r = Sum256d (hash_bytes l @ hash_bytes r)"
  by (simp add: merkle_node_def Sum256d_def)

lemma merkle_pairs_inj:
  "length xs = length ys \<Longrightarrow> even (length xs) \<Longrightarrow> merkle_pairs xs = merkle_pairs ys \<Longrightarrow>
     inj_on Sum256d (set (pair_bytes xs) \<union> set (pair_bytes ys)) \<Longrightarrow> xs = ys"
proof (induction xs arbitrary: ys rule: merkle_pairs.induct)
  case (1 l r hs)
  obtain l' r' hs' where ys: "ys = l' # r' # hs'"
    using 1(2) by (cases ys rule: merkle_pairs.cases) auto
  let ?m = "hash_bytes l @ hash_bytes r" and ?m' = "hash_bytes l' @ hash_bytes r'"
  have "Sum256d ?m = Sum256d ?m'"
    using 1(4) by (simp add: ys merkle_node_Sum256d)
  then have "?m = ?m'" by (rule inj_onD [OF 1(5)]) (simp_all add: ys)
  then have "l = l' \<and> r = r'" by simp
  moreover have "hs = hs'"
  proof (rule "1.IH")
    show "inj_on Sum256d (set (pair_bytes hs) \<union> set (pair_bytes hs'))"
      using 1(5) by (rule inj_on_subset) (auto simp: ys)
  qed (use 1(2-4) ys in simp_all)
  ultimately show ?case using ys by simp
qed auto

lemma merkle_even_inj: "length xs = length ys \<Longrightarrow> merkle_even xs = merkle_even ys \<Longrightarrow> xs = ys"
  by (simp add: merkle_even_def split: if_splits)

lemma even_length_merkle_even: "even (length (merkle_even hs))"
  by (auto simp: merkle_even_def odd_iff_mod_2_eq_one)

lemma length_merkle_even: "length xs = length ys \<Longrightarrow> length (merkle_even xs) = length (merkle_even ys)"
  by (simp add: merkle_even_def)

lemma merkle_loop_step: "length hs > 1 \<Longrightarrow> merkle_loop hs = merkle_loop (merkle_pairs (merkle_even hs))"
  by (subst merkle_loop.simps) simp

lemma set_merkle_inputs:
  "length hs > 1 \<Longrightarrow> set (merkle_inputs hs) =
     set (pair_bytes (merkle_even hs)) \<union> set (merkle_inputs (merkle_pairs (merkle_even hs)))"
  by (subst merkle_inputs.simps) simp

lemma merkle_loop_inj:
  "length xs = length ys \<Longrightarrow> 0 < length xs \<Longrightarrow> merkle_loop xs = merkle_loop ys \<Longrightarrow>
     inj_on Sum256d (set (merkle_inputs xs) \<union> set (merkle_inputs ys)) \<Longrightarrow> xs = ys"
proof (induction xs arbitrary: ys rule: merkle_loop.induct)
  case (1 xs)
  let ?px = "merkle_pairs (merkle_even xs)" and ?py = "merkle_pairs (merkle_even ys)"
  show ?case
  proof (cases "length xs > 1")
    case True
    then have True': "length ys > 1" using 1(2) by simp
    note inputs = set_merkle_inputs [OF True] set_merkle_inputs [OF True']
    have "?px = ?py"
    proof (rule "1.IH" [OF True])
      show "length ?px = length ?py" using 1(2) by (simp only: length_merkle_level)
      show "0 < length ?px" using True by (simp add: length_merkle_level)
      show "merkle_loop ?px = merkle_loop ?py"
        using 1(4) unfolding merkle_loop_step [OF True] merkle_loop_step [OF True'] .
      show "inj_on Sum256d (set (merkle_inputs ?px) \<union> set (merkle_inputs ?py))"
        using 1(5) by (rule inj_on_subset) (auto simp: inputs)
    qed
    then have "merkle_even xs = merkle_even ys"
    proof (rule merkle_pairs_inj [OF length_merkle_even [OF 1(2)] even_length_merkle_even])
      show "inj_on Sum256d (set (pair_bytes (merkle_even xs)) \<union> set (pair_bytes (merkle_even ys)))"
        using 1(5) by (rule inj_on_subset) (auto simp: inputs)
    qed
    then show ?thesis by (rule merkle_even_inj [OF 1(2)])
  next
    case False
    then obtain x where x: "xs = [x]" using 1(3) by (cases xs) auto
    then obtain y where y: "ys = [y]" using 1(2) by (cases ys) auto
    from 1(4) show ?thesis by (simp add: x y merkle_loop.simps [of "[x]"] merkle_loop.simps [of "[y]"])
  qed
qed

lemma merkle_loop_duplicate_last:
  assumes "odd (length hs)" and "1 < length hs"
  shows "merkle_loop (hs @ [last hs]) = merkle_loop hs"
proof -
  have "merkle_even (hs @ [last hs]) = merkle_even hs"
    using assms by (simp add: merkle_even_def odd_iff_mod_2_eq_one)
  moreover have "length (hs @ [last hs]) > 1" using assms(2) by auto
  ultimately show ?thesis using assms(2) by (simp only: merkle_loop_step)
qed

section \<open>Properties\<close>

text \<open>
  C21: the block reader accepts exactly the encodings of the blocks within its limits (at most
  100,000 transactions, each within the transaction limits) and returns the encoded block and the
  unread bytes.
\<close>

theorem ReadBlock_iff:
  "ReadBlock bs = Inr (b, rest) \<longleftrightarrow> wf_Block b \<and> bs = SerializeBlock b @ rest"
  by (simp add: SerializeBlock_def block_codec.dec_iff)

text \<open>The messages hashed for the root of a list of transactions.\<close>

definition merkle_messages :: "Transaction list \<Rightarrow> byte list set" where
  "merkle_messages txs =
     set (map SerializeTransaction txs) \<union> set (merkle_inputs (map tx_Hash txs))"


lemma merkle_messages_single: "merkle_messages [t] = {SerializeTransaction t}"
  by (simp add: merkle_messages_def merkle_inputs.simps [of "[tx_Hash t]"])

lemma wf_NewCoinbase: "length message \<le> 1000000 \<Longrightarrow> length script \<le> 1000000 \<Longrightarrow>
    wf_Transaction (NewCoinbase message amount script)"
  by (simp add: NewCoinbase_def wf_Transaction_def wf_Input_def wf_Output_def string_bytes_def)


text \<open>
  the root does not commit to the number of transactions. Repeating the last transaction of an
  odd list of at least three leaves the root unchanged, so a block and its extension by a repeated
  transaction have the same header and the same block hash.
\<close>

theorem BuildMerkleRoot_duplicate:
  assumes "odd (length txs)" and "1 < length txs"
  shows "BuildMerkleRoot (txs @ [last txs]) = BuildMerkleRoot txs"
proof -
  have "txs \<noteq> []" using assms(2) by auto
  then have "map tx_Hash (txs @ [last txs]) = map tx_Hash txs @ [last (map tx_Hash txs)]"
    by (simp add: last_map)
  with assms show ?thesis
    using merkle_loop_duplicate_last [of "map tx_Hash txs"] \<open>txs \<noteq> []\<close>
    by (simp add: BuildMerkleRoot_def)
qed

theorem BuildMerkleRoot_duplicate_witness:
  "let c = NewCoinbase ''a'' 1 []; t = NewCoinbase ''b'' 2 []; u = NewCoinbase ''c'' 3 []
   in BuildMerkleRoot [c, t, u, u] = BuildMerkleRoot [c, t, u]"
  using BuildMerkleRoot_duplicate
    [of "[NewCoinbase ''a'' 1 [], NewCoinbase ''b'' 2 [], NewCoinbase ''c'' 3 []]"]
  by (simp add: Let_def)

end
