(* ===== verification/Consensus.thy ===== *)
theory Consensus
  imports Block
begin

text \<open>
  Package \<open>consensus\<close> (\<open>consensus/consensus.go\<close>): the block reward, the retarget rule, proof of work,
  and the validation of headers, transactions and the transactions of a block. The interfaces the
  package takes are function arguments: a \<open>UTXOReader\<close> looks an outpoint up, a \<open>SignatureVerifier\<close>
  (possibly \<open>nil\<close>) judges one input, \<open>HeaderByHeight\<close> reads the main chain. \<open>pendingSpent\<close> is a map
  the validator fills while it runs, also when it then fails: it is passed in and returned. The
  lemmas characterise acceptance exactly, over the naturals, and derive that no accepted block
  creates value beyond its subsidy.
\<close>

record UTXO =
  utxo_TxHash :: hash
  utxo_OutputIdx :: u32
  utxo_Amount :: u64
  utxo_Script :: "byte list"
  utxo_Height :: u64
  utxo_Coinbase :: bool

type_synonym UTXOReader = "hash \<Rightarrow> u32 \<Rightarrow> error + UTXO"
type_synonym SignatureVerifier = "Transaction \<Rightarrow> nat \<Rightarrow> byte list \<Rightarrow> bool"
type_synonym HeaderByHeight = "u64 \<Rightarrow> error + BlockHeader"

section \<open>Reward, retarget, work\<close>

definition BlockReward :: "u64 \<Rightarrow> u64" where
  "BlockReward height =
     (let halvings = height div HalvingInterval
      in if halvings \<ge> 64 then 0 else drop_bit (unat halvings) InitialReward)"

text \<open>Go's \<open>/\<close> on \<open>int64\<close> truncates towards zero.\<close>

definition i64_quot :: "i64 \<Rightarrow> i64 \<Rightarrow> i64" where
  "i64_quot a b = of_int (sgn (sint a) * sgn (sint b) * (\<bar>sint a\<bar> div \<bar>sint b\<bar>))"

text \<open>
  \<open>big.Int.Div\<close> is Euclidean division, which is \<open>div\<close> for the positive divisor the program uses; it
  panics on zero, and the only caller passes the constant \<open>ExpectedRetargetSec\<close>.
\<close>

definition Retarget :: "int \<Rightarrow> i64 \<Rightarrow> i64 \<Rightarrow> int" where
  "Retarget oldTarget actualTime expectedTime =
     (let min = i64_quot expectedTime 4;
          max = expectedTime * 4;
          actualTime = (if sint actualTime < sint min then min else actualTime);
          actualTime = (if sint actualTime > sint max then max else actualTime)
      in (oldTarget * sint actualTime) div sint expectedTime)"

definition WorkForBits :: "u32 \<Rightarrow> int" where
  "WorkForBits bits =
     (let target = CompactToBig bits
      in if target \<le> 0 then 0 else push_bit 256 1 div (target + 1))"

definition CheckProofOfWork :: "BlockHeader \<Rightarrow> int \<Rightarrow> error option" where
  "CheckProofOfWork h powLimit =
     (let target = CompactToBig (hdr_Bits h)
      in if target \<le> 0 \<or> target > powLimit then Some ErrInvalidProofOfWork
         else if int (unat (hdr_Hash h)) > target then Some ErrInvalidProofOfWork
         else None)"

definition ExpectedBits :: "BlockHeader \<Rightarrow> Network \<Rightarrow> HeaderByHeight \<Rightarrow> error + u32" where
  "ExpectedBits prev net headerByHeight =
     (let nextHeight = hdr_Height prev + 1
      in if nextHeight mod DifficultyWindow \<noteq> 0 \<or> nextHeight = 0 then Inr (hdr_Bits prev)
         else
           let firstHeight = nextHeight - DifficultyWindow
           in case headerByHeight firstHeight of
                Inl e \<Rightarrow> Inl e
              | Inr first \<Rightarrow>
                  let actual = hdr_Timestamp prev - hdr_Timestamp first;
                      old = CompactToBig (hdr_Bits prev);
                      retargeted = Retarget old actual ExpectedRetargetSec;
                      retargeted = (if retargeted > net_PowLimit net then net_PowLimit net
                                    else retargeted)
                  in Inr (BigToCompact retargeted))"

section \<open>Headers\<close>

text \<open>\<open>now\<close> is \<open>time.Now().Unix()\<close>; a missing previous header is Go's \<open>nil\<close>.\<close>

definition ValidateBlockHeader :: "int \<Rightarrow> Block \<Rightarrow> BlockHeader option \<Rightarrow> Network \<Rightarrow> error option" where
  "ValidateBlockHeader now b prev net =
     (if hdr_MerkleRoot (blk_Header b) \<noteq> BuildMerkleRoot (blk_Transactions b) then
        Some ErrInvalidMerkleRoot
      else case CheckProofOfWork (blk_Header b) (net_PowLimit net) of
        Some e \<Rightarrow> Some e
      | None \<Rightarrow>
          if sint (hdr_Timestamp (blk_Header b)) > now + 2 * 3600 then Some ErrBadTimestamp
          else case prev of
            None \<Rightarrow> None
          | Some p \<Rightarrow>
              if hdr_Height (blk_Header b) \<noteq> hdr_Height p + 1 then Some (ErrText ''bad height'')
              else if hdr_PrevHash (blk_Header b) \<noteq> hdr_Hash p then
                Some (ErrText ''bad previous hash'')
              else None)"

definition ValidateBlockHeaderWithDifficulty ::
  "int \<Rightarrow> Block \<Rightarrow> BlockHeader option \<Rightarrow> Network \<Rightarrow> HeaderByHeight \<Rightarrow> error option" where
  "ValidateBlockHeaderWithDifficulty now b prev net headerByHeight =
     (case ValidateBlockHeader now b prev net of
        Some e \<Rightarrow> Some e
      | None \<Rightarrow>
          case prev of
            None \<Rightarrow> None
          | Some p \<Rightarrow>
              case ExpectedBits p net headerByHeight of
                Inl e \<Rightarrow> Some e
              | Inr expected \<Rightarrow>
                  if hdr_Bits (blk_Header b) \<noteq> expected then Some ErrBadDifficulty else None)"

section \<open>Transactions\<close>

definition OutpointKey :: "hash \<Rightarrow> u32 \<Rightarrow> string" where
  "OutpointKey h idx = hex_hash h @ '':'' @ dec_string (unat idx)"

definition MinFee :: "Transaction \<Rightarrow> u64" where
  "MinFee t = of_nat (length (SerializeTransaction t)) * MinRelayFeePerByte"

text \<open>The loop over \<open>t.Inputs\<close>, from index \<open>i\<close>: the input total, and the filled \<open>pendingSpent\<close>.\<close>

fun validate_inputs ::
  "Transaction \<Rightarrow> UTXOReader \<Rightarrow> SignatureVerifier option \<Rightarrow> u64 \<Rightarrow>
     nat \<Rightarrow> Input list \<Rightarrow> u64 \<Rightarrow> string set \<Rightarrow> (error + u64) \<times> string set" where
  "validate_inputs t utxos verifier spendHeight i [] inputTotal pendingSpent =
     (Inr inputTotal, pendingSpent)"
| "validate_inputs t utxos verifier spendHeight i (inp # ins) inputTotal pendingSpent =
     (let key = OutpointKey (in_PrevTxHash inp) (in_OutputIdx inp)
      in if key \<in> pendingSpent then (Inl ErrDoubleSpend, pendingSpent)
         else case utxos (in_PrevTxHash inp) (in_OutputIdx inp) of
           Inl e \<Rightarrow> (Inl ErrMissingUTXO, pendingSpent)
         | Inr u \<Rightarrow>
             if utxo_Coinbase u \<and> spendHeight \<noteq> NOT 0
                \<and> spendHeight < utxo_Height u + CoinbaseMaturity then
               (Inl ErrImmatureCoinbase, pendingSpent)
             else if (case verifier of None \<Rightarrow> False | Some v \<Rightarrow> \<not> v t i (utxo_Script u)) then
               (Inl ErrInvalidSignature, pendingSpent)
             else if add_overflows inputTotal (utxo_Amount u) then (Inl ErrInflation, pendingSpent)
             else validate_inputs t utxos verifier spendHeight (Suc i) ins
                    (inputTotal + utxo_Amount u) (insert key pendingSpent))"

fun validate_outputs :: "Output list \<Rightarrow> u64 \<Rightarrow> error + u64" where
  "validate_outputs [] outputTotal = Inr outputTotal"
| "validate_outputs (out # outs) outputTotal =
     (if out_Amount out = 0 then Inl ErrDustOutput
      else if add_overflows outputTotal (out_Amount out) then Inl ErrInflation
      else validate_outputs outs (outputTotal + out_Amount out))"

definition ValidateTransactionAt ::
  "Transaction \<Rightarrow> UTXOReader \<Rightarrow> SignatureVerifier option \<Rightarrow> string set \<Rightarrow> u64 \<Rightarrow>
     (error + u64) \<times> string set" where
  "ValidateTransactionAt t utxos verifier pendingSpent spendHeight =
     (if IsCoinbase t then (Inl ErrInvalidCoinbase, pendingSpent)
      else case validate_inputs t utxos verifier spendHeight 0 (tx_Inputs t) 0 pendingSpent of
        (Inl e, spent) \<Rightarrow> (Inl e, spent)
      | (Inr inputTotal, spent) \<Rightarrow>
          (case validate_outputs (tx_Outputs t) 0 of
             Inl e \<Rightarrow> Inl e
           | Inr outputTotal \<Rightarrow>
               if outputTotal > inputTotal then Inl ErrInflation
               else
                 let fee = inputTotal - outputTotal
                 in if fee < MinFee t then Inl ErrFeeTooLow else Inr fee, spent))"

definition ValidateTransaction ::
  "Transaction \<Rightarrow> UTXOReader \<Rightarrow> SignatureVerifier option \<Rightarrow> string set \<Rightarrow> (error + u64) \<times> string set" where
  "ValidateTransaction t utxos verifier pendingSpent =
     ValidateTransactionAt t utxos verifier pendingSpent (NOT 0)"

text \<open>The loop over the transactions after the coinbase: their fees.\<close>

fun validate_txs ::
  "UTXOReader \<Rightarrow> SignatureVerifier option \<Rightarrow> u64 \<Rightarrow> Transaction list \<Rightarrow> u64 \<Rightarrow> string set \<Rightarrow> error + u64" where
  "validate_txs utxos verifier spendHeight [] fees spent = Inr fees"
| "validate_txs utxos verifier spendHeight (t # ts) fees spent =
     (case ValidateTransactionAt t utxos verifier spent spendHeight of
        (Inl e, _) \<Rightarrow> Inl e
      | (Inr fee, spent') \<Rightarrow>
          if add_overflows fees fee then Inl ErrInflation
          else validate_txs utxos verifier spendHeight ts (fees + fee) spent')"

definition ValidateBlockTransactionsAt ::
  "Block \<Rightarrow> UTXOReader \<Rightarrow> SignatureVerifier option \<Rightarrow> u64 \<Rightarrow> error option" where
  "ValidateBlockTransactionsAt b utxos verifier spendHeight =
     (case blk_Transactions b of
        [] \<Rightarrow> Some ErrInvalidCoinbase
      | coinbase # txs \<Rightarrow>
          if \<not> IsCoinbase coinbase then Some ErrInvalidCoinbase
          else
            let reward = BlockReward (hdr_Height (blk_Header b))
            in case validate_txs utxos verifier spendHeight txs 0 {} of
                 Inl e \<Rightarrow> Some e
               | Inr fees \<Rightarrow>
                   case checked_sum 0 (map out_Amount (tx_Outputs coinbase)) of
                     None \<Rightarrow> Some ErrInflation
                   | Some coinbaseOut \<Rightarrow>
                       if coinbaseOut > reward + fees then Some ErrInvalidCoinbase else None)"

definition ValidateBlockTransactions ::
  "Block \<Rightarrow> UTXOReader \<Rightarrow> SignatureVerifier option \<Rightarrow> error option" where
  "ValidateBlockTransactions b utxos verifier =
     ValidateBlockTransactionsAt b utxos verifier (hdr_Height (blk_Header b))"

section \<open>Scripts\<close>

definition ScriptForPubKeyHash :: "byte list \<Rightarrow> byte list" where
  "ScriptForPubKeyHash h = string_bytes ''p2pkh:'' @ h"

definition ExtractPubKeyHash :: "byte list \<Rightarrow> byte list option" where
  "ExtractPubKeyHash script =
     (let prefix = string_bytes ''p2pkh:''
      in if take (length prefix) script = prefix then Some (drop (length prefix) script) else None)"

section \<open>What an accepted transaction guarantees\<close>

text \<open>
  One input is acceptable at index \<open>i\<close>: it names an existing output, which is mature, and the
  verifier, when there is one, accepts it. \<open>input_value\<close> is what the input brings.
\<close>

fun input_ok :: "Transaction \<Rightarrow> UTXOReader \<Rightarrow> SignatureVerifier option \<Rightarrow> u64 \<Rightarrow> nat \<Rightarrow> Input \<Rightarrow> bool" where
  "input_ok t utxos verifier h i inp =
     (case utxos (in_PrevTxHash inp) (in_OutputIdx inp) of
        Inl e \<Rightarrow> False
      | Inr u \<Rightarrow>
          (utxo_Coinbase u \<longrightarrow> h = NOT 0 \<or> utxo_Height u + CoinbaseMaturity \<le> h)
          \<and> (case verifier of None \<Rightarrow> True | Some v \<Rightarrow> v t i (utxo_Script u)))"

definition input_value :: "UTXOReader \<Rightarrow> Input \<Rightarrow> nat" where
  "input_value utxos inp =
     (case utxos (in_PrevTxHash inp) (in_OutputIdx inp) of Inl e \<Rightarrow> 0 | Inr u \<Rightarrow> unat (utxo_Amount u))"

definition input_total :: "UTXOReader \<Rightarrow> Transaction \<Rightarrow> nat" where
  "input_total utxos t = sum_list (map (input_value utxos) (tx_Inputs t))"

definition input_key :: "Input \<Rightarrow> string" where
  "input_key inp = OutpointKey (in_PrevTxHash inp) (in_OutputIdx inp)"

definition input_keys :: "Transaction \<Rightarrow> string list" where
  "input_keys t = map input_key (tx_Inputs t)"

declare input_ok.simps [simp del]

lemma input_ok_Inr:
  assumes "input_ok t utxos verifier h i inp"
  obtains u where "utxos (in_PrevTxHash inp) (in_OutputIdx inp) = Inr u"
    and "input_value utxos inp = unat (utxo_Amount u)"
  using assms by (auto simp: input_ok.simps input_value_def split: sum.splits)

text \<open>One iteration of the input loop, in terms of the specification.\<close>

lemma validate_inputs_step:
  "(\<exists>s. fst (validate_inputs t utxos verifier h i (inp # ins) acc spent) = Inr s) \<Longrightarrow>
     input_key inp \<notin> spent \<and> input_ok t utxos verifier h i inp
     \<and> unat acc + input_value utxos inp < 2 ^ 64"
  by (auto simp: input_ok.simps input_value_def input_key_def Let_def not_less add_overflows_iff
      split: sum.splits if_splits option.splits)

lemma validate_inputs_ok:
  assumes "input_key inp \<notin> spent" "input_ok t utxos verifier h i inp"
    and "unat acc + input_value utxos inp < 2 ^ 64"
  shows "validate_inputs t utxos verifier h i (inp # ins) acc spent =
           validate_inputs t utxos verifier h (Suc i) ins
             (of_nat (unat acc + input_value utxos inp)) (insert (input_key inp) spent)"
proof -
  obtain u where u: "utxos (in_PrevTxHash inp) (in_OutputIdx inp) = Inr u"
    and v: "input_value utxos inp = unat (utxo_Amount u)"
    using assms(2) by (rule input_ok_Inr)
  have "\<not> add_overflows acc (utxo_Amount u)"
    using assms(3) by (simp add: add_overflows_iff v)
  moreover have "of_nat (unat acc + input_value utxos inp) = acc + utxo_Amount u"
    by (simp add: v)
  ultimately show ?thesis
    using assms(1,2) u
    by (auto simp: input_ok.simps input_key_def Let_def not_less split: option.splits)
qed

lemma validate_inputs_iff:
  "validate_inputs t utxos verifier h i ins acc spent = (Inr s, spent') \<longleftrightarrow>
     distinct (map input_key ins) \<and> set (map input_key ins) \<inter> spent = {}
     \<and> (\<forall>k < length ins. input_ok t utxos verifier h (i + k) (ins ! k))
     \<and> unat acc + sum_list (map (input_value utxos) ins) < 2 ^ 64
     \<and> unat s = unat acc + sum_list (map (input_value utxos) ins)
     \<and> spent' = spent \<union> set (map input_key ins)"
proof (induction ins arbitrary: i acc spent)
  case Nil
  show ?case using unat_u64_less [of acc] by (auto simp: word_unat_eq_iff)
next
  case (Cons inp ins)
  let ?ok = "input_key inp \<notin> spent \<and> input_ok t utxos verifier h i inp
               \<and> unat acc + input_value utxos inp < 2 ^ 64"
  have all: "(\<forall>k < length (inp # ins). input_ok t utxos verifier h (i + k) ((inp # ins) ! k)) \<longleftrightarrow>
        input_ok t utxos verifier h i inp
        \<and> (\<forall>k < length ins. input_ok t utxos verifier h (Suc i + k) (ins ! k))"
    by (auto simp: less_Suc_eq_0_disj)
  show ?case
  proof (cases ?ok)
    case True
    then have acc: "unat (of_nat (unat acc + input_value utxos inp) :: u64)
        = unat acc + input_value utxos inp"
      by (intro unat_of_nat_small) simp
    show ?thesis
      unfolding validate_inputs_ok [OF conjunct1 [OF True] conjunct1 [OF conjunct2 [OF True]]
          conjunct2 [OF conjunct2 [OF True]]] Cons.IH all acc
      using True by auto
  next
    case False
    then have "\<nexists>s. fst (validate_inputs t utxos verifier h i (inp # ins) acc spent) = Inr s"
      using validate_inputs_step by blast
    then have "validate_inputs t utxos verifier h i (inp # ins) acc spent \<noteq> (Inr s, spent')"
      by (metis fst_conv)
    then show ?thesis unfolding all using False by auto
  qed
qed

lemma validate_outputs_iff:
  "validate_outputs outs acc = Inr s \<longleftrightarrow>
     (\<forall>out \<in> set outs. out_Amount out \<noteq> 0)
     \<and> unat s = unat acc + sum_list (map (\<lambda>out. unat (out_Amount out)) outs)"
proof (induction outs arbitrary: acc)
  case Nil
  show ?case by (auto simp: word_unat_eq_iff)
next
  case (Cons out outs)
  show ?case
  proof (cases "add_overflows acc (out_Amount out)")
    case True
    then have "unat s < unat acc + unat (out_Amount out)"
      using unat_u64_less [of s] by (simp add: add_overflows_iff)
    then show ?thesis using True by auto
  next
    case False
    then show ?thesis using Cons.IH by (auto simp: unat_add_no_overflow)
  qed
qed

text \<open>The arithmetic after the two loops: the fee, on numbers that cannot wrap.\<close>

lemma fee_iff:
  fixes inT outT fee m :: u64
  shows "(if outT > inT then Inl ErrInflation
          else let fee = inT - outT in if fee < m then Inl ErrFeeTooLow else Inr fee) = Inr fee
     \<longleftrightarrow> unat inT = unat outT + unat fee \<and> m \<le> fee"
proof (cases "outT \<le> inT")
  case True
  then have "unat (inT - outT) = unat inT - unat outT" "unat outT \<le> unat inT"
    by (simp_all add: unat_sub word_le_nat_alt)
  then have "inT - outT = fee \<longleftrightarrow> unat inT = unat outT + unat fee"
    by (auto simp: word_unat_eq_iff)
  then show ?thesis using True by (auto simp: Let_def not_less)
next
  case False
  then have "outT > inT" "unat inT < unat outT" by (simp_all add: word_less_nat_alt [symmetric])
  then show ?thesis by simp
qed

lemma ValidateTransactionAt_Inr:
  "ValidateTransactionAt t utxos verifier pendingSpent h = (Inr fee, spent') \<longleftrightarrow>
     \<not> IsCoinbase t
     \<and> distinct (input_keys t) \<and> set (input_keys t) \<inter> pendingSpent = {}
     \<and> (\<forall>i < length (tx_Inputs t). input_ok t utxos verifier h i (tx_Inputs t ! i))
     \<and> (\<forall>out \<in> set (tx_Outputs t). out_Amount out \<noteq> 0)
     \<and> input_total utxos t < 2 ^ 64
     \<and> input_total utxos t = output_total t + unat fee
     \<and> MinFee t \<le> fee
     \<and> spent' = pendingSpent \<union> set (input_keys t)"
  (is "?lhs \<longleftrightarrow> ?rhs")
proof
  assume ?lhs
  then obtain inT outT where c: "\<not> IsCoinbase t"
    and i: "validate_inputs t utxos verifier h 0 (tx_Inputs t) 0 pendingSpent = (Inr inT, spent')"
    and o: "validate_outputs (tx_Outputs t) 0 = Inr outT"
    and f: "unat inT = unat outT + unat fee" "MinFee t \<le> fee"
    by (auto simp: ValidateTransactionAt_def fee_iff split: if_split_asm prod.splits sum.splits)
  show ?rhs
    using i [unfolded validate_inputs_iff] o [unfolded validate_outputs_iff] c f
    by (simp add: input_keys_def input_total_def output_total_def)
next
  assume r: ?rhs
  define inT outT :: u64
    where "inT = of_nat (input_total utxos t)" and "outT = of_nat (output_total t)"
  have "input_total utxos t < 2 ^ LENGTH(64)" "output_total t < 2 ^ LENGTH(64)"
    using r by simp_all
  then have u: "unat inT = input_total utxos t" "unat outT = output_total t"
    unfolding inT_def outT_def by (simp_all only: unat_of_nat_small)
  have "validate_inputs t utxos verifier h 0 (tx_Inputs t) 0 pendingSpent = (Inr inT, spent')"
    unfolding validate_inputs_iff using r u by (simp add: input_keys_def input_total_def)
  moreover have "validate_outputs (tx_Outputs t) 0 = Inr outT"
    unfolding validate_outputs_iff using r u by (simp add: output_total_def)
  ultimately show ?lhs
    using r u by (simp add: ValidateTransactionAt_def fee_iff)
qed

lemma ValidateTransactionAt_cases:
  obtains (err) e spent' where "ValidateTransactionAt t utxos verifier spent h = (Inl e, spent')"
  | (ok) fee where "ValidateTransactionAt t utxos verifier spent h
                      = (Inr fee, spent \<union> set (input_keys t))"
proof (cases "ValidateTransactionAt t utxos verifier spent h")
  case (Pair r spent')
  show thesis
  proof (cases r)
    case (Inl e)
    then show ?thesis using err Pair by simp
  next
    case (Inr fee)
    then show ?thesis using ok Pair ValidateTransactionAt_Inr [THEN iffD1, OF Pair [unfolded Inr]]
      by simp
  qed
qed

text \<open>A transaction without inputs cannot pay its fee.\<close>

lemma ValidateTransactionAt_has_input:
  assumes "ValidateTransactionAt t utxos verifier spent h = (Inr fee, spent')"
  shows "tx_Inputs t \<noteq> []"
proof
  assume none: "tx_Inputs t = []"
  have v: "\<forall>out \<in> set (tx_Outputs t). out_Amount out \<noteq> 0" "MinFee t \<le> fee"
    "input_total utxos t = output_total t + unat fee"
    using assms [unfolded ValidateTransactionAt_Inr] by simp_all
  then have z: "output_total t = 0" "fee = 0" using none by (simp_all add: input_total_def word_unat_eq_iff)
  then have "tx_Outputs t = []"
    using v(1) by (cases "tx_Outputs t") (auto simp: output_total_def word_unat_eq_iff)
  then have "MinFee t = 28"
    using none by (simp add: MinFee_def MinRelayFeePerByte_def SerializeTransaction_def
        WriteTransaction_def writeVarBytesList_def)
  then show False using v(2) z by simp
qed

section \<open>What an accepted block guarantees\<close>

definition block_inputs :: "Transaction list \<Rightarrow> Input list" where
  "block_inputs ts = concat (map tx_Inputs ts)"

definition fee_of :: "UTXOReader \<Rightarrow> Transaction \<Rightarrow> nat" where
  "fee_of utxos t = input_total utxos t - output_total t"

lemma block_inputs_simps [simp]:
  "block_inputs [] = []"
  "block_inputs (t # ts) = tx_Inputs t @ block_inputs ts"
  by (simp_all add: block_inputs_def)

text \<open>A transaction acceptable on its own, with the fee it reports.\<close>

definition tx_ok :: "UTXOReader \<Rightarrow> SignatureVerifier option \<Rightarrow> u64 \<Rightarrow> Transaction \<Rightarrow> bool" where
  "tx_ok utxos verifier h t \<longleftrightarrow>
     (case fst (ValidateTransactionAt t utxos verifier {} h) of Inl e \<Rightarrow> False | Inr fee \<Rightarrow> True)"

lemma ValidateTransactionAt_spent:
  "ValidateTransactionAt t utxos verifier spent h = (Inr fee, spent') \<longleftrightarrow>
     tx_ok utxos verifier h t \<and> set (input_keys t) \<inter> spent = {}
     \<and> unat fee = fee_of utxos t \<and> spent' = spent \<union> set (input_keys t)"
proof -
  have "tx_ok utxos verifier h t \<longleftrightarrow>
      (\<exists>fee. ValidateTransactionAt t utxos verifier {} h = (Inr fee, set (input_keys t)))"
    unfolding tx_ok_def
    by (rule ValidateTransactionAt_cases [of t utxos verifier "{}" h]) auto
  then show ?thesis
    unfolding ValidateTransactionAt_Inr by (auto simp: fee_of_def word_unat_eq_iff word_le_nat_alt)
qed

lemma tx_ok_fee:
  assumes "tx_ok utxos verifier h t"
  shows "input_total utxos t = output_total t + fee_of utxos t" and "input_total utxos t < 2 ^ 64"
    and "fee_of utxos t < 2 ^ 64"
proof -
  obtain fee where f: "ValidateTransactionAt t utxos verifier {} h = (Inr fee, set (input_keys t))"
    using assms unfolding tx_ok_def
    by (cases rule: ValidateTransactionAt_cases [of t utxos verifier "{}" h]) auto
  show "input_total utxos t = output_total t + fee_of utxos t" "input_total utxos t < 2 ^ 64"
    using f [unfolded ValidateTransactionAt_Inr] by (simp_all add: fee_of_def)
  then show "fee_of utxos t < 2 ^ 64" by linarith
qed

lemma tx_ok_not_coinbase: "tx_ok utxos verifier h t \<Longrightarrow> \<not> IsCoinbase t"
  by (auto simp: tx_ok_def ValidateTransactionAt_def)

lemma validate_txs_iff:
  "validate_txs utxos verifier h ts acc spent = Inr s \<longleftrightarrow>
     distinct (map input_key (block_inputs ts)) \<and> input_key ` set (block_inputs ts) \<inter> spent = {}
     \<and> (\<forall>t \<in> set ts. tx_ok utxos verifier h t)
     \<and> unat s = unat acc + sum_list (map (fee_of utxos) ts)"
proof (induction ts arbitrary: acc spent)
  case Nil
  show ?case by (auto simp: word_unat_eq_iff)
next
  case (Cons t ts)
  show ?case
  proof (cases rule: ValidateTransactionAt_cases [of t utxos verifier spent h])
    case (err e spent')
    then have "\<not> (\<exists>fee. tx_ok utxos verifier h t \<and> set (input_keys t) \<inter> spent = {}
        \<and> unat (fee :: u64) = fee_of utxos t)"
      using ValidateTransactionAt_spent [of t utxos verifier spent h] by auto
    moreover have "unat (of_nat (fee_of utxos t) :: u64) = fee_of utxos t"
      if "tx_ok utxos verifier h t"
      using tx_ok_fee(3) [OF that] by (intro unat_of_nat_small) simp
    ultimately have "\<not> (tx_ok utxos verifier h t \<and> set (input_keys t) \<inter> spent = {})" by blast
    then show ?thesis using err by (auto simp: input_keys_def)
  next
    case (ok fee)
    have t: "tx_ok utxos verifier h t" "set (input_keys t) \<inter> spent = {}"
      and k: "distinct (map input_key (tx_Inputs t))" and f: "unat fee = fee_of utxos t"
      using ok [unfolded ValidateTransactionAt_spent] ok [unfolded ValidateTransactionAt_Inr]
      by (simp_all add: input_keys_def)
    show ?thesis
    proof (cases "add_overflows acc fee")
      case True
      then have "unat s < unat acc + fee_of utxos t"
        using unat_u64_less [of s] by (simp add: add_overflows_iff f)
      then show ?thesis using ok True by auto
    next
      case False
      then show ?thesis
        using ok t k f by (auto simp: Cons.IH unat_add_no_overflow input_keys_def)
    qed
  qed
qed

lemma ValidateBlockTransactionsAt_None:
  assumes "ValidateBlockTransactionsAt b utxos verifier h = None"
  obtains coinbase txs where "blk_Transactions b = coinbase # txs" "IsCoinbase coinbase"
    and "\<forall>t \<in> set txs. tx_ok utxos verifier h t"
    and "distinct (map input_key (block_inputs txs))"
    and "output_total coinbase \<le> unat (BlockReward (hdr_Height (blk_Header b)))
            + sum_list (map (fee_of utxos) txs)"
proof -
  obtain coinbase txs fees c where b: "blk_Transactions b = coinbase # txs" "IsCoinbase coinbase"
    and v: "validate_txs utxos verifier h txs 0 {} = Inr fees"
    and c: "checked_sum 0 (map out_Amount (tx_Outputs coinbase)) = Some c"
    and le: "c \<le> BlockReward (hdr_Height (blk_Header b)) + fees"
    using assms
    by (auto simp: ValidateBlockTransactionsAt_def Let_def not_less
        split: list.splits if_splits sum.splits option.splits)
  have "unat c = output_total coinbase"
    using checked_sum_unat [OF c] by (simp add: output_total_def o_def)
  moreover have "unat c \<le> unat (BlockReward (hdr_Height (blk_Header b))) + unat fees"
    using le unat_add_le [of "BlockReward (hdr_Height (blk_Header b))" fees]
    by (simp add: word_le_nat_alt)
  ultimately show thesis
    using that [OF b] v [unfolded validate_txs_iff] by simp
qed

section \<open>Lemmas: reward, retarget, work, keys\<close>

lemma BlockReward_schedule: "BlockReward h = schedule_reward h"
  by (simp add: BlockReward_def schedule_reward_def Let_def)

lemma unat_BlockReward: "unat (BlockReward h) = subsidy (unat h)"
  by (simp add: BlockReward_schedule unat_schedule_reward)

lemma sum_BlockReward:
  assumes "n \<le> 2 ^ 64"
  shows "(\<Sum>i<n. unat (BlockReward (of_nat i))) = (\<Sum>i<n. subsidy i)"
proof (rule sum.cong)
  fix i assume "i \<in> {..<n}"
  then have "unat (of_nat i :: u64) = i" using assms by (intro unat_of_nat_small) simp
  then show "unat (BlockReward (of_nat i)) = subsidy i" by (simp add: unat_BlockReward)
qed simp

lemma ExpectedRetargetSec_value: "ExpectedRetargetSec = 43200"
  by (simp add: ExpectedRetargetSec_def TargetBlockSec_def DifficultyAdjustmentInterval_def)

text \<open>The retarget in closed form: the elapsed time clamped to a factor of four either way.\<close>

lemma Retarget_clamp:
  "Retarget old a ExpectedRetargetSec = old * max 10800 (min 172800 (sint a)) div 43200"
proof -
  have q: "i64_quot 43200 4 = 10800" by (simp add: i64_quot_def)
  show ?thesis by (simp add: Retarget_def ExpectedRetargetSec_value q Let_def max_def min_def)
qed

lemma Retarget_bounds:
  assumes "0 \<le> old"
  shows "old div 4 \<le> Retarget old a ExpectedRetargetSec"
    and "Retarget old a ExpectedRetargetSec \<le> 4 * old"
proof -
  define c where "c = max 10800 (min 172800 (sint a))"
  have c: "10800 \<le> c" "c \<le> 172800" by (simp_all add: c_def)
  have "old div 4 = old * 10800 div 43200"
    using div_mult_mult2 [of 10800 old 4] by simp
  also have "\<dots> \<le> old * c div 43200"
    using assms c by (intro zdiv_mono1 mult_left_mono) simp_all
  finally show "old div 4 \<le> Retarget old a ExpectedRetargetSec"
    by (simp add: Retarget_clamp c_def)
  have "old * c div 43200 \<le> old * 172800 div 43200"
    using assms c by (intro zdiv_mono1 mult_left_mono) simp_all
  also have "\<dots> = 4 * old" by simp
  finally show "Retarget old a ExpectedRetargetSec \<le> 4 * old"
    by (simp add: Retarget_clamp c_def)
qed

text \<open>The loss of the compact encoding, on the integers a retarget produces.\<close>

lemma compact_loss:
  assumes "0 \<le> n" and "n < 256 ^ 254"
  shows "CompactToBig (BigToCompact n) \<le> n"
    and "n * (2 ^ 15 - 1) \<le> CompactToBig (BigToCompact n) * 2 ^ 15"
proof -
  have "CompactToBig (BigToCompact n) \<le> n \<and> n * (2 ^ 15 - 1) \<le> CompactToBig (BigToCompact n) * 2 ^ 15"
  proof (cases "n = 0")
    case True
    then show ?thesis by (simp add: BigToCompact_def CompactToBig_def)
  next
    case False
    define m where "m = nat n"
    have n: "n = int m" "0 < m" and lt: "m < 256 ^ 254"
      using assms False by (simp_all add: m_def nat_less_iff)
    have "(256 :: nat) ^ (nbytes m - 1) < 256 ^ 254"
      using nbytes_lower [OF \<open>0 < m\<close>] lt by (rule le_less_trans)
    then have "nbytes m - 1 < 254" by (rule power_less_imp_less_exp [rotated]) simp
    then have "nbytes m < 255" by simp
    then obtain e where e: "CompactToBig (BigToCompact (int m)) = int (m div 2 ^ e * 2 ^ e)"
        "e = 0 \<or> 2 ^ 15 * 2 ^ e \<le> m"
      using compact_truncates [OF \<open>0 < m\<close>] by blast
    define q where "q = m div 2 ^ e * 2 ^ e"
    define r where "r = m mod 2 ^ e"
    have m: "m = q + r" unfolding q_def r_def by (rule div_mult_mod_eq [symmetric])
    have "r < 2 ^ e" by (simp add: r_def)
    then have "2 ^ 15 * r \<le> m" using e(2) by auto
    then have "int m * (2 ^ 15 - 1) \<le> int q * 2 ^ 15" "int q \<le> int m" using m by simp_all
    then show ?thesis unfolding n(1) e(1) q_def [symmetric] by simp
  qed
  then show "CompactToBig (BigToCompact n) \<le> n"
    and "n * (2 ^ 15 - 1) \<le> CompactToBig (BigToCompact n) * 2 ^ 15" by simp_all
qed

lemma OutpointKey_inj [simp]: "OutpointKey h i = OutpointKey h' i' \<longleftrightarrow> h = h' \<and> i = i'"
  by (auto simp: OutpointKey_def word_unat_eq_iff)

lemma input_key_eq [simp]:
  "input_key inp = input_key inp' \<longleftrightarrow>
     in_PrevTxHash inp = in_PrevTxHash inp' \<and> in_OutputIdx inp = in_OutputIdx inp'"
  by (simp add: input_key_def)

lemma WorkForBits_division:
  assumes "0 < CompactToBig bits"
  shows "WorkForBits bits * (CompactToBig bits + 1) \<le> 2 ^ 256"
    and "2 ^ 256 < (WorkForBits bits + 1) * (CompactToBig bits + 1)"
proof -
  define d where "d = CompactToBig bits + 1"
  have d: "0 < d" and w: "WorkForBits bits = 2 ^ 256 div d"
    using assms by (simp_all add: d_def WorkForBits_def push_bit_eq_mult)
  have s: "2 ^ 256 = 2 ^ 256 div d * d + 2 ^ 256 mod d" by (rule div_mult_mod_eq [symmetric])
  have "0 \<le> 2 ^ 256 mod d" "2 ^ 256 mod d < d" using d by simp_all
  then show "WorkForBits bits * (CompactToBig bits + 1) \<le> 2 ^ 256"
    and "2 ^ 256 < (WorkForBits bits + 1) * (CompactToBig bits + 1)"
    unfolding w d_def [symmetric] using s by (simp_all only: distrib_right mult_1)
qed

lemma WorkForBits_pos:
  "0 < CompactToBig bits \<Longrightarrow> CompactToBig bits < 2 ^ 256 \<Longrightarrow> 0 < WorkForBits bits"
  by (simp add: WorkForBits_def push_bit_eq_mult pos_imp_zdiv_pos_iff)

lemma WorkForBits_antimono:
  "0 < CompactToBig bits \<Longrightarrow> CompactToBig bits \<le> CompactToBig bits'
     \<Longrightarrow> WorkForBits bits' \<le> WorkForBits bits"
  by (simp add: WorkForBits_def push_bit_eq_mult zdiv_mono2)

lemma CheckProofOfWork_None:
  "CheckProofOfWork h powLimit = None \<longleftrightarrow>
     0 < CompactToBig (hdr_Bits h) \<and> CompactToBig (hdr_Bits h) \<le> powLimit
     \<and> int (unat (hdr_Hash h)) \<le> CompactToBig (hdr_Bits h)"
  by (auto simp: CheckProofOfWork_def Let_def)

lemma ValidateBlockHeader_None:
  "ValidateBlockHeader now b prev net = None \<longleftrightarrow>
     hdr_MerkleRoot (blk_Header b) = BuildMerkleRoot (blk_Transactions b)
     \<and> CheckProofOfWork (blk_Header b) (net_PowLimit net) = None
     \<and> sint (hdr_Timestamp (blk_Header b)) \<le> now + 7200
     \<and> (case prev of None \<Rightarrow> True
        | Some p \<Rightarrow> hdr_Height (blk_Header b) = hdr_Height p + 1
                    \<and> hdr_PrevHash (blk_Header b) = hdr_Hash p)"
  by (auto simp: ValidateBlockHeader_def split: option.splits if_splits)

lemma ValidateBlockHeaderWithDifficulty_None:
  "ValidateBlockHeaderWithDifficulty now b prev net headerByHeight = None \<longleftrightarrow>
     ValidateBlockHeader now b prev net = None
     \<and> (case prev of None \<Rightarrow> True
        | Some p \<Rightarrow> ExpectedBits p net headerByHeight = Inr (hdr_Bits (blk_Header b)))"
  by (auto simp: ValidateBlockHeaderWithDifficulty_def split: option.splits sum.splits if_splits)

section \<open>Properties\<close>

text \<open>
  C5. \<open>ValidateTransactionAt\<close> accepts exactly the transactions that are right: not a coinbase; the
  outpoints are pairwise distinct and none is already spent; every input names an existing, mature
  output and verifies; no output is zero; the totals, over the naturals, fit in 64 bits and inputs
  equal outputs plus the reported fee, which is at least \<open>MinFee\<close>. On acceptance the transaction's
  outpoints, and nothing else, have been added to \<open>pendingSpent\<close>.
\<close>

theorem ValidateTransactionAt_iff:
  "ValidateTransactionAt t utxos verifier pendingSpent h = (Inr fee, spent') \<longleftrightarrow>
     \<not> IsCoinbase t
     \<and> distinct (input_keys t) \<and> set (input_keys t) \<inter> pendingSpent = {}
     \<and> (\<forall>i < length (tx_Inputs t). input_ok t utxos verifier h i (tx_Inputs t ! i))
     \<and> (\<forall>out \<in> set (tx_Outputs t). out_Amount out \<noteq> 0)
     \<and> input_total utxos t < 2 ^ 64
     \<and> input_total utxos t = output_total t + unat fee
     \<and> MinFee t \<le> fee
     \<and> spent' = pendingSpent \<union> set (input_keys t)"
  by (rule ValidateTransactionAt_Inr)

text \<open>A transaction that spends the mature coinbase of height 1 at height 101, and its view.\<close>

definition demo_utxo :: UTXO where
  "demo_utxo = \<lparr>utxo_TxHash = 7, utxo_OutputIdx = 0, utxo_Amount = 1000, utxo_Script = [1, 2],
                utxo_Height = 1, utxo_Coinbase = True\<rparr>"

definition demo_view :: UTXOReader where
  "demo_view h i = (if h = 7 \<and> i = 0 then Inr demo_utxo else Inl ErrNotFound)"

definition demo_tx :: Transaction where
  "demo_tx = \<lparr>tx_Version = 1,
      tx_Inputs = [\<lparr>in_PrevTxHash = 7, in_OutputIdx = 0, in_Signature = [9], in_PublicKey = [8]\<rparr>],
      tx_Outputs = [\<lparr>out_Amount = 800, out_LockingScript = [3]\<rparr>], tx_LockTime = 0\<rparr>"

lemma demo_tx_facts [eval_simps]:
  "\<not> IsCoinbase demo_tx"
  "input_keys demo_tx = [OutpointKey 7 0]"
  "input_total demo_view demo_tx = 1000"
  "output_total demo_tx = 800"
  by (simp_all add: demo_tx_def IsCoinbase.simps input_keys_def input_key_def input_total_def
      input_value_def demo_view_def demo_utxo_def output_total_def)

lemma MinFee_demo_tx [eval_simps]: "MinFee demo_tx = 99"
  by (simp add: MinFee_def MinRelayFeePerByte_def demo_tx_def SerializeTransaction_def
      WriteTransaction_def WriteInput_def WriteOutput_def writeBytes_def writeVarBytesList_def)

theorem ValidateTransactionAt_iff_witness:
  "ValidateTransactionAt demo_tx demo_view (Some (\<lambda>t i script. script = [1, 2])) {} 101
     = (Inr 200, {OutpointKey 7 0})"
  unfolding ValidateTransactionAt_iff
  by (simp add: eval_simps) (simp add: demo_tx_def demo_view_def demo_utxo_def input_ok.simps
      CoinbaseMaturity_def)

text \<open>
  C3. A block whose transactions validate creates no value: its first transaction is the only
  coinbase, no outpoint is spent twice in it, and over the naturals everything it pays out, the
  coinbase included, is at most what its inputs bring plus the subsidy of its height, although the
  code computes the allowance \<open>reward + fees\<close> in wrapping 64-bit arithmetic.
\<close>

theorem ValidateBlockTransactions_conserves:
  assumes "ValidateBlockTransactionsAt b utxos verifier h = None"
  shows "\<exists>coinbase txs. blk_Transactions b = coinbase # txs
           \<and> IsCoinbase coinbase \<and> (\<forall>t \<in> set txs. \<not> IsCoinbase t)
           \<and> distinct (map input_key (block_inputs txs))
           \<and> sum_list (map output_total (blk_Transactions b))
               \<le> sum_list (map (input_total utxos) txs)
                 + 50000000000 div 2 ^ (unat (hdr_Height (blk_Header b)) div 2102400)"
proof -
  obtain coinbase txs where b: "blk_Transactions b = coinbase # txs" "IsCoinbase coinbase"
    and t: "\<forall>t \<in> set txs. tx_ok utxos verifier h t"
    and d: "distinct (map input_key (block_inputs txs))"
    and c: "output_total coinbase \<le> unat (BlockReward (hdr_Height (blk_Header b)))
            + sum_list (map (fee_of utxos) txs)"
    using assms by (rule ValidateBlockTransactionsAt_None)
  have "sum_list (map (input_total utxos) txs)
      = sum_list (map output_total txs) + sum_list (map (fee_of utxos) txs)"
    using t by (induction txs) (auto dest: tx_ok_fee(1))
  moreover have "\<forall>t \<in> set txs. \<not> IsCoinbase t" using t tx_ok_not_coinbase by blast
  ultimately show ?thesis using b d c by (auto simp: unat_BlockReward subsidy_def)
qed

text \<open>A block of height 101 with that transaction and a coinbase that claims reward and fee.\<close>

definition demo_block :: Block where
  "demo_block =
     \<lparr>blk_Header = \<lparr>hdr_Version = 1, hdr_PrevHash = 5, hdr_MerkleRoot = 6, hdr_Timestamp = 0,
                    hdr_Bits = RegtestPowBits, hdr_Nonce = 0, hdr_Height = 101\<rparr>,
      blk_Transactions = [NewCoinbase ''m'' 50000000200 [4], demo_tx]\<rparr>"

lemma demo_block_valid: "ValidateBlockTransactionsAt demo_block demo_view None 101 = None"
proof -
  have "ValidateTransactionAt demo_tx demo_view None {} 101 = (Inr 200, {OutpointKey 7 0})"
    unfolding ValidateTransactionAt_Inr
    by (simp add: eval_simps) (simp add: demo_tx_def demo_view_def demo_utxo_def input_ok.simps
        CoinbaseMaturity_def)
  then show ?thesis
    by (simp add: ValidateBlockTransactionsAt_def demo_block_def Let_def add_overflows_iff
        NewCoinbase_def IsCoinbase.simps BlockReward_def HalvingInterval_def InitialReward_def
        UnitsPerNEVEL_def)
qed

theorem ValidateBlockTransactions_conserves_witness:
  "\<exists>coinbase txs. blk_Transactions demo_block = coinbase # txs
     \<and> IsCoinbase coinbase \<and> (\<forall>t \<in> set txs. \<not> IsCoinbase t)
     \<and> distinct (map input_key (block_inputs txs))
     \<and> sum_list (map output_total (blk_Transactions demo_block))
         \<le> sum_list (map (input_total demo_view) txs)
           + 50000000000 div 2 ^ (unat (hdr_Height (blk_Header demo_block)) div 2102400)"
  by (rule ValidateBlockTransactions_conserves [OF demo_block_valid])

text \<open>
  C10. At a retarget height the required target stays within the network's limit and within a factor
  of four of the previous one: at most four times it, and at least a quarter of it (or the limit)
  up to the 15 bits of precision of the compact encoding, whatever the two timestamps are.
\<close>

theorem ExpectedBits_bounds:
  assumes "(hdr_Height prev + 1) mod DifficultyWindow = 0" and "hdr_Height prev + 1 \<noteq> 0"
    and "headerByHeight (hdr_Height prev + 1 - DifficultyWindow) = Inr first"
    and "0 < CompactToBig (hdr_Bits prev)"
    and "0 < net_PowLimit net" and "net_PowLimit net < 2 ^ 256"
  shows "\<exists>bits. ExpectedBits prev net headerByHeight = Inr bits
           \<and> CompactToBig bits \<le> net_PowLimit net
           \<and> CompactToBig bits \<le> 4 * CompactToBig (hdr_Bits prev)
           \<and> min (net_PowLimit net) (CompactToBig (hdr_Bits prev) div 4) * (2 ^ 15 - 1)
               \<le> CompactToBig bits * 2 ^ 15"
proof -
  define old n where "old = CompactToBig (hdr_Bits prev)"
    and "n = min (net_PowLimit net)
                 (Retarget old (hdr_Timestamp prev - hdr_Timestamp first) ExpectedRetargetSec)"
  have r: "ExpectedBits prev net headerByHeight = Inr (BigToCompact n)"
    using assms(1-3) by (simp add: ExpectedBits_def Let_def n_def old_def min_def)
  have old: "0 \<le> old" using assms(4) by (simp add: old_def)
  note b = Retarget_bounds [OF old, of "hdr_Timestamp prev - hdr_Timestamp first"]
  have n: "0 \<le> n" "n < 2 ^ 256" "n \<le> net_PowLimit net" "n \<le> 4 * old"
    "min (net_PowLimit net) (old div 4) \<le> n"
    using assms(5,6) b old by (auto simp: n_def min_def pos_imp_zdiv_nonneg_iff)
  then have small: "n < 256 ^ 254" by simp
  have "min (net_PowLimit net) (old div 4) * (2 ^ 15 - 1) \<le> n * (2 ^ 15 - 1)"
    using n(5) by (intro mult_right_mono) simp_all
  then show ?thesis
    using r compact_loss [OF n(1) small] n unfolding old_def [symmetric] by fastforce
qed

theorem ExpectedBits_bounds_witness:
  "\<exists>bits. ExpectedBits (blk_Header demo_block\<lparr>hdr_Height := 719\<rparr>) Regtest
            (\<lambda>h. Inr (blk_Header demo_block)) = Inr bits
     \<and> CompactToBig bits \<le> net_PowLimit Regtest
     \<and> CompactToBig bits \<le> 4 * CompactToBig RegtestPowBits
     \<and> min (net_PowLimit Regtest) (CompactToBig RegtestPowBits div 4) * (2 ^ 15 - 1)
         \<le> CompactToBig bits * 2 ^ 15"
  using ExpectedBits_bounds [of "blk_Header demo_block\<lparr>hdr_Height := 719\<rparr>"
      "\<lambda>h. Inr (blk_Header demo_block)" "blk_Header demo_block" Regtest]
  by (simp add: demo_block_def Regtest_def RegtestPowBits_def CompactToBig_def
      DifficultyWindow_def DifficultyAdjustmentInterval_def)


text \<open>
  \<open>WorkForBits\<close> is the expected number of hashes of a target below \<open>2^256\<close>: the integer \<open>w\<close> with
  \<open>w * (target + 1) \<le> 2^256 < (w + 1) * (target + 1)\<close>. It is positive, and a larger (easier) target
  never has more work.
\<close>

theorem WorkForBits_work:
  assumes "0 < CompactToBig bits" and "CompactToBig bits < 2 ^ 256"
    and "CompactToBig bits \<le> CompactToBig bits'"
  shows "WorkForBits bits * (CompactToBig bits + 1) \<le> 2 ^ 256
         \<and> 2 ^ 256 < (WorkForBits bits + 1) * (CompactToBig bits + 1)
         \<and> 0 < WorkForBits bits
         \<and> WorkForBits bits' \<le> WorkForBits bits"
  using WorkForBits_division [OF assms(1)] WorkForBits_pos [OF assms(1,2)]
    WorkForBits_antimono [OF assms(1,3)] by blast

theorem WorkForBits_work_witness:
  "WorkForBits ProductionPowBits * (CompactToBig ProductionPowBits + 1) \<le> 2 ^ 256
   \<and> 2 ^ 256 < (WorkForBits ProductionPowBits + 1) * (CompactToBig ProductionPowBits + 1)
   \<and> 0 < WorkForBits ProductionPowBits
   \<and> WorkForBits RegtestPowBits \<le> WorkForBits ProductionPowBits"
  by (rule WorkForBits_work)
    (simp_all add: CompactToBig_def ProductionPowBits_def RegtestPowBits_def Let_def)

text \<open>
  The subsidy is 500 NEVEL, halved every 2102400 blocks, and over any number of blocks, up to
  the whole range of heights, the subsidies sum to at most 210240000000000000 units, a tenth of
  \<open>MaxSupply\<close>.
\<close>

theorem BlockReward_emission:
  "unat (BlockReward h) = 50000000000 div 2 ^ (unat h div 2102400)
   \<and> (\<Sum>i < min n (2 ^ 64). unat (BlockReward (of_nat i))) \<le> 210240000000000000
   \<and> 210240000000000000 \<le> unat MaxSupply"
proof (intro conjI)
  show "unat (BlockReward h) = 50000000000 div 2 ^ (unat h div 2102400)"
    by (simp only: unat_BlockReward subsidy_def)
  show "(\<Sum>i < min n (2 ^ 64). unat (BlockReward (of_nat i))) \<le> 210240000000000000"
    using subsidy_sum_bound by (simp only: sum_BlockReward [OF min.cobounded2])
  show "210240000000000000 \<le> unat MaxSupply" by (simp add: unat_MaxSupply)
qed

text \<open>
  Scripts: \<open>ExtractPubKeyHash\<close> inverts \<open>ScriptForPubKeyHash\<close>, and a script it accepts is the
  script of the hash it returns.
\<close>

theorem ExtractPubKeyHash_iff:
  "ExtractPubKeyHash script = Some h \<longleftrightarrow> script = ScriptForPubKeyHash h"
proof -
  define p where "p = string_bytes ''p2pkh:''"
  have "ExtractPubKeyHash script = Some h \<longleftrightarrow>
      take (length p) script = p \<and> h = drop (length p) script"
    by (auto simp: ExtractPubKeyHash_def p_def [symmetric])
  also have "\<dots> \<longleftrightarrow> script = p @ h" by (metis append_eq_conv_conj)
  finally show ?thesis by (simp add: ScriptForPubKeyHash_def p_def)
qed

end
