(* ===== verification/Pebble.thy ===== *)
theory Pebble
  imports Go_Base "HOL-Library.List_Lexorder" "HOL-Library.Char_ord"
begin

text \<open>
  \<open>internal/pebble/pebble.go\<close>: the in-tree replacement of the Pebble database, which keeps one file per
  key in a directory and runs a batch one operation after the other. The directory is an association
  list from paths to contents, in the lexical order in which \<open>filepath.WalkDir\<close> visits it; every key
  the node uses names a file directly in it. The operating system may refuse any write, or tear it:
  \<open>dsk_faults\<close> lists the outcomes of the coming writes (no entry: success), and \<open>dsk_ReadErr\<close> the
  files that cannot be read. Contents are of any type \<open>'v\<close>, the parameter of the theory. The locale
  \<open>kv_store\<close> states the contract the client relies on; the database satisfies it.
\<close>

section \<open>\<open>path/filepath\<close>\<close>

fun split_path :: "string \<Rightarrow> string list" where
  "split_path [] = [[]]"
| "split_path (c # cs) =
     (if c = CHR ''/'' then [] # split_path cs
      else case split_path cs of [] \<Rightarrow> [[c]] | x # xs \<Rightarrow> (c # x) # xs)"

text \<open>One path element on the stack of elements kept so far, newest first.\<close>

definition clean_step :: "bool \<Rightarrow> string list \<Rightarrow> string \<Rightarrow> string list" where
  "clean_step rooted out c =
     (if c = '''' \<or> c = ''.'' then out
      else if c = ''..'' then
        (case out of
           [] \<Rightarrow> if rooted then [] else [''..'']
         | x # xs \<Rightarrow> if x = ''..'' then ''..'' # out else xs)
      else c # out)"

fun join_path :: "string list \<Rightarrow> string" where
  "join_path [] = []"
| "join_path [x] = x"
| "join_path (x # y # xs) = x @ ''/'' @ join_path (y # xs)"

definition is_rooted :: "string \<Rightarrow> bool" where
  "is_rooted p = (case p of [] \<Rightarrow> False | c # cs \<Rightarrow> c = CHR ''/'')"

definition clean_elems :: "string \<Rightarrow> string list" where
  "clean_elems p = rev (foldl (clean_step (is_rooted p)) [] (split_path p))"

definition filepath_Clean :: "string \<Rightarrow> string" where
  "filepath_Clean p =
     (let s = join_path (clean_elems p)
      in if is_rooted p then ''/'' @ s else if s = '''' then ''.'' else s)"

definition filepath_Join :: "string \<Rightarrow> string \<Rightarrow> string" where
  "filepath_Join a b =
     (if a \<noteq> '''' then filepath_Clean (a @ ''/'' @ b)
      else if b \<noteq> '''' then filepath_Clean b else '''')"

text \<open>The name \<open>filepath.Rel\<close> gives to a file directly in the base directory.\<close>

definition base_name :: "string \<Rightarrow> string" where
  "base_name p = rev (takeWhile (\<lambda>c. c \<noteq> CHR ''/'') (rev p))"

section \<open>The directory\<close>

datatype 'v fault = Refused string | Torn string 'v

record 'v disk =
  dsk_files :: "(string \<times> 'v) list"
  dsk_faults :: "'v fault option list"
  dsk_ReadErr :: "string \<Rightarrow> error option"

fun upd_list :: "string \<Rightarrow> 'v \<Rightarrow> (string \<times> 'v) list \<Rightarrow> (string \<times> 'v) list" where
  "upd_list k v [] = [(k, v)]"
| "upd_list k v ((a, w) # xs) =
     (if k < a then (k, v) # (a, w) # xs
      else if k = a then (k, v) # xs
      else (a, w) # upd_list k v xs)"

definition del_list :: "string \<Rightarrow> (string \<times> 'v) list \<Rightarrow> (string \<times> 'v) list" where
  "del_list k xs = filter (\<lambda>(a, w). a \<noteq> k) xs"

definition os_ReadFile :: "'v disk \<Rightarrow> string \<Rightarrow> error + 'v" where
  "os_ReadFile d p =
     (case dsk_ReadErr d p of
        Some e \<Rightarrow> Inl e
      | None \<Rightarrow> case map_of (dsk_files d) p of None \<Rightarrow> Inl ErrNotExist | Some v \<Rightarrow> Inr v)"

definition put_file :: "'v disk \<Rightarrow> string \<Rightarrow> 'v \<Rightarrow> 'v disk" where
  "put_file d p v = d\<lparr>dsk_files := upd_list p v (dsk_files d)\<rparr>"

text \<open>\<open>os.WriteFile\<close> truncates before it writes, so a failing write may leave other contents behind.\<close>

definition os_WriteFile :: "'v disk \<Rightarrow> string \<Rightarrow> 'v \<Rightarrow> 'v disk \<times> error option" where
  "os_WriteFile d p v =
     (case dsk_faults d of
        [] \<Rightarrow> (put_file d p v, None)
      | f # fs \<Rightarrow>
          let d = d\<lparr>dsk_faults := fs\<rparr>
          in case f of
               None \<Rightarrow> (put_file d p v, None)
             | Some (Refused e) \<Rightarrow> (d, Some (ErrOS e))
             | Some (Torn e w) \<Rightarrow> (put_file d p w, Some (ErrOS e)))"

definition os_Remove :: "'v disk \<Rightarrow> string \<Rightarrow> 'v disk \<times> error option" where
  "os_Remove d p =
     (case map_of (dsk_files d) p of
        None \<Rightarrow> (d, Some ErrNotExist)
      | Some v \<Rightarrow>
          let removed = d\<lparr>dsk_files := del_list p (dsk_files d)\<rparr>
          in case dsk_faults d of
               [] \<Rightarrow> (removed, None)
             | f # fs \<Rightarrow>
                 (case f of
                    None \<Rightarrow> (removed\<lparr>dsk_faults := fs\<rparr>, None)
                  | Some (Refused e) \<Rightarrow> (d\<lparr>dsk_faults := fs\<rparr>, Some (ErrOS e))
                  | Some (Torn e w) \<Rightarrow> (d\<lparr>dsk_faults := fs\<rparr>, Some (ErrOS e))))"

section \<open>The database\<close>

record 'v pebble_DB =
  db_path :: string
  db_disk :: "'v disk"

text \<open>\<open>Open\<close> makes the directory; the argument \<open>mkdir\<close> is the outcome of \<open>os.MkdirAll\<close>.\<close>

definition peb_Open :: "string \<Rightarrow> error option \<Rightarrow> 'v disk \<Rightarrow> error + 'v pebble_DB" where
  "peb_Open path mkdir disk =
     (case mkdir of Some e \<Rightarrow> Inl e | None \<Rightarrow> Inr \<lparr>db_path = path, db_disk = disk\<rparr>)"

definition peb_file :: "'v pebble_DB \<Rightarrow> string \<Rightarrow> string" where
  "peb_file d key = filepath_Join (db_path d) (filepath_Clean key)"

text \<open>A failing \<open>os.MkdirAll\<close> of the existing directory is one more way for the write to be refused.\<close>

definition peb_Set :: "'v pebble_DB \<Rightarrow> string \<Rightarrow> 'v \<Rightarrow> 'v pebble_DB \<times> error option" where
  "peb_Set d key v =
     (case os_WriteFile (db_disk d) (peb_file d key) v of
        (disk, err) \<Rightarrow> (d\<lparr>db_disk := disk\<rparr>, err))"

definition peb_Get :: "'v pebble_DB \<Rightarrow> string \<Rightarrow> error + 'v" where
  "peb_Get d key =
     (case os_ReadFile (db_disk d) (peb_file d key) of
        Inl e \<Rightarrow> Inl (if e = ErrNotExist then ErrNotFound else e)
      | Inr v \<Rightarrow> Inr v)"

definition peb_Delete :: "'v pebble_DB \<Rightarrow> string \<Rightarrow> 'v pebble_DB \<times> error option" where
  "peb_Delete d key =
     (case os_Remove (db_disk d) (peb_file d key) of
        (disk, err) \<Rightarrow> (d\<lparr>db_disk := disk\<rparr>, if err = Some ErrNotExist then None else err))"

datatype 'v batch_op = OpDel string | OpSet string 'v

type_synonym 'v Batch = "'v batch_op list"

definition NewBatch :: "'v Batch" where
  "NewBatch = []"

definition Batch_Set :: "'v Batch \<Rightarrow> string \<Rightarrow> 'v \<Rightarrow> 'v Batch" where
  "Batch_Set b key v = b @ [OpSet key v]"

definition Batch_Delete :: "'v Batch \<Rightarrow> string \<Rightarrow> 'v Batch" where
  "Batch_Delete b key = b @ [OpDel key]"

text \<open>The loop of \<open>Commit\<close> over any pair of write operations.\<close>

fun commit_ops ::
  "('d \<Rightarrow> string \<Rightarrow> 'v \<Rightarrow> 'd \<times> error option) \<Rightarrow> ('d \<Rightarrow> string \<Rightarrow> 'd \<times> error option) \<Rightarrow>
     'v batch_op list \<Rightarrow> 'd \<Rightarrow> 'd \<times> error option" where
  "commit_ops put del [] d = (d, None)"
| "commit_ops put del (op # ops) d =
     (case (case op of OpDel k \<Rightarrow> del d k | OpSet k v \<Rightarrow> put d k v) of
        (d', Some e) \<Rightarrow> (d', Some e)
      | (d', None) \<Rightarrow> commit_ops put del ops d')"

definition peb_Commit :: "'v Batch \<Rightarrow> 'v pebble_DB \<Rightarrow> 'v pebble_DB \<times> error option" where
  "peb_Commit b d = commit_ops peb_Set peb_Delete b d"

text \<open>The walk over the files in order, with the callback's own state threaded through.\<close>

fun walk_files ::
  "(string \<Rightarrow> error option) \<Rightarrow> string \<Rightarrow> (string \<Rightarrow> 'v \<Rightarrow> 'a \<Rightarrow> error + 'a) \<Rightarrow>
     (string \<times> 'v) list \<Rightarrow> 'a \<Rightarrow> error + 'a" where
  "walk_files readErr root fn [] acc = Inr acc"
| "walk_files readErr root fn ((p, v) # fs) acc =
     (if take (length root) p \<noteq> root then walk_files readErr root fn fs acc
      else case readErr p of
        Some e \<Rightarrow> Inl e
      | None \<Rightarrow>
          case fn (base_name p) v acc of
            Inl e \<Rightarrow> Inl e
          | Inr acc' \<Rightarrow> walk_files readErr root fn fs acc')"

definition WalkPrefix ::
  "'v pebble_DB \<Rightarrow> string \<Rightarrow> (string \<Rightarrow> 'v \<Rightarrow> 'a \<Rightarrow> error + 'a) \<Rightarrow> 'a \<Rightarrow> error + 'a" where
  "WalkPrefix d prefix fn acc =
     walk_files (dsk_ReadErr (db_disk d)) (peb_file d prefix) fn (dsk_files (db_disk d)) acc"

section \<open>Lemmas: one file per key\<close>

text \<open>A key that is a file name of its own: no separator, not empty, \<open>.\<close> or \<open>..\<close>.\<close>

definition flat_key :: "string \<Rightarrow> bool" where
  "flat_key k \<longleftrightarrow> k \<noteq> '''' \<and> k \<noteq> ''.'' \<and> k \<noteq> ''..'' \<and> CHR ''/'' \<notin> set k"

lemma split_path_not_Nil [simp]: "split_path p \<noteq> []"
  by (induction p) (auto split: list.splits)

lemma split_path_flat: "CHR ''/'' \<notin> set k \<Longrightarrow> split_path k = [k]"
  by (induction k) auto

lemma split_path_append: "split_path (p @ CHR ''/'' # k) = split_path p @ split_path k"
  by (induction p) (auto split: list.splits)

lemma join_path_snoc: "join_path (xs @ [k]) = concat (map (\<lambda>x. x @ ''/'') xs) @ k"
  by (induction xs rule: join_path.induct) auto

definition dir_prefix :: "string \<Rightarrow> string" where
  "dir_prefix path =
     (if path = '''' then ''''
      else (if is_rooted path then ''/'' else '''') @ concat (map (\<lambda>x. x @ ''/'') (clean_elems path)))"

lemma clean_step_flat: "flat_key k \<Longrightarrow> clean_step r out k = k # out"
  by (simp add: clean_step_def flat_key_def)

lemma flat_not_rooted: "flat_key k \<Longrightarrow> \<not> is_rooted k"
  by (cases k) (auto simp: is_rooted_def flat_key_def)

lemma Clean_flat:
  assumes "flat_key k"
  shows "filepath_Clean k = k"
proof -
  have "clean_elems k = [k]"
    using assms by (simp add: clean_elems_def split_path_flat clean_step_flat flat_key_def)
  then show ?thesis
    using assms flat_not_rooted [OF assms] by (simp add: filepath_Clean_def flat_key_def)
qed

lemma peb_file_flat:
  assumes "flat_key k"
  shows "peb_file d k = dir_prefix (db_path d) @ k"
proof (cases "db_path d = ''''")
  case True
  have "k \<noteq> ''''" using assms by (simp add: flat_key_def)
  with True show ?thesis
    using assms by (simp add: peb_file_def filepath_Join_def dir_prefix_def Clean_flat)
next
  case False
  then have r: "is_rooted (db_path d @ CHR ''/'' # k) = is_rooted (db_path d)"
    by (cases "db_path d") (simp_all add: is_rooted_def)
  have k: "CHR ''/'' \<notin> set k" "k \<noteq> ''''" using assms by (simp_all add: flat_key_def)
  have e: "clean_elems (db_path d @ CHR ''/'' # k) = clean_elems (db_path d) @ [k]"
    using assms k by (simp add: clean_elems_def r split_path_append split_path_flat clean_step_flat)
  have "peb_file d k = filepath_Clean (db_path d @ CHR ''/'' # k)"
    using False by (simp add: peb_file_def filepath_Join_def Clean_flat [OF assms])
  also have "\<dots> = dir_prefix (db_path d) @ k"
    using False k by (simp add: filepath_Clean_def r e join_path_snoc dir_prefix_def)
  finally show ?thesis .
qed

lemma peb_file_inj: "flat_key k \<Longrightarrow> flat_key k' \<Longrightarrow> peb_file d k = peb_file d k' \<longleftrightarrow> k = k'"
  by (simp add: peb_file_flat)

section \<open>Lemmas: reading after writing\<close>

lemma map_of_upd_list [simp]: "map_of (upd_list k v xs) = (map_of xs)(k \<mapsto> v)"
  by (induction xs) (auto simp: fun_eq_iff)

lemma map_of_del_list [simp]: "map_of (del_list k xs) = (map_of xs)(k := None)"
  by (induction xs) (auto simp: fun_eq_iff del_list_def)

lemma fst_upd_list: "set (map fst (upd_list k v xs)) = insert k (set (map fst xs))"
  by (induction xs rule: upd_list.induct) auto

lemma sorted_upd_list:
  "sorted_wrt (<) (map fst xs) \<Longrightarrow> sorted_wrt (<) (map fst (upd_list k v xs))"
proof (induction xs)
  case (Cons x xs)
  obtain a w where x: "x = (a, w)" by fastforce
  show ?case
  proof (cases "k < a")
    case True
    then show ?thesis using Cons.prems by (auto simp: x intro: less_trans)
  next
    case False
    then have "\<forall>b \<in> set (map fst (upd_list k v xs)). k \<noteq> a \<longrightarrow> a < b"
      using Cons.prems by (auto simp del: set_map simp: fst_upd_list x)
    then show ?thesis using False Cons by (auto simp: x)
  qed
qed simp

lemma sorted_del_list: "sorted_wrt (<) (map fst xs) \<Longrightarrow> sorted_wrt (<) (map fst (del_list k xs))"
  by (induction xs) (auto simp: del_list_def)

text \<open>
  A database in order: its files sorted by path, each the file of a flat key, all of them readable.
\<close>

definition flat_path :: "string \<Rightarrow> string \<Rightarrow> bool" where
  "flat_path path p \<longleftrightarrow>
     take (length (dir_prefix path)) p = dir_prefix path
     \<and> flat_key (drop (length (dir_prefix path)) p)"

definition db_ok :: "'v pebble_DB \<Rightarrow> bool" where
  "db_ok d \<longleftrightarrow>
     sorted_wrt (<) (map fst (dsk_files (db_disk d)))
     \<and> (\<forall>p \<in> fst ` set (dsk_files (db_disk d)). flat_path (db_path d) p)
     \<and> dsk_ReadErr (db_disk d) = (\<lambda>_. None)"

lemma flat_path_file: "flat_key k \<Longrightarrow> flat_path (db_path d) (peb_file d k)"
  by (simp add: flat_path_def peb_file_flat)

lemma os_WriteFile_None:
  "os_WriteFile d p v = (d', None) \<Longrightarrow>
     dsk_files d' = upd_list p v (dsk_files d) \<and> dsk_ReadErr d' = dsk_ReadErr d"
  by (auto simp: os_WriteFile_def Let_def put_file_def
      split: list.splits option.splits fault.splits)

lemma os_WriteFile_Some:
  "os_WriteFile d p v = (d', Some e) \<Longrightarrow>
     (dsk_files d' = dsk_files d \<or> (\<exists>w. dsk_files d' = upd_list p w (dsk_files d)))
     \<and> dsk_ReadErr d' = dsk_ReadErr d"
  by (auto simp: os_WriteFile_def Let_def put_file_def
      split: list.splits option.splits fault.splits)

lemma os_Remove_cases:
  "os_Remove d p = (d', r) \<Longrightarrow>
     dsk_ReadErr d' = dsk_ReadErr d
     \<and> (r = None \<and> dsk_files d' = del_list p (dsk_files d)
        \<or> r = Some ErrNotExist \<and> dsk_files d' = dsk_files d \<and> map_of (dsk_files d) p = None
        \<or> (\<exists>e. r = Some (ErrOS e)) \<and> dsk_files d' = dsk_files d)"
  by (auto simp: os_Remove_def Let_def split: list.splits option.splits fault.splits)

lemma peb_Get_ok:
  "db_ok d \<Longrightarrow> peb_Get d k =
     (case map_of (dsk_files (db_disk d)) (peb_file d k) of None \<Rightarrow> Inl ErrNotFound | Some v \<Rightarrow> Inr v)"
  by (auto simp: db_ok_def peb_Get_def os_ReadFile_def split: option.splits)

text \<open>The effect of each write on the directory, for the invariant and for reading.\<close>

lemma peb_Set_disk:
  assumes "peb_Set d k v = (d', r)"
  shows "db_path d' = db_path d" and "dsk_ReadErr (db_disk d') = dsk_ReadErr (db_disk d)"
    and "r = None \<Longrightarrow> dsk_files (db_disk d') = upd_list (peb_file d k) v (dsk_files (db_disk d))"
    and "dsk_files (db_disk d') = dsk_files (db_disk d)
         \<or> (\<exists>w. dsk_files (db_disk d') = upd_list (peb_file d k) w (dsk_files (db_disk d)))"
proof -
  obtain disk where w: "os_WriteFile (db_disk d) (peb_file d k) v = (disk, r)"
    and d': "d' = d\<lparr>db_disk := disk\<rparr>"
    using assms by (auto simp: peb_Set_def split: prod.splits)
  show "db_path d' = db_path d" by (simp add: d')
  show "r = None \<Longrightarrow> dsk_files (db_disk d') = upd_list (peb_file d k) v (dsk_files (db_disk d))"
    using w os_WriteFile_None [of "db_disk d" "peb_file d k" v disk] by (simp add: d')
  show "dsk_ReadErr (db_disk d') = dsk_ReadErr (db_disk d)"
    "dsk_files (db_disk d') = dsk_files (db_disk d)
       \<or> (\<exists>w. dsk_files (db_disk d') = upd_list (peb_file d k) w (dsk_files (db_disk d)))"
    using w os_WriteFile_None [of "db_disk d" "peb_file d k" v disk]
      os_WriteFile_Some [of "db_disk d" "peb_file d k" v disk]
    by (cases r, auto simp: d')
qed

lemma peb_Delete_disk:
  assumes "peb_Delete d k = (d', r)"
  shows "db_path d' = db_path d" and "dsk_ReadErr (db_disk d') = dsk_ReadErr (db_disk d)"
    and "r = None \<Longrightarrow> map_of (dsk_files (db_disk d'))
                      = (map_of (dsk_files (db_disk d)))(peb_file d k := None)"
    and "r \<noteq> None \<Longrightarrow> dsk_files (db_disk d') = dsk_files (db_disk d)"
    and "dsk_files (db_disk d') = dsk_files (db_disk d)
         \<or> dsk_files (db_disk d') = del_list (peb_file d k) (dsk_files (db_disk d))"
proof -
  obtain disk r0 where w: "os_Remove (db_disk d) (peb_file d k) = (disk, r0)"
    and d': "d' = d\<lparr>db_disk := disk\<rparr>" and r: "r = (if r0 = Some ErrNotExist then None else r0)"
    using assms by (auto simp: peb_Delete_def split: prod.splits)
  note c = os_Remove_cases [OF w]
  show "db_path d' = db_path d" by (simp add: d')
  show "dsk_ReadErr (db_disk d') = dsk_ReadErr (db_disk d)"
    and "r = None \<Longrightarrow> map_of (dsk_files (db_disk d'))
                      = (map_of (dsk_files (db_disk d)))(peb_file d k := None)"
    and "r \<noteq> None \<Longrightarrow> dsk_files (db_disk d') = dsk_files (db_disk d)"
    and "dsk_files (db_disk d') = dsk_files (db_disk d)
         \<or> dsk_files (db_disk d') = del_list (peb_file d k) (dsk_files (db_disk d))"
    using c r by (auto simp: d' fun_upd_idem split: if_splits)
qed

lemma peb_file_path: "db_path d' = db_path d \<Longrightarrow> peb_file d' k = peb_file d k"
  by (simp add: peb_file_def)

section \<open>The contract of the store\<close>

definition apply_op :: "'v batch_op \<Rightarrow> (string \<Rightarrow> error + 'v) \<Rightarrow> string \<Rightarrow> error + 'v" where
  "apply_op op g = (case op of OpDel k \<Rightarrow> g(k := Inl ErrNotFound) | OpSet k v \<Rightarrow> g(k := Inr v))"

definition apply_ops :: "'v batch_op list \<Rightarrow> (string \<Rightarrow> error + 'v) \<Rightarrow> string \<Rightarrow> error + 'v" where
  "apply_ops ops g = fold apply_op ops g"

fun op_key :: "'v batch_op \<Rightarrow> string" where
  "op_key (OpDel k) = k"
| "op_key (OpSet k v) = k"

lemma apply_ops_simps [simp]:
  "apply_ops [] g = g"
  "apply_ops (op # ops) g = apply_ops ops (apply_op op g)"
  "apply_ops (ops @ ops') g = apply_ops ops' (apply_ops ops g)"
  by (simp_all add: apply_ops_def)

lemma apply_ops_other: "k \<notin> op_key ` set ops \<Longrightarrow> apply_ops ops g k = g k"
  by (induction ops arbitrary: g) (auto simp: apply_op_def split: batch_op.splits)

text \<open>
  What a client of a key-value store with failing writes may rely on, for the legal keys: a write
  that succeeds is read back and changes no other key; a write that fails changes at most its own
  key; the invariant survives both.
\<close>

locale kv_store =
  fixes get :: "'d \<Rightarrow> string \<Rightarrow> error + 'v"
    and put :: "'d \<Rightarrow> string \<Rightarrow> 'v \<Rightarrow> 'd \<times> error option"
    and del :: "'d \<Rightarrow> string \<Rightarrow> 'd \<times> error option"
    and ok :: "'d \<Rightarrow> bool"
    and key :: "string \<Rightarrow> bool"
  assumes put_ok: "ok d \<Longrightarrow> key k \<Longrightarrow> put d k v = (d', r) \<Longrightarrow> ok d'"
    and del_ok: "ok d \<Longrightarrow> key k \<Longrightarrow> del d k = (d', r) \<Longrightarrow> ok d'"
    and get_put: "ok d \<Longrightarrow> key k \<Longrightarrow> key k' \<Longrightarrow> put d k v = (d', None)
        \<Longrightarrow> get d' k' = (if k' = k then Inr v else get d k')"
    and get_del: "ok d \<Longrightarrow> key k \<Longrightarrow> key k' \<Longrightarrow> del d k = (d', None)
        \<Longrightarrow> get d' k' = (if k' = k then Inl ErrNotFound else get d k')"
    and put_frame: "ok d \<Longrightarrow> key k \<Longrightarrow> key k' \<Longrightarrow> put d k v = (d', Some e) \<Longrightarrow> k' \<noteq> k
        \<Longrightarrow> get d' k' = get d k'"
    and del_frame: "ok d \<Longrightarrow> key k \<Longrightarrow> key k' \<Longrightarrow> del d k = (d', Some e)
        \<Longrightarrow> get d' k' = get d k'"
begin

lemma commit_ok:
  "ok d \<Longrightarrow> \<forall>op \<in> set ops. key (op_key op) \<Longrightarrow> commit_ops put del ops d = (d', r) \<Longrightarrow> ok d'"
  by (induction ops arbitrary: d)
    (auto split: prod.splits option.splits batch_op.splits dest: put_ok del_ok)

lemma apply_ops_cong:
  "\<forall>k. key k \<longrightarrow> g k = g' k \<Longrightarrow> key k \<Longrightarrow> apply_ops ops g k = apply_ops ops g' k"
  unfolding apply_ops_def
  by (induction ops arbitrary: g g') (auto simp: apply_op_def split: batch_op.splits)

lemma commit_get:
  assumes "ok d" and "\<forall>op \<in> set ops. key (op_key op)" and "commit_ops put del ops d = (d', None)"
    and "key k"
  shows "get d' k = apply_ops ops (get d) k"
  using assms
proof (induction ops arbitrary: d)
  case Nil
  then show ?case by (simp add: apply_ops_def)
next
  case (Cons op ops)
  obtain d1 where d1: "(case op of OpDel k \<Rightarrow> del d k | OpSet k v \<Rightarrow> put d k v) = (d1, None)"
    and rest: "commit_ops put del ops d1 = (d', None)"
    using Cons.prems(3) by (auto split: prod.splits option.splits)
  have ok1: "ok d1" using d1 Cons.prems(1,2) by (auto split: batch_op.splits dest: put_ok del_ok)
  have g: "\<forall>k. key k \<longrightarrow> get d1 k = apply_op op (get d) k"
    using d1 Cons.prems(1,2)
    by (cases op) (auto simp: apply_op_def get_put get_del)
  have "get d' k = apply_ops ops (get d1) k"
    using Cons.IH [OF ok1 _ rest Cons.prems(4)] Cons.prems(2) by simp
  also have "\<dots> = apply_ops ops (apply_op op (get d)) k"
    using g Cons.prems(4) by (rule apply_ops_cong)
  finally show ?case by (simp add: apply_ops_def)
qed

lemma commit_fail:
  assumes "ok d" and "\<forall>op \<in> set ops. key (op_key op)" and "commit_ops put del ops d = (d', Some e)"
  shows "\<exists>n < length ops. \<forall>k. key k \<and> k \<noteq> op_key (ops ! n)
           \<longrightarrow> get d' k = apply_ops (take n ops) (get d) k"
  using assms
proof (induction ops arbitrary: d)
  case Nil
  then show ?case by simp
next
  case (Cons op ops)
  obtain d1 r where d1: "(case op of OpDel k \<Rightarrow> del d k | OpSet k v \<Rightarrow> put d k v) = (d1, r)"
    by fastforce
  show ?case
  proof (cases r)
    case (Some e')
    then have "\<forall>k. key k \<and> k \<noteq> op_key op \<longrightarrow> get d' k = get d k"
      using d1 Cons.prems by (cases op) (auto dest: put_frame del_frame)
    then show ?thesis by (intro exI [of _ 0]) (simp add: apply_ops_def)
  next
    case None
    have ok1: "ok d1" using d1 Cons.prems(1,2) by (auto split: batch_op.splits dest: put_ok del_ok)
    have g: "\<forall>k. key k \<longrightarrow> get d1 k = apply_op op (get d) k"
      using d1 None Cons.prems(1,2)
      by (cases op) (auto simp: apply_op_def get_put get_del)
    obtain n where n: "n < length ops" "\<forall>k. key k \<and> k \<noteq> op_key (ops ! n)
           \<longrightarrow> get d' k = apply_ops (take n ops) (get d1) k"
      using Cons.IH [OF ok1] Cons.prems(2,3) d1 None by auto
    have "get d' k = apply_ops (take (Suc n) (op # ops)) (get d) k"
      if "key k" "k \<noteq> op_key (ops ! n)" for k
      using n(2) that apply_ops_cong [OF g that(1), of "take n ops"] by (simp add: apply_ops_def)
    then show ?thesis using n(1) by (intro exI [of _ "Suc n"]) simp
  qed
qed

end

interpretation peb: kv_store peb_Get peb_Set peb_Delete db_ok flat_key
proof
  fix d d' :: "'v pebble_DB" and k k' v r e
  show "db_ok d'" if "db_ok d" "flat_key k" "peb_Set d k v = (d', r)"
    using that peb_Set_disk(1,2,4) [OF that(3)]
    by (auto simp: db_ok_def sorted_upd_list fst_upd_list flat_path_file simp flip: set_map)
  show "db_ok d'" if "db_ok d" "flat_key k" "peb_Delete d k = (d', r)"
    using that peb_Delete_disk(1,2,5) [OF that(3)]
    by (auto simp: db_ok_def sorted_del_list) (auto simp: del_list_def)
  show "peb_Get d' k' = (if k' = k then Inl ErrNotFound else peb_Get d k')"
    if "db_ok d" "flat_key k" "flat_key k'" "peb_Delete d k = (d', None)"
    using that peb_Delete_disk(2,3) [OF that(4)] peb_file_path [OF peb_Delete_disk(1) [OF that(4)]]
    by (simp add: peb_Get_def os_ReadFile_def peb_file_inj db_ok_def)
  show "peb_Get d' k' = (if k' = k then Inr v else peb_Get d k')"
    if "db_ok d" "flat_key k" "flat_key k'" "peb_Set d k v = (d', None)"
    using that peb_Set_disk(2,3) [OF that(4)] peb_file_path [OF peb_Set_disk(1) [OF that(4)]]
    by (simp add: peb_Get_def os_ReadFile_def peb_file_inj db_ok_def)
  show "peb_Get d' k' = peb_Get d k'"
    if "db_ok d" "flat_key k" "flat_key k'" "peb_Set d k v = (d', Some e)" "k' \<noteq> k"
    using that peb_Set_disk(2,4) [OF that(4)] peb_file_path [OF peb_Set_disk(1) [OF that(4)]]
    by (auto simp: peb_Get_def os_ReadFile_def peb_file_inj db_ok_def)
  show "peb_Get d' k' = peb_Get d k'"
    if "db_ok d" "flat_key k" "flat_key k'" "peb_Delete d k = (d', Some e)"
    using that peb_Delete_disk(2,4) [OF that(4)] peb_file_path [OF peb_Delete_disk(1) [OF that(4)]]
    by (simp add: peb_Get_def os_ReadFile_def split: option.split)
qed

lemmas commit_ok = peb.commit_ok [folded peb_Commit_def]
lemmas commit_get = peb.commit_get [folded peb_Commit_def]
lemmas commit_fail = peb.commit_fail [folded peb_Commit_def]

text \<open>Without faults to come every write succeeds.\<close>

lemma peb_Set_no_faults:
  "dsk_faults (db_disk d) = [] \<Longrightarrow>
     peb_Set d k v = (d\<lparr>db_disk := put_file (db_disk d) (peb_file d k) v\<rparr>, None)"
  by (simp add: peb_Set_def os_WriteFile_def)

lemma peb_Delete_no_faults:
  "dsk_faults (db_disk d) = [] \<Longrightarrow>
     \<exists>d'. peb_Delete d k = (d', None) \<and> dsk_faults (db_disk d') = []"
  by (auto simp: peb_Delete_def os_Remove_def split: option.splits)

lemma peb_Commit_no_faults:
  "dsk_faults (db_disk d) = [] \<Longrightarrow>
     \<exists>d'. peb_Commit ops d = (d', None) \<and> dsk_faults (db_disk d') = []"
  unfolding peb_Commit_def
proof (induction ops arbitrary: d)
  case (Cons op ops)
  obtain d1 where "(case op of OpDel k \<Rightarrow> peb_Delete d k | OpSet k v \<Rightarrow> peb_Set d k v) = (d1, None)"
    and "dsk_faults (db_disk d1) = []"
    using Cons.prems peb_Delete_no_faults [OF Cons.prems, of "op_key op"]
      peb_Set_no_faults [OF Cons.prems]
    by (cases op) (auto simp: put_file_def)
  then show ?case using Cons.IH by simp
qed simp

section \<open>Lemmas: the walk\<close>

text \<open>The database as the ordered list of its keys and values, and the walk over a list of them.\<close>

definition db_entries :: "'v pebble_DB \<Rightarrow> (string \<times> 'v) list" where
  "db_entries d = map (\<lambda>(p, v). (drop (length (dir_prefix (db_path d))) p, v)) (dsk_files (db_disk d))"

fun walk_entries ::
  "(string \<Rightarrow> 'v \<Rightarrow> 'a \<Rightarrow> error + 'a) \<Rightarrow> (string \<times> 'v) list \<Rightarrow> 'a \<Rightarrow> error + 'a" where
  "walk_entries fn [] acc = Inr acc"
| "walk_entries fn ((k, v) # es) acc =
     (case fn k v acc of Inl e \<Rightarrow> Inl e | Inr acc' \<Rightarrow> walk_entries fn es acc')"

definition has_prefix :: "string \<Rightarrow> string \<Rightarrow> bool" where
  "has_prefix p k \<longleftrightarrow> take (length p) k = p"

lemma dir_prefix_end: "dir_prefix path = '''' \<or> (\<exists>q. dir_prefix path = q @ ''/'')"
proof (cases "clean_elems path" rule: rev_cases)
  case Nil
  then show ?thesis by (simp add: dir_prefix_def)
next
  case (snoc es e)
  have "dir_prefix path = ((if is_rooted path then ''/'' else '''')
      @ concat (map (\<lambda>x. x @ ''/'') es) @ e) @ ''/''" if "path \<noteq> ''''"
    using that by (simp add: dir_prefix_def snoc)
  then show ?thesis by (cases "path = ''''") (simp add: dir_prefix_def, blast)
qed

lemma base_name_file:
  assumes "flat_key k"
  shows "base_name (dir_prefix path @ k) = k"
proof -
  have "takeWhile (\<lambda>c. c \<noteq> CHR ''/'') (rev k @ ys) = rev k @ takeWhile (\<lambda>c. c \<noteq> CHR ''/'') ys" for ys
    using assms by (intro takeWhile_append2) (auto simp: flat_key_def)
  then show ?thesis
    using dir_prefix_end [of path] by (auto simp: base_name_def)
qed

lemma walk_files_entries:
  assumes "\<forall>p \<in> fst ` set fs. flat_path path p" and "re = (\<lambda>_. None)"
  shows "walk_files re (dir_prefix path @ pre) fn fs acc =
           walk_entries fn (filter (\<lambda>(k, v). has_prefix pre k)
             (map (\<lambda>(p, v). (drop (length (dir_prefix path)) p, v)) fs)) acc"
  using assms(1)
proof (induction fs arbitrary: acc)
  case (Cons f fs)
  obtain p v where f: "f = (p, v)" by fastforce
  obtain k where p: "p = dir_prefix path @ k" and k: "flat_key k"
    using Cons.prems by (auto simp: f flat_path_def) (metis append_take_drop_id)
  show ?case
    using Cons k by (simp add: f p assms(2) base_name_file has_prefix_def split: sum.split)
qed simp

lemma WalkPrefix_entries:
  assumes "db_ok d" and "flat_key pre"
  shows "WalkPrefix d pre fn acc = walk_entries fn (filter (\<lambda>(k, v). has_prefix pre k) (db_entries d)) acc"
  unfolding WalkPrefix_def db_entries_def peb_file_flat [OF assms(2)]
  by (rule walk_files_entries) (use assms(1) in \<open>simp_all add: db_ok_def\<close>)

lemma append_less [simp]: "q @ a < q @ b \<longleftrightarrow> a < (b :: string)"
  by (induction q) simp_all

lemma flat_path_split: "flat_path path p \<Longrightarrow> p = dir_prefix path @ drop (length (dir_prefix path)) p"
  by (metis append_take_drop_id flat_path_def)

lemma db_entries_sorted:
  assumes "db_ok d"
  shows "sorted_wrt (<) (map fst (db_entries d))"
proof -
  let ?n = "length (dir_prefix (db_path d))" and ?ps = "map fst (dsk_files (db_disk d))"
  have keys: "map fst (db_entries d) = map (drop ?n) ?ps"
    by (simp add: db_entries_def case_prod_unfold)
  have "drop ?n p < drop ?n p'" if "p \<in> set ?ps" "p' \<in> set ?ps" "p < p'" for p p'
    using that assms flat_path_split unfolding db_ok_def set_map by (metis append_less)
  moreover have "sorted_wrt (<) ?ps" using assms by (simp add: db_ok_def)
  ultimately have "sorted_wrt (\<lambda>p p'. drop ?n p < drop ?n p') ?ps"
    by (rule sorted_wrt_mono_rel)
  then show ?thesis unfolding keys by (simp only: sorted_wrt_map)
qed

lemma db_entries_Get:
  assumes "db_ok d" and "flat_key k"
  shows "(k, v) \<in> set (db_entries d) \<longleftrightarrow> peb_Get d k = Inr v"
proof -
  let ?fs = "dsk_files (db_disk d)"
  have "distinct (map fst ?fs)"
    using assms(1) strict_sorted_iff by (auto simp: db_ok_def)
  then have "(peb_file d k, v) \<in> set ?fs \<longleftrightarrow> map_of ?fs (peb_file d k) = Some v"
    by simp
  moreover have "(k, v) \<in> set (db_entries d) \<longleftrightarrow> (peb_file d k, v) \<in> set ?fs"
    using assms flat_path_split
    by (force simp: db_entries_def peb_file_flat db_ok_def)
  ultimately show ?thesis
    by (auto simp: peb_Get_ok [OF assms(1)] split: option.splits)
qed

section \<open>Properties\<close>


text \<open>The second write of this batch is refused: the first is visible, the error is reported.\<close>

definition demo_faulty :: "nat pebble_DB" where
  "demo_faulty =
     \<lparr>db_path = ''data'',
      db_disk = \<lparr>dsk_files = [], dsk_faults = [None, Some (Refused ''full'')], dsk_ReadErr = (\<lambda>_. None)\<rparr>\<rparr>"

definition demo_batch :: "nat Batch" where
  "demo_batch = [OpSet ''a'' 1, OpSet ''b'' 2]"


end
