(* ===== verification/Storage.thy ===== *)
theory Storage
  imports Consensus Pebble
begin

text \<open>
  Package \<open>storage\<close> (\<open>storage/storage.go\<close>): blocks, height index, transactions, unspent outputs, undo
  logs, total work and the tip, each under a string key of the Pebble store. A stored value is raw
  bytes or a JSON document; \<open>json.Marshal\<close> of a \<open>UTXO\<close> or of a slice of them is kept as the document's
  content, which \<open>json.Unmarshal\<close> returns unchanged, and unmarshalling anything else is \<open>ErrJSON\<close>. A
  batch is the list of its operations in the order the code appends them. The lemmas show that keys
  are injective, that keys of different kinds differ and that each names a file of its own. What the
  operations do to the set of unspent outputs is the subject of the next theory.
\<close>

datatype dbval = Bytes "byte list" | JsonUTXO UTXO | JsonUndo "UTXO list"

type_synonym DB = "dbval pebble_DB"

section \<open>Keys\<close>

definition keyBlockHeight :: "u64 \<Rightarrow> string" where
  "keyBlockHeight height = ''block:'' @ hex_EncodeToString (rev (PutUint64 height))"

definition keyBlockHash :: "hash \<Rightarrow> string" where
  "keyBlockHash h = ''blockhash:'' @ hex_EncodeToString (hash_bytes h)"

definition keyTx :: "hash \<Rightarrow> string" where
  "keyTx h = ''tx:'' @ hex_EncodeToString (hash_bytes h)"

definition keyUTXO :: "hash \<Rightarrow> u32 \<Rightarrow> string" where
  "keyUTXO h idx = ''utxo:'' @ hex_hash h @ '':'' @ dec_string (unat idx)"

definition keySpent :: "hash \<Rightarrow> u32 \<Rightarrow> string" where
  "keySpent h idx = ''spent:'' @ hex_hash h @ '':'' @ dec_string (unat idx)"

definition keyTotalWork :: "hash \<Rightarrow> string" where
  "keyTotalWork h = ''chain:totalwork:'' @ hex_EncodeToString (hash_bytes h)"

definition keyUndo :: "hash \<Rightarrow> string" where
  "keyUndo h = ''undo:'' @ hex_EncodeToString (hash_bytes h)"

definition keyTip :: string where
  "keyTip = ''chain:tip''"

section \<open>Reading\<close>

definition Open :: "string \<Rightarrow> error option \<Rightarrow> dbval disk \<Rightarrow> error + DB" where
  "Open path mkdir disk = peb_Open (filepath_Clean path) mkdir disk"

text \<open>A value read as raw bytes; a JSON document is never stored under such a key.\<close>

definition get_bytes :: "DB \<Rightarrow> string \<Rightarrow> error + byte list" where
  "get_bytes d key =
     (case peb_Get d key of
        Inl e \<Rightarrow> Inl e
      | Inr (Bytes bs) \<Rightarrow> Inr bs
      | Inr v \<Rightarrow> Inl ErrJSON)"

definition TotalWork :: "DB \<Rightarrow> hash \<Rightarrow> error + int" where
  "TotalWork d h =
     (case get_bytes d (keyTotalWork h) of
        Inl e \<Rightarrow> Inl e
      | Inr v \<Rightarrow>
          case big_SetString (bytes_string v) of
            None \<Rightarrow> Inl (ErrText ''corrupt total work'')
          | Some work \<Rightarrow> Inr work)"

definition GetBlock :: "DB \<Rightarrow> hash \<Rightarrow> error + Block" where
  "GetBlock d h =
     (case get_bytes d (keyBlockHash h) of Inl e \<Rightarrow> Inl e | Inr v \<Rightarrow> DeserializeBlock v)"

definition BlockHashByHeight :: "DB \<Rightarrow> u64 \<Rightarrow> error + hash" where
  "BlockHashByHeight d height =
     (case get_bytes d (keyBlockHeight height) of Inl e \<Rightarrow> Inl e | Inr v \<Rightarrow> Inr (copy_hash v))"

definition Tip :: "DB \<Rightarrow> error + hash" where
  "Tip d = (case get_bytes d keyTip of Inl e \<Rightarrow> Inl e | Inr v \<Rightarrow> Inr (copy_hash v))"

definition Get :: "DB \<Rightarrow> UTXOReader" where
  "Get d h idx =
     (case peb_Get d (keyUTXO h idx) of
        Inl e \<Rightarrow> Inl e
      | Inr (JsonUTXO u) \<Rightarrow> Inr u
      | Inr v \<Rightarrow> Inl ErrJSON)"

definition GetTx :: "DB \<Rightarrow> hash \<Rightarrow> error + Transaction" where
  "GetTx d h =
     (case get_bytes d (keyTx h) of Inl e \<Rightarrow> Inl e | Inr v \<Rightarrow> DeserializeTransaction v)"

definition Height :: "DB \<Rightarrow> error + u64" where
  "Height d =
     (case Tip d of
        Inl e \<Rightarrow> Inl e
      | Inr h \<Rightarrow> case GetBlock d h of Inl e \<Rightarrow> Inl e | Inr b \<Rightarrow> Inr (hdr_Height (blk_Header b)))"

definition ListUTXOs :: "DB \<Rightarrow> error + UTXO list" where
  "ListUTXOs d =
     WalkPrefix d ''utxo:''
       (\<lambda>_ v out. case v of JsonUTXO u \<Rightarrow> Inr (out @ [u]) | _ \<Rightarrow> Inl ErrJSON) []"

definition ListUTXOsByScript :: "DB \<Rightarrow> byte list \<Rightarrow> error + UTXO list" where
  "ListUTXOsByScript d script =
     (case ListUTXOs d of
        Inl e \<Rightarrow> Inl e
      | Inr all \<Rightarrow> Inr (filter (\<lambda>u. utxo_Script u = script) all))"

definition BalanceByScript :: "DB \<Rightarrow> byte list \<Rightarrow> error + u64" where
  "BalanceByScript d script =
     (case ListUTXOsByScript d script of
        Inl e \<Rightarrow> Inl e
      | Inr utxos \<Rightarrow>
          case checked_sum 0 (map utxo_Amount utxos) of
            None \<Rightarrow> Inl ErrInflation
          | Some tot \<Rightarrow> Inr tot)"

definition Undo :: "DB \<Rightarrow> hash \<Rightarrow> error + UTXO list" where
  "Undo d h =
     (case peb_Get d (keyUndo h) of
        Inl e \<Rightarrow> Inl e
      | Inr (JsonUndo us) \<Rightarrow> Inr us
      | Inr v \<Rightarrow> Inl ErrJSON)"

section \<open>Writing\<close>

definition PutTotalWork :: "DB \<Rightarrow> hash \<Rightarrow> int \<Rightarrow> DB \<times> error option" where
  "PutTotalWork d h work = peb_Set d (keyTotalWork h) (Bytes (string_bytes (big_String work)))"

definition SetTip :: "DB \<Rightarrow> hash \<Rightarrow> DB \<times> error option" where
  "SetTip d h = peb_Set d keyTip (Bytes (hash_bytes h))"

text \<open>Block record, height index and one record per transaction, as two operations batch them.\<close>

definition block_ops :: "Block \<Rightarrow> dbval Batch" where
  "block_ops b =
     [OpSet (keyBlockHash (blk_Hash b)) (Bytes (SerializeBlock b)),
      OpSet (keyBlockHeight (hdr_Height (blk_Header b))) (Bytes (hash_bytes (blk_Hash b)))]
     @ map (\<lambda>t. OpSet (keyTx (tx_Hash t)) (Bytes (SerializeTransaction t))) (blk_Transactions b)"

definition PutBlock :: "DB \<Rightarrow> Block \<Rightarrow> DB \<times> error option" where
  "PutBlock d b = peb_Commit (block_ops b @ [OpSet keyTip (Bytes (hash_bytes (blk_Hash b)))]) d"

definition PutUndo :: "DB \<Rightarrow> hash \<Rightarrow> UTXO list \<Rightarrow> DB \<times> error option" where
  "PutUndo d h undo = peb_Set d (keyUndo h) (JsonUndo undo)"

definition PutUTXO :: "DB \<Rightarrow> UTXO \<Rightarrow> DB \<times> error option" where
  "PutUTXO d u = peb_Set d (keyUTXO (utxo_TxHash u) (utxo_OutputIdx u)) (JsonUTXO u)"

definition SpendUTXO :: "DB \<Rightarrow> hash \<Rightarrow> u32 \<Rightarrow> DB \<times> error option" where
  "SpendUTXO d h idx = peb_Commit [OpDel (keyUTXO h idx), OpSet (keySpent h idx) (Bytes [1])] d"

text \<open>The outputs of a transaction as new unspent outputs; \<open>uint32(i)\<close> of the index.\<close>

definition output_utxos :: "u64 \<Rightarrow> bool \<Rightarrow> Transaction \<Rightarrow> UTXO list" where
  "output_utxos height coinbase t =
     map (\<lambda>(i, out). \<lparr>utxo_TxHash = tx_Hash t, utxo_OutputIdx = of_nat i, utxo_Amount = out_Amount out,
                      utxo_Script = out_LockingScript out, utxo_Height = height, utxo_Coinbase = coinbase\<rparr>)
       (enumerate 0 (tx_Outputs t))"

definition put_utxo_op :: "UTXO \<Rightarrow> dbval batch_op" where
  "put_utxo_op u = OpSet (keyUTXO (utxo_TxHash u) (utxo_OutputIdx u)) (JsonUTXO u)"

definition spend_ops :: "Transaction \<Rightarrow> dbval Batch" where
  "spend_ops t =
     (if IsCoinbase t then []
      else concat (map (\<lambda>inp.
        [OpDel (keyUTXO (in_PrevTxHash inp) (in_OutputIdx inp)),
         OpSet (keySpent (in_PrevTxHash inp) (in_OutputIdx inp)) (Bytes [1])]) (tx_Inputs t)))"

text \<open>The loop over \<open>b.Transactions\<close> from index \<open>ti\<close>: spend the inputs, create the outputs.\<close>

fun connect_ops :: "u64 \<Rightarrow> nat \<Rightarrow> Transaction list \<Rightarrow> dbval Batch" where
  "connect_ops height ti [] = []"
| "connect_ops height ti (t # ts) =
     spend_ops t @ map put_utxo_op (output_utxos height (ti = 0) t) @ connect_ops height (Suc ti) ts"

text \<open>The undo log: the unspent outputs the inputs name, those that are found.\<close>

definition found_input :: "DB \<Rightarrow> Input \<Rightarrow> UTXO list" where
  "found_input d inp =
     (case Get d (in_PrevTxHash inp) (in_OutputIdx inp) of Inl e \<Rightarrow> [] | Inr u \<Rightarrow> [u])"

definition collect_undo :: "DB \<Rightarrow> Transaction list \<Rightarrow> UTXO list" where
  "collect_undo d ts =
     concat (map (\<lambda>t. if IsCoinbase t then [] else concat (map (found_input d) (tx_Inputs t))) ts)"

definition ApplyBlock :: "DB \<Rightarrow> Block \<Rightarrow> DB \<times> error option" where
  "ApplyBlock d b =
     (let undo = collect_undo d (blk_Transactions b);
          batch = [OpSet (keyUndo (blk_Hash b)) (JsonUndo undo)] @ block_ops b
                  @ connect_ops (hdr_Height (blk_Header b)) 0 (blk_Transactions b)
                  @ [OpSet keyTip (Bytes (hash_bytes (blk_Hash b)))]
      in peb_Commit batch d)"

definition output_keys :: "Transaction \<Rightarrow> (hash \<times> u32) list" where
  "output_keys t = map (\<lambda>i. (tx_Hash t, of_nat i)) [0..<length (tx_Outputs t)]"

definition disconnect_batch :: "Block \<Rightarrow> UTXO list \<Rightarrow> dbval Batch" where
  "disconnect_batch b undo =
     concat (map (\<lambda>t. map (\<lambda>(h, i). OpDel (keyUTXO h i)) (output_keys t)) (blk_Transactions b))
     @ map put_utxo_op undo
     @ (if hdr_Height (blk_Header b) = 0 then [OpDel keyTip]
        else [OpSet keyTip (Bytes (hash_bytes (hdr_PrevHash (blk_Header b))))])"

text \<open>On a failing commit the code returns the block beside the error; no caller uses it then.\<close>

definition DisconnectTip :: "DB \<Rightarrow> DB \<times> (error + Block)" where
  "DisconnectTip d =
     (case Tip d of
        Inl e \<Rightarrow> (d, Inl e)
      | Inr h \<Rightarrow>
          case GetBlock d h of
            Inl e \<Rightarrow> (d, Inl e)
          | Inr b \<Rightarrow>
              case Undo d h of
                Inl e \<Rightarrow> (d, Inl e)
              | Inr undo \<Rightarrow>
                  case peb_Commit (disconnect_batch b undo) d of
                    (d', Some e) \<Rightarrow> (d', Inl e)
                  | (d', None) \<Rightarrow> (d', Inr b))"

section \<open>Lemmas: the keys are flat, injective and disjoint\<close>

lemmas key_defs =
  keyBlockHeight_def keyBlockHash_def keyTx_def keyUTXO_def keySpent_def keyTotalWork_def
  keyUndo_def keyTip_def

lemma hex_safe [simp]: "CHR ''/'' \<notin> set (hex_EncodeToString bs)"
  using hex_EncodeToString_chars by blast

lemma hex_hash_safe [simp]: "CHR ''/'' \<notin> set (hex_hash h)"
  by (simp add: hex_hash_def)

lemma dec_safe [simp]: "CHR ''/'' \<notin> set (dec_string n)"
  using dec_string_chars by blast

lemma flat_keys [simp]:
  "flat_key (keyBlockHeight k)" "flat_key (keyBlockHash h)" "flat_key (keyTx h)"
  "flat_key (keyUTXO h i)" "flat_key (keySpent h i)" "flat_key (keyTotalWork h)"
  "flat_key (keyUndo h)" "flat_key keyTip"
  by (simp_all add: flat_key_def key_defs)

lemma rev_PutUint64_inj: "rev (PutUint64 a) = rev (PutUint64 b) \<longleftrightarrow> a = b"
  by simp

lemma hex_inj [simp]: "hex_EncodeToString as = hex_EncodeToString bs \<longleftrightarrow> as = bs"
  using hex_EncodeToString_inj by blast

lemma key_inj [simp]:
  "keyBlockHeight a = keyBlockHeight b \<longleftrightarrow> a = b"
  "keyBlockHash h = keyBlockHash h' \<longleftrightarrow> h = h'"
  "keyTx h = keyTx h' \<longleftrightarrow> h = h'"
  "keyUTXO h i = keyUTXO h' i' \<longleftrightarrow> h = h' \<and> i = i'"
  "keySpent h i = keySpent h' i' \<longleftrightarrow> h = h' \<and> i = i'"
  "keyTotalWork h = keyTotalWork h' \<longleftrightarrow> h = h'"
  "keyUndo h = keyUndo h' \<longleftrightarrow> h = h'"
  by (auto simp: key_defs word_unat_eq_iff)

text \<open>Two keys of different kinds differ: the kind is a number that the key determines.\<close>

fun key_kind :: "string \<Rightarrow> nat" where
  "key_kind (c # s) =
     (if c = CHR ''b'' then (if take 5 s = ''lock:'' then 0 else 1)
      else if c = CHR ''t'' then 2
      else if c = CHR ''u'' then (if take 1 s = ''t'' then 3 else 4)
      else if c = CHR ''s'' then 5
      else if take 8 s = ''hain:tip'' then 6 else 7)"
| "key_kind [] = 8"

lemma key_kind [simp]:
  "key_kind (keyBlockHeight k) = 0" "key_kind (keyBlockHash h) = 1" "key_kind (keyTx h) = 2"
  "key_kind (keyUTXO h i) = 3" "key_kind (keyUndo h) = 4" "key_kind (keySpent h i) = 5"
  "key_kind keyTip = 6" "key_kind (keyTotalWork h) = 7"
  by (simp_all add: key_defs)

lemma key_kind_neq: "key_kind a \<noteq> key_kind b \<Longrightarrow> a \<noteq> b"
  by blast

end
