(* ===== verification/Ledger.thy ===== *)
theory Ledger
  imports Storage
begin

text \<open>
  The contract of the store. The abstract ledger is a map from outpoints to unspent outputs, with a
  step that connects a block and one that disconnects it; \<open>ApplyBlock\<close> and \<open>DisconnectTip\<close> of
  \<open>storage/storage.go\<close> implement them, the second undoes the first, and connecting a validated block
  adds at most its subsidy to the supply. The locale \<open>ledger_store\<close> is the interface the chain
  manager relies on. The stores reachable by the package's writes are well typed, on which the exact
  balance of a script rests.
\<close>

section \<open>The abstract ledger\<close>

text \<open>
  The specification of the unspent-output set: a map from outpoints, on which a block acts
  transaction by transaction, removing what is spent and adding what is created.
\<close>

type_synonym ledger = "(hash \<times> u32) \<Rightarrow> UTXO option"

definition outpoint :: "Input \<Rightarrow> hash \<times> u32" where
  "outpoint inp = (in_PrevTxHash inp, in_OutputIdx inp)"

definition utxo_key :: "UTXO \<Rightarrow> hash \<times> u32" where
  "utxo_key u = (utxo_TxHash u, utxo_OutputIdx u)"

definition spent_outpoints :: "Transaction \<Rightarrow> (hash \<times> u32) list" where
  "spent_outpoints t = (if IsCoinbase t then [] else map outpoint (tx_Inputs t))"

definition del_keys :: "(hash \<times> u32) list \<Rightarrow> ledger \<Rightarrow> ledger" where
  "del_keys ks m = m |` (- set ks)"

definition add_utxos :: "UTXO list \<Rightarrow> ledger \<Rightarrow> ledger" where
  "add_utxos us m = fold (\<lambda>u m. m(utxo_key u \<mapsto> u)) us m"

fun connect_txs :: "u64 \<Rightarrow> nat \<Rightarrow> Transaction list \<Rightarrow> ledger \<Rightarrow> ledger" where
  "connect_txs height ti [] m = m"
| "connect_txs height ti (t # ts) m =
     connect_txs height (Suc ti) ts
       (add_utxos (output_utxos height (ti = 0) t) (del_keys (spent_outpoints t) m))"

definition connect_block :: "Block \<Rightarrow> ledger \<Rightarrow> ledger" where
  "connect_block b = connect_txs (hdr_Height (blk_Header b)) 0 (blk_Transactions b)"

definition disconnect_block :: "Block \<Rightarrow> UTXO list \<Rightarrow> ledger \<Rightarrow> ledger" where
  "disconnect_block b undo m =
     add_utxos undo (del_keys (concat (map output_keys (blk_Transactions b))) m)"

text \<open>The unspent outputs that a list of transactions spends, which the undo log of a block keeps.\<close>

definition undo_log :: "ledger \<Rightarrow> Transaction list \<Rightarrow> UTXO list" where
  "undo_log m ts =
     concat (map (\<lambda>t. if IsCoinbase t then []
       else concat (map (\<lambda>inp. case m (outpoint inp) of None \<Rightarrow> [] | Some u \<Rightarrow> [u]) (tx_Inputs t))) ts)"

text \<open>The ledger a database holds.\<close>

definition utxo_of :: "(string \<Rightarrow> error + dbval) \<Rightarrow> ledger" where
  "utxo_of g = (\<lambda>(h, i). case g (keyUTXO h i) of Inr (JsonUTXO u) \<Rightarrow> Some u | _ \<Rightarrow> None)"

definition utxo_map :: "DB \<Rightarrow> ledger" where
  "utxo_map d = utxo_of (peb_Get d)"

lemma Get_iff: "Get d h i = Inr u \<longleftrightarrow> utxo_map d (h, i) = Some u"
  by (auto simp: Get_def utxo_map_def utxo_of_def split: sum.splits dbval.splits)

lemma Get_Inl: "(\<exists>e. Get d h i = Inl e) \<longleftrightarrow> utxo_map d (h, i) = None"
  by (auto simp: Get_def utxo_map_def utxo_of_def split: sum.splits dbval.splits)

section \<open>Lemmas: batches act on the ledger\<close>

lemma del_keys_simps [simp]:
  "del_keys [] m = m"
  "del_keys (k # ks) m = del_keys ks (m(k := None))"
  "del_keys (ks @ ks') m = del_keys ks' (del_keys ks m)"
  by (auto simp: del_keys_def restrict_map_def fun_eq_iff)

lemma add_utxos_simps [simp]:
  "add_utxos [] m = m"
  "add_utxos (u # us) m = add_utxos us (m(utxo_key u \<mapsto> u))"
  by (simp_all add: add_utxos_def)

lemma utxo_of_other:
  assumes "\<forall>op \<in> set ops. key_kind (op_key op) \<noteq> 3"
  shows "utxo_of (apply_ops ops g) = utxo_of g"
proof -
  have "keyUTXO h i \<notin> op_key ` set ops" for h i
    using assms key_kind(4) [of h i] by (metis imageE)
  then show ?thesis by (simp add: utxo_of_def apply_ops_other)
qed

lemma utxo_of_put: "utxo_of (apply_ops (map put_utxo_op us) g) = add_utxos us (utxo_of g)"
proof (induction us arbitrary: g)
  case (Cons u us)
  have "utxo_of (apply_op (put_utxo_op u) g) = (utxo_of g)(utxo_key u \<mapsto> u)"
    by (auto simp: utxo_of_def apply_op_def put_utxo_op_def utxo_key_def fun_eq_iff)
  then show ?case by (simp only: list.map apply_ops_simps Cons add_utxos_simps)
qed simp

lemma utxo_of_del: "utxo_of (g(keyUTXO h i := Inl e)) = (utxo_of g)((h, i) := None)"
  by (auto simp: utxo_of_def fun_eq_iff)

lemma utxo_of_neq: "key_kind k \<noteq> 3 \<Longrightarrow> utxo_of (g(k := v)) = utxo_of g"
  by (auto simp: utxo_of_def fun_eq_iff)

lemma utxo_of_del_ops:
  "utxo_of (apply_ops (map (\<lambda>(h, i). OpDel (keyUTXO h i)) ks) g) = del_keys ks (utxo_of g)"
  by (induction ks arbitrary: g) (auto simp: apply_op_def utxo_of_del)

lemma utxo_of_spend: "utxo_of (apply_ops (spend_ops t) g) = del_keys (spent_outpoints t) (utxo_of g)"
proof -
  have "utxo_of (apply_ops (concat (map (\<lambda>inp.
        [OpDel (keyUTXO (in_PrevTxHash inp) (in_OutputIdx inp)),
         OpSet (keySpent (in_PrevTxHash inp) (in_OutputIdx inp)) (Bytes [1])]) ins)) g)
      = del_keys (map outpoint ins) (utxo_of g)" for ins
    by (induction ins arbitrary: g) (simp_all add: apply_op_def utxo_of_del utxo_of_neq outpoint_def)
  then show ?thesis by (simp add: spend_ops_def spent_outpoints_def)
qed

lemma utxo_of_connect:
  "utxo_of (apply_ops (connect_ops height ti ts) g) = connect_txs height ti ts (utxo_of g)"
  by (induction ts arbitrary: ti g) (simp_all add: utxo_of_spend utxo_of_put)

section \<open>Lemmas: \<open>ApplyBlock\<close> and \<open>DisconnectTip\<close>\<close>

text \<open>The kinds of keys each part of a batch writes, and that all of them are flat.\<close>

lemma kinds_block_ops: "op \<in> set (block_ops b) \<Longrightarrow> key_kind (op_key op) \<in> {0, 1, 2}"
  by (auto simp: block_ops_def)

lemma kinds_connect_ops: "op \<in> set (connect_ops height ti ts) \<Longrightarrow> key_kind (op_key op) \<in> {3, 5}"
  by (induction ts arbitrary: ti) (auto simp: spend_ops_def put_utxo_op_def split: if_splits)

lemma flat_block_ops [simp]: "op \<in> set (block_ops b) \<Longrightarrow> flat_key (op_key op)"
  by (auto simp: block_ops_def)

lemma flat_connect_ops [simp]: "op \<in> set (connect_ops height ti ts) \<Longrightarrow> flat_key (op_key op)"
  by (induction ts arbitrary: ti) (auto simp: spend_ops_def put_utxo_op_def split: if_splits)

lemma flat_disconnect_batch [simp]: "op \<in> set (disconnect_batch b undo) \<Longrightarrow> flat_key (op_key op)"
  by (auto simp: disconnect_batch_def put_utxo_op_def split: if_splits)

definition apply_batch :: "DB \<Rightarrow> Block \<Rightarrow> dbval Batch" where
  "apply_batch d b =
     OpSet (keyUndo (blk_Hash b)) (JsonUndo (collect_undo d (blk_Transactions b))) # block_ops b
     @ connect_ops (hdr_Height (blk_Header b)) 0 (blk_Transactions b)
     @ [OpSet keyTip (Bytes (hash_bytes (blk_Hash b)))]"

lemma ApplyBlock_batch: "ApplyBlock d b = peb_Commit (apply_batch d b) d"
  by (simp add: ApplyBlock_def apply_batch_def)

lemma flat_apply_batch: "\<forall>op \<in> set (apply_batch d b). flat_key (op_key op)"
  by (auto simp: apply_batch_def)

lemma ApplyBlock_ok: "db_ok d \<Longrightarrow> ApplyBlock d b = (d', r) \<Longrightarrow> db_ok d'"
  unfolding ApplyBlock_batch by (rule commit_ok [OF _ flat_apply_batch])

lemma ApplyBlock_get:
  assumes "db_ok d" and "ApplyBlock d b = (d', None)" and "flat_key k"
  shows "peb_Get d' k = apply_ops (apply_batch d b) (peb_Get d) k"
  using commit_get [OF assms(1) flat_apply_batch] assms(2,3) by (simp add: ApplyBlock_batch)

lemma apply_ops_kind:
  "\<forall>op \<in> set ops. key_kind (op_key op) \<noteq> key_kind k \<Longrightarrow> apply_ops ops g k = g k"
  by (rule apply_ops_other) auto

lemma utxo_of_cong: "(\<And>h i. g (keyUTXO h i) = g' (keyUTXO h i)) \<Longrightarrow> utxo_of g = utxo_of g'"
  by (simp add: utxo_of_def)

lemma block_ops_not_utxo: "\<forall>op \<in> set (block_ops b). key_kind (op_key op) \<noteq> 3"
  using kinds_block_ops by fastforce

lemma ApplyBlock_ledger:
  assumes "db_ok d" and "ApplyBlock d b = (d', None)"
  shows "utxo_map d' = connect_block b (utxo_map d)"
proof -
  have "utxo_map d' = utxo_of (apply_ops (apply_batch d b) (peb_Get d))"
    unfolding utxo_map_def by (rule utxo_of_cong) (simp add: ApplyBlock_get [OF assms])
  also have "\<dots> = connect_block b (utxo_map d)"
    by (simp add: apply_batch_def apply_op_def utxo_of_neq utxo_of_connect connect_block_def
        utxo_map_def utxo_of_other [OF block_ops_not_utxo])
  finally show ?thesis .
qed

text \<open>What each kind of key reads after a block was applied.\<close>

lemma ApplyBlock_reads:
  assumes "db_ok d" and "ApplyBlock d b = (d', None)"
  shows "peb_Get d' keyTip = Inr (Bytes (hash_bytes (blk_Hash b)))"
    and "peb_Get d' (keyUndo h) =
           (if h = blk_Hash b then Inr (JsonUndo (collect_undo d (blk_Transactions b)))
            else peb_Get d (keyUndo h))"
    and "peb_Get d' (keyBlockHash h) =
           (if h = blk_Hash b then Inr (Bytes (SerializeBlock b)) else peb_Get d (keyBlockHash h))"
    and "peb_Get d' (keyBlockHeight n) =
           (if n = hdr_Height (blk_Header b) then Inr (Bytes (hash_bytes (blk_Hash b)))
            else peb_Get d (keyBlockHeight n))"
    and "peb_Get d' (keyTotalWork h) = peb_Get d (keyTotalWork h)"
proof -
  let ?c = "connect_ops (hdr_Height (blk_Header b)) 0 (blk_Transactions b)"
  have c: "apply_ops ?c g k = g k" if "key_kind k \<notin> {3, 5}" for g k
    using that kinds_connect_ops by (intro apply_ops_kind) fastforce
  have t: "apply_ops (map (\<lambda>t. OpSet (keyTx (tx_Hash t)) (Bytes (SerializeTransaction t)))
      (blk_Transactions b)) g k = g k" if "key_kind k \<noteq> 2" for g k
    using that by (intro apply_ops_kind) auto
  note r = ApplyBlock_get [OF assms] apply_batch_def block_ops_def apply_op_def c t
  show "peb_Get d' keyTip = Inr (Bytes (hash_bytes (blk_Hash b)))" by (simp add: r)
  show "peb_Get d' (keyUndo h) =
      (if h = blk_Hash b then Inr (JsonUndo (collect_undo d (blk_Transactions b)))
       else peb_Get d (keyUndo h))"
    by (simp add: r key_kind_neq)
  show "peb_Get d' (keyBlockHash h) =
      (if h = blk_Hash b then Inr (Bytes (SerializeBlock b)) else peb_Get d (keyBlockHash h))"
    by (simp add: r key_kind_neq)
  show "peb_Get d' (keyBlockHeight n) =
      (if n = hdr_Height (blk_Header b) then Inr (Bytes (hash_bytes (blk_Hash b)))
       else peb_Get d (keyBlockHeight n))"
    by (simp add: r key_kind_neq)
  show "peb_Get d' (keyTotalWork h) = peb_Get d (keyTotalWork h)"
    by (simp add: r key_kind_neq)
qed

lemma DeserializeBlock_Serialize: "wf_Block b \<Longrightarrow> DeserializeBlock (SerializeBlock b) = Inr b"
  using block_codec.dec_enc [of b "[]"] by (simp add: DeserializeBlock_def SerializeBlock_def)

text \<open>The same, through the operations of the package.\<close>

lemma ApplyBlock_state:
  assumes "db_ok d" and "ApplyBlock d b = (d', None)"
  shows "Tip d' = Inr (blk_Hash b)"
    and "Undo d' (blk_Hash b) = Inr (collect_undo d (blk_Transactions b))"
    and "BlockHashByHeight d' n =
           (if n = hdr_Height (blk_Header b) then Inr (blk_Hash b) else BlockHashByHeight d n)"
    and "TotalWork d' h = TotalWork d h"
    and "wf_Block b \<Longrightarrow> GetBlock d' (blk_Hash b) = Inr b"
    and "h \<noteq> blk_Hash b \<Longrightarrow> GetBlock d' h = GetBlock d h"
    and "h \<noteq> blk_Hash b \<Longrightarrow> Undo d' h = Undo d h"
  by (simp_all add: Tip_def Undo_def BlockHashByHeight_def TotalWork_def GetBlock_def get_bytes_def
      ApplyBlock_reads [OF assms] DeserializeBlock_Serialize)

lemma PutTotalWork_state:
  assumes "db_ok d" and "PutTotalWork d h w = (d', None)"
  shows "db_ok d'" and "utxo_map d' = utxo_map d" and "Tip d' = Tip d"
    and "TotalWork d' h' = (if h' = h then Inr w else TotalWork d h')"
    and "GetBlock d' h' = GetBlock d h'" and "BlockHashByHeight d' n = BlockHashByHeight d n"
    and "Undo d' h' = Undo d h'"
proof -
  show "db_ok d'"
    using peb.put_ok [OF assms(1) flat_keys(6) assms(2) [unfolded PutTotalWork_def]] .
  have g: "peb_Get d' k = (if k = keyTotalWork h then Inr (Bytes (string_bytes (big_String w)))
      else peb_Get d k)" if "flat_key k" for k
    using assms peb.get_put [OF assms(1) _ that] by (simp add: PutTotalWork_def)
  show "utxo_map d' = utxo_map d"
    unfolding utxo_map_def by (rule utxo_of_cong) (simp add: g key_kind_neq)
  show "Tip d' = Tip d" "TotalWork d' h' = (if h' = h then Inr w else TotalWork d h')"
    "GetBlock d' h' = GetBlock d h'" "BlockHashByHeight d' n = BlockHashByHeight d n"
    "Undo d' h' = Undo d h'"
    by (simp_all add: Tip_def TotalWork_def GetBlock_def BlockHashByHeight_def Undo_def get_bytes_def
        g key_kind_neq)
qed

lemma DisconnectTip_Inr:
  assumes "DisconnectTip d = (d', Inr b)"
  obtains h undo where "Tip d = Inr h" "GetBlock d h = Inr b" "Undo d h = Inr undo"
    and "peb_Commit (disconnect_batch b undo) d = (d', None)"
  using assms
  by (auto simp: DisconnectTip_def split: sum.splits prod.splits option.splits)

lemma disconnect_get:
  assumes "db_ok d" and "peb_Commit (disconnect_batch b undo) d = (d', None)" and "flat_key k"
  shows "peb_Get d' k = apply_ops (disconnect_batch b undo) (peb_Get d) k"
  using commit_get [OF assms(1) _ assms(2,3)] by simp

lemma concat_output_ops:
  "concat (map (\<lambda>t. map (\<lambda>(h, i). OpDel (keyUTXO h i)) (output_keys t)) ts)
     = map (\<lambda>(h, i). OpDel (keyUTXO h i)) (concat (map output_keys ts))"
  by (simp add: map_concat o_def)

lemma disconnect_ledger:
  assumes "db_ok d" and "peb_Commit (disconnect_batch b undo) d = (d', None)"
  shows "utxo_map d' = disconnect_block b undo (utxo_map d)"
proof -
  have "utxo_map d' = utxo_of (apply_ops (disconnect_batch b undo) (peb_Get d))"
    unfolding utxo_map_def by (rule utxo_of_cong) (simp add: disconnect_get [OF assms])
  also have "\<dots> = disconnect_block b undo (utxo_map d)"
    unfolding disconnect_batch_def concat_output_ops
    by (simp add: apply_op_def utxo_of_neq utxo_of_put utxo_of_del_ops disconnect_block_def utxo_map_def)
  finally show ?thesis .
qed

lemma disconnect_reads:
  assumes "db_ok d" and "peb_Commit (disconnect_batch b undo) d = (d', None)"
  shows "peb_Get d' keyTip = (if hdr_Height (blk_Header b) = 0 then Inl ErrNotFound
                              else Inr (Bytes (hash_bytes (hdr_PrevHash (blk_Header b)))))"
    and "flat_key k \<Longrightarrow> key_kind k \<notin> {3, 6} \<Longrightarrow> peb_Get d' k = peb_Get d k"
proof -
  show "peb_Get d' keyTip = (if hdr_Height (blk_Header b) = 0 then Inl ErrNotFound
                             else Inr (Bytes (hash_bytes (hdr_PrevHash (blk_Header b)))))"
    by (simp add: disconnect_get [OF assms] disconnect_batch_def apply_op_def)
  assume k: "flat_key k" "key_kind k \<notin> {3, 6}"
  have "\<forall>op \<in> set (disconnect_batch b undo). key_kind (op_key op) \<in> {3, 6}"
    by (auto simp: disconnect_batch_def put_utxo_op_def)
  then show "peb_Get d' k = peb_Get d k"
    using k by (simp only: disconnect_get [OF assms k(1)]) (rule apply_ops_kind, metis)
qed

lemma disconnect_state:
  assumes "db_ok d" and "peb_Commit (disconnect_batch b undo) d = (d', None)"
  shows "Tip d' = (if hdr_Height (blk_Header b) = 0 then Inl ErrNotFound
                   else Inr (hdr_PrevHash (blk_Header b)))"
    and "GetBlock d' h = GetBlock d h" and "BlockHashByHeight d' n = BlockHashByHeight d n"
    and "TotalWork d' h = TotalWork d h" and "Undo d' h = Undo d h" and "db_ok d'"
  using commit_ok [OF assms(1) _ assms(2)]
  by (simp_all add: Tip_def GetBlock_def BlockHashByHeight_def TotalWork_def Undo_def get_bytes_def
      disconnect_reads [OF assms])

section \<open>Lemmas: disconnecting undoes connecting\<close>

lemma del_keys_apply: "del_keys ks m k = (if k \<in> set ks then None else m k)"
  by (simp add: del_keys_def restrict_map_def)

lemma add_utxos_other: "k \<notin> utxo_key ` set us \<Longrightarrow> add_utxos us m k = m k"
  by (induction us arbitrary: m) auto

lemma add_utxos_same:
  assumes "\<forall>u \<in> set us. m0 (utxo_key u) = Some u" and "k \<in> utxo_key ` set us"
  shows "add_utxos us m k = m0 k"
  using assms
proof (induction us arbitrary: m)
  case (Cons u us)
  then show ?case by (cases "k \<in> utxo_key ` set us") (auto simp: add_utxos_other)
qed simp

lemma keys_output_utxos: "map utxo_key (output_utxos height c t) = output_keys t"
  by (rule nth_equalityI)
    (simp_all add: output_utxos_def output_keys_def utxo_key_def nth_enumerate_eq)

lemma connect_txs_frame:
  assumes "k \<notin> set (concat (map spent_outpoints ts))" and "k \<notin> set (concat (map output_keys ts))"
  shows "connect_txs height ti ts m k = m k"
  using assms
proof (induction ts arbitrary: ti m)
  case (Cons t ts)
  have "k \<notin> utxo_key ` set (output_utxos height (ti = 0) t)"
    using Cons.prems keys_output_utxos [of height "ti = 0" t] by (auto simp flip: set_map)
  then show ?case using Cons by (simp add: add_utxos_other del_keys_apply)
qed simp

text \<open>Every entry of the ledger is filed under its own outpoint.\<close>

definition utxo_keyed :: "ledger \<Rightarrow> bool" where
  "utxo_keyed m \<longleftrightarrow> (\<forall>k u. m k = Some u \<longrightarrow> utxo_key u = k)"

lemma utxo_keyedD: "utxo_keyed m \<Longrightarrow> m k = Some u \<Longrightarrow> utxo_key u = k"
  unfolding utxo_keyed_def by blast

lemma utxo_keyed_upd: "utxo_keyed m \<Longrightarrow> utxo_keyed (m(utxo_key u \<mapsto> u))"
  unfolding utxo_keyed_def by (simp del: split_paired_All)

lemma utxo_keyed_add: "utxo_keyed m \<Longrightarrow> utxo_keyed (add_utxos us m)"
  by (induction us arbitrary: m) (simp_all only: add_utxos_simps utxo_keyed_upd)

lemma utxo_keyed_del: "utxo_keyed m \<Longrightarrow> utxo_keyed (del_keys ks m)"
  unfolding utxo_keyed_def by (simp del: split_paired_All add: del_keys_apply)

lemma utxo_keyed_connect: "utxo_keyed m \<Longrightarrow> utxo_keyed (connect_txs height ti ts m)"
  by (induction ts arbitrary: ti m) (simp_all add: utxo_keyed_add utxo_keyed_del)

lemma set_spent_outpoints:
  "k \<in> set (concat (map spent_outpoints ts)) \<longleftrightarrow>
     (\<exists>t \<in> set ts. \<not> IsCoinbase t \<and> (\<exists>inp \<in> set (tx_Inputs t). k = outpoint inp))"
  by (force simp: spent_outpoints_def)

lemma collect_undo_log: "collect_undo d ts = undo_log (utxo_map d) ts"
proof -
  have "found_input d inp = (case utxo_map d (outpoint inp) of None \<Rightarrow> [] | Some u \<Rightarrow> [u])" for inp
  proof (cases "utxo_map d (outpoint inp)")
    case None
    then show ?thesis
      using Get_iff [of d "in_PrevTxHash inp" "in_OutputIdx inp"]
      by (auto simp: found_input_def outpoint_def split: sum.splits)
  next
    case (Some u)
    then have "Get d (in_PrevTxHash inp) (in_OutputIdx inp) = Inr u" by (simp add: Get_iff outpoint_def)
    then show ?thesis using Some by (simp add: found_input_def)
  qed
  then have "found_input d = (\<lambda>inp. case utxo_map d (outpoint inp) of None \<Rightarrow> [] | Some u \<Rightarrow> [u])" by (intro ext)
  then show ?thesis by (simp only: collect_undo_def undo_log_def)
qed

lemma set_undo_log:
  "u \<in> set (undo_log m ts) \<longleftrightarrow> (\<exists>k \<in> set (concat (map spent_outpoints ts)). m k = Some u)"
proof -
  have "u \<in> set (undo_log m ts) \<longleftrightarrow>
      (\<exists>t \<in> set ts. \<not> IsCoinbase t \<and> (\<exists>inp \<in> set (tx_Inputs t). m (outpoint inp) = Some u))"
    by (force simp: undo_log_def split: option.splits)
  then show ?thesis unfolding Bex_def set_spent_outpoints by blast
qed

lemma disconnect_connect:
  assumes "utxo_keyed m"
    and spent: "\<forall>k \<in> set (concat (map spent_outpoints (blk_Transactions b))). m k \<noteq> None"
    and fresh: "\<forall>k \<in> set (concat (map output_keys (blk_Transactions b))). m k = None"
  shows "disconnect_block b (undo_log m (blk_Transactions b)) (connect_block b m)
         = m"
proof
  fix k
  let ?ts = "blk_Transactions b" and ?us = "undo_log m (blk_Transactions b)"
  let ?m = "del_keys (concat (map output_keys ?ts)) (connect_block b m)"
  have undo: "utxo_key u \<in> set (concat (map spent_outpoints ?ts)) \<and> m (utxo_key u) = Some u"
    if u: "u \<in> set ?us" for u
  proof -
    obtain k where "k \<in> set (concat (map spent_outpoints ?ts))" "m k = Some u"
      using u unfolding set_undo_log by blast
    then show ?thesis using utxo_keyedD [OF assms(1)] by metis
  qed
  have us: "\<forall>u \<in> set ?us. m (utxo_key u) = Some u" using undo by blast
  have keys: "utxo_key ` set ?us = set (concat (map spent_outpoints ?ts))"
  proof
    show "utxo_key ` set ?us \<subseteq> set (concat (map spent_outpoints ?ts))" using undo by blast
    show "set (concat (map spent_outpoints ?ts)) \<subseteq> utxo_key ` set ?us"
    proof
      fix k assume k: "k \<in> set (concat (map spent_outpoints ?ts))"
      then obtain u where u: "m k = Some u" using spent by blast
      then have "u \<in> set ?us" using k unfolding set_undo_log by blast
      moreover have "k = utxo_key u" using utxo_keyedD [OF assms(1) u] by simp
      ultimately show "k \<in> utxo_key ` set ?us" by blast
    qed
  qed
  show "disconnect_block b ?us (connect_block b m) k = m k"
  proof (cases "k \<in> utxo_key ` set ?us")
    case True
    then show ?thesis using us unfolding disconnect_block_def by (rule add_utxos_same [rotated])
  next
    case False
    then have "disconnect_block b ?us (connect_block b m) k = ?m k"
      by (simp add: disconnect_block_def add_utxos_other)
    also have "\<dots> = m k"
      using False fresh connect_txs_frame [of k ?ts]
      by (simp add: keys del_keys_apply connect_block_def del: set_concat)
    finally show ?thesis .
  qed
qed

section \<open>Lemmas: supply\<close>

text \<open>The amount of an entry and the sum of all entries; outpoints are a finite type.\<close>

definition entry_value :: "UTXO option \<Rightarrow> nat" where
  "entry_value x = (case x of None \<Rightarrow> 0 | Some u \<Rightarrow> unat (utxo_Amount u))"

definition total_supply :: "ledger \<Rightarrow> nat" where
  "total_supply m = (\<Sum>k \<in> UNIV. entry_value (m k))"

text \<open>The supply outside the outpoints \<open>P\<close> that the rest of a block will still spend.\<close>

definition supply_outside :: "(hash \<times> u32) set \<Rightarrow> ledger \<Rightarrow> nat" where
  "supply_outside P m = (\<Sum>k \<in> - P. entry_value (m k))"

lemma supply_outside_del:
  "supply_outside (P - set ks) (del_keys ks m) = supply_outside (P \<union> set ks) m"
proof -
  have "- (P - set ks) = - (P \<union> set ks) \<union> set ks" by blast
  then have "supply_outside (P - set ks) (del_keys ks m)
      = (\<Sum>k \<in> - (P \<union> set ks). entry_value (del_keys ks m k)) + (\<Sum>k \<in> set ks. entry_value (del_keys ks m k))"
    unfolding supply_outside_def by (simp add: sum.union_disjoint)
  then show ?thesis
    by (simp add: supply_outside_def del_keys_apply entry_value_def)
qed

lemma supply_outside_add:
  "supply_outside P (add_utxos us m)
     \<le> supply_outside P m + sum_list (map (\<lambda>u. unat (utxo_Amount u)) us)"
proof (induction us arbitrary: m)
  case (Cons u us)
  have "supply_outside P (m(utxo_key u \<mapsto> u)) \<le> supply_outside P m + unat (utxo_Amount u)"
  proof -
    have "(\<Sum>k \<in> - P. entry_value ((m(utxo_key u \<mapsto> u)) k))
        \<le> (\<Sum>k \<in> - P. entry_value (m k) + (if k = utxo_key u then unat (utxo_Amount u) else 0))"
      by (rule sum_mono) (simp add: entry_value_def)
    then show ?thesis by (simp add: supply_outside_def sum.distrib split: if_splits)
  qed
  then show ?case
    using Cons.IH [of "m(utxo_key u \<mapsto> u)"] unfolding add_utxos_simps list.map sum_list.Cons
    by linarith
qed simp

lemma sum_output_utxos:
  "sum_list (map (\<lambda>u. unat (utxo_Amount u)) (output_utxos height c t)) = output_total t"
proof -
  have "map (\<lambda>u. unat (utxo_Amount u)) (output_utxos height c t)
      = map (\<lambda>out. unat (out_Amount out)) (tx_Outputs t)"
    by (rule nth_equalityI) (simp_all add: output_utxos_def nth_enumerate_eq)
  then show ?thesis by (simp add: output_total_def)
qed

lemma connect_txs_supply:
  assumes "distinct (concat (map spent_outpoints ts))"
    and "set (concat (map spent_outpoints ts)) \<subseteq> P"
  shows "supply_outside (P - set (concat (map spent_outpoints ts))) (connect_txs height ti ts m)
           \<le> supply_outside P m + sum_list (map output_total ts)"
  using assms
proof (induction ts arbitrary: ti m P)
  case (Cons t ts)
  let ?K = "set (spent_outpoints t)" and ?R = "set (concat (map spent_outpoints ts))"
  let ?m = "add_utxos (output_utxos height (ti = 0) t) (del_keys (spent_outpoints t) m)"
  have "P - set (concat (map spent_outpoints (t # ts))) = (P - ?K) - ?R" by auto
  moreover have "supply_outside ((P - ?K) - ?R) (connect_txs height (Suc ti) ts ?m)
      \<le> supply_outside (P - ?K) ?m + sum_list (map output_total ts)"
    using Cons.prems by (intro Cons.IH) auto
  moreover have "supply_outside (P - ?K) ?m \<le> supply_outside (P - ?K) (del_keys (spent_outpoints t) m)
      + output_total t"
    using supply_outside_add [of "P - ?K" "output_utxos height (ti = 0) t"]
    by (simp only: sum_output_utxos)
  moreover have "supply_outside (P - ?K) (del_keys (spent_outpoints t) m) = supply_outside P m"
    using Cons.prems(2) by (simp add: supply_outside_del Un_absorb2)
  ultimately show ?case by simp
qed simp

lemma supply_split: "total_supply m = supply_outside P m + (\<Sum>k \<in> P. entry_value (m k))"
  unfolding total_supply_def supply_outside_def Compl_eq_Diff_UNIV
  by (rule sum.subset_diff) simp_all

lemma sum_list_concat: "sum_list (concat xss) = sum_list (map sum_list (xss :: nat list list))"
  by (induction xss) simp_all

section \<open>The contract of the ledger store\<close>

text \<open>
  What the node relies on from its store, with \<open>view\<close> the ledger it stands for: lookups read the
  ledger, and connecting a block is the abstract step. Its clients' facts follow once and for all.
\<close>

locale ledger_store =
  fixes inv :: "'s \<Rightarrow> bool" and view :: "'s \<Rightarrow> ledger" and get :: "'s \<Rightarrow> UTXOReader"
    and connect :: "'s \<Rightarrow> Block \<Rightarrow> 's \<times> error option"
  assumes get_view: "inv s \<Longrightarrow> get s h i = Inr u \<longleftrightarrow> view s (h, i) = Some u"
    and connect_inv: "inv s \<Longrightarrow> connect s b = (s', r) \<Longrightarrow> inv s'"
    and connect_view: "inv s \<Longrightarrow> connect s b = (s', None) \<Longrightarrow> view s' = connect_block b (view s)"
begin

lemma input_value_view:
  assumes "inv s"
  shows "input_value (get s) inp = entry_value (view s (outpoint inp))"
proof (cases "get s (in_PrevTxHash inp) (in_OutputIdx inp)")
  case (Inl e)
  then have "view s (outpoint inp) \<noteq> Some u" for u
    using get_view [OF assms, of "in_PrevTxHash inp" "in_OutputIdx inp" u] by (simp add: outpoint_def)
  then have "view s (outpoint inp) = None" by blast
  with Inl show ?thesis by (simp add: input_value_def entry_value_def)
next
  case (Inr u)
  then have "view s (outpoint inp) = Some u" by (simp add: get_view [OF assms] outpoint_def)
  with Inr show ?thesis by (simp add: input_value_def entry_value_def)
qed

lemma sum_input_total:
  assumes "inv s" and "\<forall>t \<in> set txs. \<not> IsCoinbase t"
    and "distinct (concat (map spent_outpoints txs))"
  shows "(\<Sum>k \<in> set (concat (map spent_outpoints txs)). entry_value (view s k))
           = sum_list (map (input_total (get s)) txs)"
proof -
  have "map (\<lambda>k. entry_value (view s k)) (concat (map spent_outpoints txs))
      = concat (map (\<lambda>t. map (input_value (get s)) (tx_Inputs t)) txs)"
    using assms(2)
    by (induction txs) (simp_all add: spent_outpoints_def input_value_view [OF assms(1)])
  moreover have "(\<Sum>k \<in> set (concat (map spent_outpoints txs)). entry_value (view s k))
      = sum_list (map (\<lambda>k. entry_value (view s k)) (concat (map spent_outpoints txs)))"
    using assms(3) by (rule sum_list_distinct_conv_sum_set [symmetric])
  ultimately show ?thesis
    by (simp add: sum_list_concat input_total_def [abs_def] o_def)
qed

text \<open>A block whose transactions validate adds at most its subsidy to the supply.\<close>

lemma connect_supply:
  assumes "inv s" and "ValidateBlockTransactionsAt b (get s) verifier h = None"
    and "connect s b = (s', None)"
  shows "total_supply (view s')
           \<le> total_supply (view s) + unat (BlockReward (hdr_Height (blk_Header b)))"
proof -
  obtain coinbase txs where b: "blk_Transactions b = coinbase # txs" "IsCoinbase coinbase"
    and t: "\<forall>t \<in> set txs. tx_ok (get s) verifier h t"
    and d: "distinct (map input_key (block_inputs txs))"
    and c: "output_total coinbase \<le> unat (BlockReward (hdr_Height (blk_Header b)))
            + sum_list (map (fee_of (get s)) txs)"
    using assms(2) by (rule ValidateBlockTransactionsAt_None)
  have nc: "\<forall>t \<in> set txs. \<not> IsCoinbase t" using t tx_ok_not_coinbase by blast
  then have sp: "concat (map spent_outpoints txs) = map outpoint (block_inputs txs)"
    by (induction txs) (simp_all add: spent_outpoints_def)
  have "distinct (map outpoint (block_inputs txs))"
    using d by (auto simp: distinct_map inj_on_def outpoint_def)
  then have dist: "distinct (concat (map spent_outpoints txs))" by (simp only: sp)
  let ?P = "set (concat (map spent_outpoints txs))"
  have all: "concat (map spent_outpoints (blk_Transactions b)) = concat (map spent_outpoints txs)"
    using b by (simp add: spent_outpoints_def)
  have "total_supply (view s') = supply_outside (?P - ?P) (view s')"
    by (simp add: total_supply_def supply_outside_def)
  also have "\<dots> \<le> supply_outside ?P (view s) + sum_list (map output_total (blk_Transactions b))"
    using connect_txs_supply [of "blk_Transactions b" ?P "hdr_Height (blk_Header b)" 0 "view s"]
      dist all by (simp only: connect_view [OF assms(1,3)] connect_block_def subset_refl)
  finally have "total_supply (view s')
      \<le> supply_outside ?P (view s) + sum_list (map output_total (blk_Transactions b))" .
  moreover have "sum_list (map (input_total (get s)) txs)
      = sum_list (map output_total txs) + sum_list (map (fee_of (get s)) txs)"
    using t by (induction txs) (auto dest: tx_ok_fee(1))
  ultimately show ?thesis
    using c b supply_split [of "view s" ?P] sum_input_total [OF assms(1) nc dist] by simp
qed

lemma connect_keyed:
  "inv s \<Longrightarrow> utxo_keyed (view s) \<Longrightarrow> connect s b = (s', None) \<Longrightarrow> utxo_keyed (view s')"
  by (simp add: connect_view [of s b s'] connect_block_def utxo_keyed_connect)

end

interpretation store: ledger_store db_ok utxo_map Get ApplyBlock
  by (rule ledger_store.intro) (rule Get_iff ApplyBlock_ok ApplyBlock_ledger; assumption)+

section \<open>Lemmas: the store is well typed\<close>

text \<open>What the package stores under each kind of key.\<close>

inductive typed :: "string \<Rightarrow> dbval \<Rightarrow> bool" where
  typed_utxo: "typed (keyUTXO (utxo_TxHash u) (utxo_OutputIdx u)) (JsonUTXO u)"
| typed_undo: "typed (keyUndo h) (JsonUndo us)"
| typed_block: "typed (keyBlockHash (blk_Hash b)) (Bytes (SerializeBlock b))"
| typed_height: "typed (keyBlockHeight n) (Bytes (hash_bytes h))"
| typed_tx: "typed (keyTx (tx_Hash t)) (Bytes (SerializeTransaction t))"
| typed_spent: "typed (keySpent h i) (Bytes [1])"
| typed_work: "typed (keyTotalWork h) (Bytes (string_bytes (big_String w)))"
| typed_tip: "typed keyTip (Bytes (hash_bytes h))"

definition store_typed :: "DB \<Rightarrow> bool" where
  "store_typed d \<longleftrightarrow> (\<forall>k v. flat_key k \<longrightarrow> peb_Get d k = Inr v \<longrightarrow> typed k v)"

fun op_typed :: "dbval batch_op \<Rightarrow> bool" where
  "op_typed (OpDel k) \<longleftrightarrow> flat_key k"
| "op_typed (OpSet k v) \<longleftrightarrow> flat_key k \<and> typed k v"

lemma apply_ops_typed:
  assumes "\<forall>op \<in> set ops. op_typed op" and "\<forall>v. g k = Inr v \<longrightarrow> typed k v"
    and "apply_ops ops g k = Inr v"
  shows "typed k v"
  using assms
proof (induction ops arbitrary: g)
  case (Cons op ops)
  have "\<forall>v. apply_op op g k = Inr v \<longrightarrow> typed k v"
    using Cons.prems(1,2) by (cases op) (auto simp: apply_op_def)
  then show ?case using Cons.IH [of "apply_op op g"] Cons.prems(1,3) by simp
qed simp

lemma op_typed_flat: "op_typed op \<Longrightarrow> flat_key (op_key op)"
  by (cases op) simp_all

lemma commit_typed:
  assumes "db_ok d" and "store_typed d" and "\<forall>op \<in> set ops. op_typed op"
    and "peb_Commit ops d = (d', None)"
  shows "store_typed d'"
  unfolding store_typed_def
proof (intro allI impI)
  fix k v assume k: "flat_key k" "peb_Get d' k = Inr v"
  have "\<forall>op \<in> set ops. flat_key (op_key op)" using assms(3) op_typed_flat by blast
  then have "apply_ops ops (peb_Get d) k = Inr v" using commit_get [OF assms(1) _ assms(4) k(1)] k(2) by simp
  then show "typed k v"
    using assms(2,3) k(1) by (intro apply_ops_typed [of ops "peb_Get d"]) (auto simp: store_typed_def)
qed

lemma set_typed:
  assumes "db_ok d" and "store_typed d" and "flat_key k" and "typed k v"
    and "peb_Set d k v = (d', None)"
  shows "store_typed d'"
  using assms(2,4) peb.get_put [OF assms(1,3) _ assms(5)] by (auto simp: store_typed_def)

lemma op_typed_put_utxo [simp]: "op_typed (put_utxo_op u)"
  by (simp add: put_utxo_op_def typed_utxo)

lemma op_typed_block_ops: "op \<in> set (block_ops b) \<Longrightarrow> op_typed op"
  by (auto simp: block_ops_def intro: typed.intros)

lemma op_typed_connect_ops: "op \<in> set (connect_ops height ti ts) \<Longrightarrow> op_typed op"
  by (induction ts arbitrary: ti)
    (auto simp: spend_ops_def intro: typed_spent split: if_splits)

lemma op_typed_apply_batch: "\<forall>op \<in> set (apply_batch d b). op_typed op"
  by (auto simp: apply_batch_def intro: typed.intros op_typed_block_ops op_typed_connect_ops)

lemma op_typed_disconnect_batch: "\<forall>op \<in> set (disconnect_batch b undo). op_typed op"
  by (auto simp: disconnect_batch_def intro: typed.intros)

text \<open>One successful write of the package, and the stores reachable from an empty directory.\<close>

inductive store_step :: "DB \<Rightarrow> DB \<Rightarrow> bool" where
  "PutTotalWork d h w = (d', None) \<Longrightarrow> store_step d d'"
| "SetTip d h = (d', None) \<Longrightarrow> store_step d d'"
| "PutBlock d b = (d', None) \<Longrightarrow> store_step d d'"
| "PutUndo d h us = (d', None) \<Longrightarrow> store_step d d'"
| "PutUTXO d u = (d', None) \<Longrightarrow> store_step d d'"
| "SpendUTXO d h i = (d', None) \<Longrightarrow> store_step d d'"
| "ApplyBlock d b = (d', None) \<Longrightarrow> store_step d d'"
| "DisconnectTip d = (d', Inr b) \<Longrightarrow> store_step d d'"

definition empty_disk :: "dbval fault option list \<Rightarrow> dbval disk" where
  "empty_disk faults = \<lparr>dsk_files = [], dsk_faults = faults, dsk_ReadErr = (\<lambda>_. None)\<rparr>"

inductive store_reachable :: "DB \<Rightarrow> bool" where
  store_open: "Open path None (empty_disk faults) = Inr d \<Longrightarrow> store_reachable d"
| store_more: "store_reachable d \<Longrightarrow> store_step d d' \<Longrightarrow> store_reachable d'"

lemma store_step_ok:
  assumes "store_step d d'" and "db_ok d" and "store_typed d"
  shows "db_ok d' \<and> store_typed d'"
proof -
  have set: "db_ok d' \<and> store_typed d'" if "peb_Set d k v = (d', None)" "flat_key k" "typed k v" for k v
    using that set_typed [OF assms(2,3) that(2,3,1)] peb.put_ok [OF assms(2) that(2,1)] by simp
  have com: "db_ok d' \<and> store_typed d'"
    if "peb_Commit ops d = (d', None)" "\<forall>op \<in> set ops. op_typed op" for ops
    using commit_typed [OF assms(2,3) that(2,1)] commit_ok [OF assms(2) _ that(1)] that(2) op_typed_flat
    by blast
  from assms(1) show ?thesis
  proof cases
    case 1
    then show ?thesis unfolding PutTotalWork_def by (rule set) (simp_all add: typed.intros)
  next
    case 2
    then show ?thesis unfolding SetTip_def by (rule set) (simp_all add: typed.intros)
  next
    case 3
    then show ?thesis
      unfolding PutBlock_def by (rule com) (auto intro: op_typed_block_ops typed_tip)
  next
    case 4
    then show ?thesis unfolding PutUndo_def by (rule set) (simp_all add: typed.intros)
  next
    case 5
    then show ?thesis unfolding PutUTXO_def by (rule set) (simp_all add: typed.intros)
  next
    case 6
    then show ?thesis unfolding SpendUTXO_def by (rule com) (simp add: typed.intros)
  next
    case 7
    then show ?thesis unfolding ApplyBlock_batch by (rule com [OF _ op_typed_apply_batch])
  next
    case 8
    then show ?thesis by (rule DisconnectTip_Inr) (rule com [OF _ op_typed_disconnect_batch])
  qed
qed

lemma peb_Get_empty: "dsk_files (db_disk d) = [] \<Longrightarrow> dsk_ReadErr (db_disk d) = (\<lambda>_. None)
    \<Longrightarrow> peb_Get d k = Inl ErrNotFound"
  by (simp add: peb_Get_def os_ReadFile_def)

lemma store_reachable_ok: "store_reachable d \<Longrightarrow> db_ok d \<and> store_typed d"
proof (induction rule: store_reachable.induct)
  case (store_open path faults d)
  then have "dsk_files (db_disk d) = []" "dsk_ReadErr (db_disk d) = (\<lambda>_. None)"
    by (auto simp: Open_def peb_Open_def empty_disk_def)
  then show ?case by (simp add: db_ok_def store_typed_def peb_Get_empty)
next
  case (store_more d d')
  then show ?case using store_step_ok by blast
qed

lemma typed_inv:
  "typed (keyBlockHash h) v \<Longrightarrow> \<exists>b. h = blk_Hash b \<and> v = Bytes (SerializeBlock b)"
  "typed (keyUTXO h i) v \<Longrightarrow> \<exists>u. v = JsonUTXO u \<and> utxo_key u = (h, i)"
  "typed (keyTotalWork h) v \<Longrightarrow> \<exists>w. v = Bytes (string_bytes (big_String w))"
  by (erule typed.cases; force dest: arg_cong [where f = key_kind] simp: utxo_key_def)+

lemma typed_prefix: "typed k v \<Longrightarrow> has_prefix ''utxo:'' k \<Longrightarrow>
    \<exists>u. k = keyUTXO (utxo_TxHash u) (utxo_OutputIdx u) \<and> v = JsonUTXO u"
  by (erule typed.cases) (auto simp: has_prefix_def key_defs)

text \<open>A block is filed under its own hash, even when it exceeds the reader's limits.\<close>

lemma DeserializeBlock_header:
  assumes "DeserializeBlock (SerializeBlock b) = Inr b'"
  shows "blk_Header b' = blk_Header b"
proof -
  obtain rest where "ReadBlock (SerializeBlock b) = Inr (b', rest)"
    using assms by (cases "ReadBlock (SerializeBlock b)") (auto simp: DeserializeBlock_def)
  then have "SerializeBlock b = SerializeBlock b' @ rest"
    using block_codec.dec_sound by (simp add: SerializeBlock_def)
  then have "WriteHeader (blk_Header b) = WriteHeader (blk_Header b')"
    by (simp add: SerializeBlock_def WriteBlock_def length_WriteHeader)
  then show ?thesis by (rule WriteHeader_inj [symmetric])
qed

lemma GetBlock_hash:
  assumes "store_typed d" and "GetBlock d h = Inr b"
  shows "blk_Hash b = h"
proof -
  obtain v where v: "peb_Get d (keyBlockHash h) = Inr (Bytes v)" "DeserializeBlock v = Inr b"
    using assms(2) by (auto simp: GetBlock_def get_bytes_def split: sum.splits dbval.splits)
  then have "typed (keyBlockHash h) (Bytes v)" using assms(1) by (simp add: store_typed_def)
  then show ?thesis using v(2) DeserializeBlock_header typed_inv(1) by (fastforce simp: blk_Hash_def)
qed

lemma store_typed_keyed: "store_typed d \<Longrightarrow> utxo_keyed (utxo_map d)"
  unfolding utxo_keyed_def
proof (intro allI impI)
  fix k u assume "store_typed d" and "utxo_map d k = Some u"
  moreover obtain h i where k: "k = (h, i)" by fastforce
  ultimately have "peb_Get d (keyUTXO h i) = Inr (JsonUTXO u)"
    by (auto simp: utxo_map_def utxo_of_def split: sum.splits dbval.splits)
  then have "typed (keyUTXO h i) (JsonUTXO u)"
    using \<open>store_typed d\<close> by (simp add: store_typed_def)
  then show "utxo_key u = k" using typed_inv(2) k by blast
qed

section \<open>Lemmas: listing and balances\<close>

lemma walk_utxos:
  assumes "\<forall>(k, v) \<in> set es. \<exists>u. v = JsonUTXO u"
  shows "walk_entries (\<lambda>_ v out. case v of JsonUTXO u \<Rightarrow> Inr (out @ [u]) | _ \<Rightarrow> Inl ErrJSON) es acc
         = Inr (acc @ map (\<lambda>(k, v). case v of JsonUTXO u \<Rightarrow> u) es)"
  using assms by (induction es arbitrary: acc) auto

lemma ListUTXOs_typed:
  assumes "db_ok d" and "store_typed d"
  obtains us where "ListUTXOs d = Inr us" and "distinct (map utxo_key us)"
    and "\<And>u. u \<in> set us \<longleftrightarrow> utxo_map d (utxo_key u) = Some u"
proof -
  define es where "es = filter (\<lambda>(k, v). has_prefix ''utxo:'' k) (db_entries d)"
  define us where "us = map (\<lambda>(k, v). case v of JsonUTXO u \<Rightarrow> u) es"
  have flat: "flat_key k" if "(k, v) \<in> set (db_entries d)" for k v
    using that assms(1) by (auto simp: db_entries_def db_ok_def flat_path_def)
  have es: "\<exists>u. k = keyUTXO (utxo_TxHash u) (utxo_OutputIdx u) \<and> v = JsonUTXO u"
    if "(k, v) \<in> set es" for k v
  proof -
    have "(k, v) \<in> set (db_entries d)" "has_prefix ''utxo:'' k" using that by (auto simp: es_def)
    moreover from this have "peb_Get d k = Inr v" using db_entries_Get [OF assms(1) flat] by blast
    ultimately show ?thesis using assms(2) flat typed_prefix by (simp add: store_typed_def)
  qed
  have key_us: "map (\<lambda>u. keyUTXO (utxo_TxHash u) (utxo_OutputIdx u)) us = map fst es"
    unfolding us_def by (force dest: es)
  show thesis
  proof
    have "\<forall>(k, v) \<in> set es. \<exists>u. v = JsonUTXO u" using es by blast
    then show "ListUTXOs d = Inr us"
      unfolding ListUTXOs_def us_def
      by (subst WalkPrefix_entries [OF assms(1)]) (simp_all add: flat_key_def walk_utxos flip: es_def)
    have "sorted_wrt (<) (map fst es)"
      using db_entries_sorted [OF assms(1)] unfolding es_def
      by (auto simp: sorted_wrt_map intro: sorted_wrt_filter)
    then have "distinct (map (\<lambda>u. keyUTXO (utxo_TxHash u) (utxo_OutputIdx u)) us)"
      unfolding key_us using strict_sorted_iff by blast
    then show "distinct (map utxo_key us)" by (auto simp: distinct_map inj_on_def utxo_key_def)
    show "u \<in> set us \<longleftrightarrow> utxo_map d (utxo_key u) = Some u" for u
    proof -
      let ?k = "keyUTXO (utxo_TxHash u) (utxo_OutputIdx u)"
      have "u \<in> set us \<longleftrightarrow> (?k, JsonUTXO u) \<in> set es"
      proof
        assume "u \<in> set us"
        then obtain k v where "(k, v) \<in> set es" "u = (case v of JsonUTXO u \<Rightarrow> u)"
          by (auto simp: us_def)
        with es show "(?k, JsonUTXO u) \<in> set es" by fastforce
      qed (force simp: us_def)
      also have "\<dots> \<longleftrightarrow> peb_Get d ?k = Inr (JsonUTXO u)"
        using db_entries_Get [OF assms(1) flat_keys(4)]
        by (simp add: es_def has_prefix_def keyUTXO_def)
      also have "\<dots> \<longleftrightarrow> utxo_map d (utxo_key u) = Some u"
        by (auto simp: utxo_map_def utxo_of_def utxo_key_def split: sum.splits dbval.splits)
      finally show ?thesis .
    qed
  qed
qed

text \<open>What a script owns, over the naturals.\<close>

definition owned :: "ledger \<Rightarrow> byte list \<Rightarrow> nat" where
  "owned m script =
     (\<Sum>k \<in> UNIV. case m k of None \<Rightarrow> 0
                   | Some u \<Rightarrow> if utxo_Script u = script then unat (utxo_Amount u) else 0)"

lemma owned_list:
  assumes "distinct (map utxo_key us)" and "\<And>u. u \<in> set us \<longleftrightarrow> m (utxo_key u) = Some u"
    and "utxo_keyed m"
  shows "owned m script = sum_list (map (\<lambda>u. unat (utxo_Amount u)) (filter (\<lambda>u. utxo_Script u = script) us))"
proof -
  let ?f = "\<lambda>u. if utxo_Script u = script then unat (utxo_Amount u) else 0"
  let ?g = "\<lambda>k. case m k of None \<Rightarrow> 0 | Some u \<Rightarrow> ?f u"
  have "sum_list (map (\<lambda>u. unat (utxo_Amount u)) (filter (\<lambda>u. utxo_Script u = script) us))
      = sum_list (map ?f us)"
    by (induction us) simp_all
  also have "\<dots> = (\<Sum>u \<in> set us. ?f u)"
    using assms(1) by (simp add: distinct_map sum_list_distinct_conv_sum_set)
  also have "\<dots> = (\<Sum>u \<in> set us. ?g (utxo_key u))"
    using assms(2) by (intro sum.cong) auto
  also have "\<dots> = (\<Sum>k \<in> utxo_key ` set us. ?g k)"
    using assms(1) by (simp add: distinct_map sum.reindex)
  also have "\<dots> = (\<Sum>k \<in> UNIV. ?g k)"
  proof (rule sum.mono_neutral_left)
    have "m k = None" if "k \<notin> utxo_key ` set us" for k
      using that assms(2) utxo_keyedD [OF assms(3)] by (cases "m k") (metis imageI)+
    then show "\<forall>k \<in> UNIV - utxo_key ` set us. ?g k = 0" by simp
  qed simp_all
  finally show ?thesis by (simp add: owned_def)
qed

lemma BalanceByScript_typed:
  assumes "db_ok d" and "store_typed d"
  shows "BalanceByScript d script =
     (if owned (utxo_map d) script < 2 ^ 64 then Inr (of_nat (owned (utxo_map d) script))
      else Inl ErrInflation)"
proof -
  obtain us where us: "ListUTXOs d = Inr us" "distinct (map utxo_key us)"
    "\<And>u. u \<in> set us \<longleftrightarrow> utxo_map d (utxo_key u) = Some u"
    using ListUTXOs_typed [OF assms] by blast
  let ?as = "map utxo_Amount (filter (\<lambda>u. utxo_Script u = script) us)"
  have own: "owned (utxo_map d) script = sum_list (map unat ?as)"
    using owned_list [OF us(2,3) store_typed_keyed [OF assms(2)]] by (simp add: o_def)
  show ?thesis
  proof (cases "checked_sum 0 ?as")
    case None
    then show ?thesis
      using us(1) own checked_sum_None_iff [of 0 ?as]
      by (simp add: BalanceByScript_def ListUTXOsByScript_def)
  next
    case (Some s)
    then have own': "owned (utxo_map d) script = unat s" using own checked_sum_unat [OF Some] by simp
    show ?thesis
      unfolding own' using us(1) Some unat_u64_less [of s]
      by (simp add: BalanceByScript_def ListUTXOsByScript_def)
  qed
qed

section \<open>Properties\<close>

text \<open>
  C6. \<open>ApplyBlock\<close> implements the abstract ledger step. When it succeeds on a database in order, the
  unspent outputs are exactly those of connecting the block transaction by transaction; the tip, the
  height index and the undo log are those of the block; other heights and blocks are untouched; and
  the block reads back, provided it is within the reader's limits.
\<close>

theorem ApplyBlock_refines:
  assumes "db_ok d" and "ApplyBlock d b = (d', None)"
  shows "db_ok d' \<and> utxo_map d' = connect_block b (utxo_map d)
    \<and> Tip d' = Inr (blk_Hash b)
    \<and> Undo d' (blk_Hash b) = Inr (collect_undo d (blk_Transactions b))
    \<and> BlockHashByHeight d' (hdr_Height (blk_Header b)) = Inr (blk_Hash b)
    \<and> (\<forall>n. n \<noteq> hdr_Height (blk_Header b) \<longrightarrow> BlockHashByHeight d' n = BlockHashByHeight d n)
    \<and> (\<forall>h. h \<noteq> blk_Hash b \<longrightarrow> GetBlock d' h = GetBlock d h)
    \<and> (wf_Block b \<longrightarrow> GetBlock d' (blk_Hash b) = Inr b)"
  using ApplyBlock_ok [OF assms] ApplyBlock_ledger [OF assms] ApplyBlock_state [OF assms] by simp

definition demo_db :: DB where
  "demo_db = \<lparr>db_path = ''data'', db_disk = empty_disk []\<rparr>"

lemma demo_db_ok [simp]: "db_ok demo_db" "dsk_faults (db_disk demo_db) = []"
  "peb_Get demo_db k = Inl ErrNotFound"
  by (simp_all add: demo_db_def empty_disk_def db_ok_def peb_Get_empty)

lemma demo_db_ledger [simp]: "utxo_map demo_db = (\<lambda>_. None)"
  by (auto simp: utxo_map_def utxo_of_def)

lemma ApplyBlock_no_faults:
  "dsk_faults (db_disk d) = [] \<Longrightarrow>
     \<exists>d'. ApplyBlock d b = (d', None) \<and> dsk_faults (db_disk d') = []"
  unfolding ApplyBlock_batch by (rule peb_Commit_no_faults)

theorem ApplyBlock_refines_witness:
  "\<exists>d'. ApplyBlock demo_db demo_block = (d', None)
     \<and> utxo_map d' = connect_block demo_block (\<lambda>_. None) \<and> Tip d' = Inr (blk_Hash demo_block)"
proof -
  obtain d' where "ApplyBlock demo_db demo_block = (d', None)"
    using ApplyBlock_no_faults [of demo_db] by auto
  then show ?thesis using ApplyBlock_refines [OF demo_db_ok(1)] by fastforce
qed


lemma demo_db_typed [simp]: "store_typed demo_db"
  by (simp add: store_typed_def)

definition demo_genesis :: Block where
  "demo_genesis = CreateGenesisBlock Regtest"

lemma demo_genesis_facts:
  "wf_Block demo_genesis" "concat (map spent_outpoints (blk_Transactions demo_genesis)) = []"
  by (simp_all add: demo_genesis_def CreateGenesisBlock_def wf_Block_def wf_NewCoinbase
      GenesisMessage_def string_bytes_def spent_outpoints_def Let_def)


text \<open>
  No money from nothing: if the transactions of a block validate against the store and the
  block is applied, the sum of all unspent outputs grows by at most the subsidy of the block's
  height. Outputs that overwrite an existing outpoint only lower it.
\<close>

theorem ApplyBlock_supply:
  assumes "db_ok d" and "ValidateBlockTransactionsAt b (Get d) verifier h = None"
    and "ApplyBlock d b = (d', None)"
  shows "total_supply (utxo_map d')
           \<le> total_supply (utxo_map d) + 50000000000 div 2 ^ (unat (hdr_Height (blk_Header b)) div 2102400)"
  using store.connect_supply [OF assms] by (simp add: unat_BlockReward subsidy_def)

definition demo_db1 :: DB where
  "demo_db1 = fst (PutUTXO demo_db demo_utxo)"

lemma demo_db1_facts:
  "db_ok demo_db1" "Get demo_db1 = demo_view" "dsk_faults (db_disk demo_db1) = []"
proof -
  have p: "peb_Set demo_db (keyUTXO 7 0) (JsonUTXO demo_utxo) = (demo_db1, None)"
    using peb_Set_no_faults [OF demo_db_ok(2)]
    by (simp add: demo_db1_def PutUTXO_def demo_utxo_def)
  show "db_ok demo_db1" using peb.put_ok [OF demo_db_ok(1) flat_keys(4) p] .
  show "Get demo_db1 = demo_view"
    using peb.get_put [OF demo_db_ok(1) flat_keys(4) flat_keys(4) p]
    by (auto simp: Get_def demo_view_def fun_eq_iff)
  show "dsk_faults (db_disk demo_db1) = []"
    by (simp add: demo_db1_def PutUTXO_def peb_Set_no_faults put_file_def)
qed

theorem ApplyBlock_supply_witness:
  "\<exists>d'. ApplyBlock demo_db1 demo_block = (d', None)
     \<and> total_supply (utxo_map d')
         \<le> total_supply (utxo_map demo_db1)
           + 50000000000 div 2 ^ (unat (hdr_Height (blk_Header demo_block)) div 2102400)"
proof -
  obtain d' where "ApplyBlock demo_db1 demo_block = (d', None)"
    using ApplyBlock_no_faults [OF demo_db1_facts(3)] by blast
  then show ?thesis
    using ApplyBlock_supply [OF demo_db1_facts(1), of demo_block None 101] demo_block_valid
    by (auto simp: demo_db1_facts(2))
qed

text \<open>
  C16. Every store that the package's successful writes reach from an empty directory is well typed:
  it is in order, each key holds the kind of value its readers expect, a block read back has the
  hash it was asked for, an unspent output is filed under its own outpoint, and a total work never
  reads as corrupt.
\<close>

theorem store_reachable_typed:
  assumes "store_reachable d"
  shows "db_ok d \<and> store_typed d
    \<and> (\<forall>h b. GetBlock d h = Inr b \<longrightarrow> blk_Hash b = h)
    \<and> (\<forall>h i u. Get d h i = Inr u \<longrightarrow> utxo_TxHash u = h \<and> utxo_OutputIdx u = i)
    \<and> (\<forall>h. TotalWork d h \<noteq> Inl (ErrText ''corrupt total work''))"
proof -
  have ok: "db_ok d" "store_typed d" using store_reachable_ok [OF assms] by simp_all
  have "TotalWork d h \<noteq> Inl (ErrText ''corrupt total work'')" for h
  proof (cases "peb_Get d (keyTotalWork h)")
    case (Inl e)
    then show ?thesis
      using ok(1) by (auto simp: TotalWork_def get_bytes_def peb_Get_ok split: option.splits)
  next
    case (Inr v)
    then have "typed (keyTotalWork h) v" using ok(2) by (simp add: store_typed_def)
    then obtain w where "v = Bytes (string_bytes (big_String w))" using typed_inv(3) by blast
    with Inr show ?thesis by (simp add: TotalWork_def get_bytes_def)
  qed
  moreover have "utxo_TxHash u = h \<and> utxo_OutputIdx u = i" if "Get d h i = Inr u" for h i u
    using that utxo_keyedD [OF store_typed_keyed [OF ok(2)]] by (auto simp: Get_iff utxo_key_def)
  ultimately show ?thesis using ok GetBlock_hash [OF ok(2)] by blast
qed

lemma demo_db1_reachable: "store_reachable demo_db1"
proof -
  have "Open ''data'' None (empty_disk []) = Inr demo_db"
    by (simp add: Open_def peb_Open_def demo_db_def filepath_Clean_def clean_elems_def is_rooted_def
        clean_step_def)
  then have "store_reachable demo_db" by (rule store_open)
  moreover have "store_step demo_db demo_db1"
    by (intro store_step.intros(5) [of _ demo_utxo])
      (simp add: demo_db1_def PutUTXO_def peb_Set_no_faults)
  ultimately show ?thesis by (rule store_more)
qed

theorem store_reachable_typed_witness:
  "store_reachable demo_db1 \<and> Get demo_db1 7 0 = Inr demo_utxo \<and> utxo_TxHash demo_utxo = 7"
  using store_reachable_typed [OF demo_db1_reachable] demo_db1_reachable
  by (simp add: demo_db1_facts(2) demo_view_def)

text \<open>
  \<open>BalanceByScript\<close> is exact on every reachable store: it returns the sum of all unspent outputs
  locked by the script, or \<open>ErrInflation\<close> when that sum does not fit in 64 bits, and nothing else.
\<close>

theorem BalanceByScript_exact:
  assumes "store_reachable d"
  shows "BalanceByScript d script =
     (if owned (utxo_map d) script < 2 ^ 64 then Inr (of_nat (owned (utxo_map d) script))
      else Inl ErrInflation)"
  using store_reachable_ok [OF assms] BalanceByScript_typed by blast

lemma demo_db1_owned: "owned (utxo_map demo_db1) [1, 2] = 1000"
proof -
  have u: "utxo_map demo_db1 k = (if k = (7, 0) then Some demo_utxo else None)" for k
    using Get_iff [of demo_db1 "fst k" "snd k"] Get_Inl [of demo_db1 "fst k" "snd k"]
    by (cases k) (auto simp: demo_db1_facts(2) demo_view_def split: if_splits)
  have "owned (utxo_map demo_db1) [1, 2] = (\<Sum>k \<in> UNIV. if k = (7 :: hash, 0 :: u32) then 1000 else 0)"
    unfolding owned_def by (rule sum.cong) (simp_all add: u demo_utxo_def)
  then show ?thesis by simp
qed

theorem BalanceByScript_exact_witness: "BalanceByScript demo_db1 [1, 2] = Inr 1000"
  using BalanceByScript_exact [OF demo_db1_reachable, of "[1, 2]"] by (simp add: demo_db1_owned)

end
