(* ===== verification/Mempool.thy ===== *)
theory Mempool
  imports Consensus "HOL-Library.AList" "HOL-Library.Multiset"
begin

text \<open>
  Package \<open>mempool\<close> (\<open>mempool/mempool.go\<close>). The map of entries is an association list with distinct
  keys; Go visits a map in any order, so each loop over it takes a ranking of the hashes and visits
  the entries by rank, which yields every order. The reader of unspent outputs and the verifier,
  fields of the struct, are arguments of the one method that uses them, and so is the clock. Each
  method holds the mutex throughout, so the methods are atomic steps. \<open>int64\<close> counters are 64-bit
  words compared as signed numbers, and the fee-rate comparison multiplies with wrap-around as the
  code does. The lemmas give the invariant that ties entries, spent outpoints and the byte counter
  together, and what eviction and the fee order guarantee.
\<close>

record Entry =
  ent_Tx :: Transaction
  ent_Fee :: u64
  ent_Size :: i64
  ent_Added :: int

record Mempool =
  mp_txs :: "(hash \<times> Entry) list"
  mp_spends :: "string \<Rightarrow> hash option"
  mp_maxBytes :: i64
  mp_bytes :: i64

type_synonym ranking = "hash \<Rightarrow> nat"

definition iterate :: "ranking \<Rightarrow> (hash \<times> Entry) list \<Rightarrow> (hash \<times> Entry) list" where
  "iterate rank txs = sort_key (\<lambda>(h, e). rank h) txs"

definition mp_New :: "i64 \<Rightarrow> Mempool" where
  "mp_New maxBytes = \<lparr>mp_txs = [], mp_spends = (\<lambda>_. None), mp_maxBytes = maxBytes, mp_bytes = 0\<rparr>"

text \<open>The deletion of one entry, which three methods spell out: map, byte counter, outpoints.\<close>

definition delete_entry :: "hash \<Rightarrow> Entry \<Rightarrow> Mempool \<Rightarrow> Mempool" where
  "delete_entry h e m =
     m\<lparr>mp_txs := AList.delete h (mp_txs m), mp_bytes := mp_bytes m - ent_Size e,
       mp_spends := fold (\<lambda>inp s. s(OutpointKey (in_PrevTxHash inp) (in_OutputIdx inp) := None))
                      (tx_Inputs (ent_Tx e)) (mp_spends m)\<rparr>"

text \<open>\<open>a.Fee*uint64(b.Size) < b.Fee*uint64(a.Size)\<close>, the fee-rate comparison of eviction and order.\<close>

definition rate_less :: "Entry \<Rightarrow> Entry \<Rightarrow> bool" where
  "rate_less a b \<longleftrightarrow> ent_Fee a * ent_Size b < ent_Fee b * ent_Size a"

text \<open>The scan of \<open>evictLowest\<close>; \<open>None\<close> is the state in which \<open>first\<close> is still true.\<close>

fun evict_scan :: "(hash \<times> Entry) list \<Rightarrow> (hash \<times> Entry) option \<Rightarrow> (hash \<times> Entry) option" where
  "evict_scan [] low = low"
| "evict_scan ((h, e) # es) low =
     (case low of
        None \<Rightarrow> evict_scan es (Some (h, e))
      | Some (l, le) \<Rightarrow> evict_scan es (if rate_less e le then Some (h, e) else Some (l, le)))"

definition evictLowest :: "ranking \<Rightarrow> Mempool \<Rightarrow> Mempool \<times> bool" where
  "evictLowest rank m =
     (case evict_scan (iterate rank (mp_txs m)) None of
        None \<Rightarrow> (m, False)
      | Some (low, e) \<Rightarrow> (delete_entry low e m, True))"

lemma evict_scan_mem:
  "evict_scan es low = Some x \<Longrightarrow> x \<in> set es \<or> low = Some x"
  by (induction es arbitrary: low) (auto split: option.splits if_splits prod.splits, blast+)

lemma set_iterate [simp]: "set (iterate rank txs) = set txs"
  by (simp add: iterate_def)

lemma length_delete_less:
  "x \<in> set xs \<Longrightarrow> length (AList.delete (fst x) xs) < length xs"
  by (auto simp: AList.delete_eq intro!: length_filter_less)

text \<open>
  The loop of \<open>Add\<close> that makes room; each round may visit the map in another order. A round that
  evicts removes an entry, so the loop ends.
\<close>

function make_room :: "(nat \<Rightarrow> ranking) \<Rightarrow> nat \<Rightarrow> i64 \<Rightarrow> Mempool \<Rightarrow> Mempool" where
  "make_room ranks n sz m =
     (if sint (mp_bytes m + sz) > sint (mp_maxBytes m) then
        case evictLowest (ranks n) m of
          (m', evicted) \<Rightarrow> if \<not> evicted then m' else make_room ranks (Suc n) sz m'
      else m)"
  by pat_completeness auto
termination
proof (relation "measure (\<lambda>(r, n, s, m). length (mp_txs m))", goal_cases)
  case 1
  show ?case by simp
next
  case (2 ranks n sz m m' evicted)
  then obtain h e where s: "evict_scan (iterate (ranks n) (mp_txs m)) None = Some (h, e)"
    and m': "m' = delete_entry h e m"
    by (auto simp: evictLowest_def split: option.splits)
  have "(h, e) \<in> set (mp_txs m)" using evict_scan_mem [OF s] by simp
  then show ?case using length_delete_less by (fastforce simp: m' delete_entry_def)
qed

declare make_room.simps [simp del]

definition mp_Add ::
  "(nat \<Rightarrow> ranking) \<Rightarrow> int \<Rightarrow> UTXOReader \<Rightarrow> SignatureVerifier option \<Rightarrow> Mempool \<Rightarrow> Transaction \<Rightarrow>
     Mempool \<times> error option" where
  "mp_Add ranks now utxos verifier m t =
     (let spent = dom (mp_spends m)
      in case fst (ValidateTransaction t utxos verifier spent) of
           Inl e \<Rightarrow> (m, Some e)
         | Inr fee \<Rightarrow>
             let h = tx_Hash t;
                 size = of_nat (length (SerializeTransaction t));
                 m = make_room ranks 0 size m;
                 e = \<lparr>ent_Tx = t, ent_Fee = fee, ent_Size = size, ent_Added = now\<rparr>
             in (m\<lparr>mp_txs := AList.update h e (mp_txs m), mp_bytes := mp_bytes m + size,
                   mp_spends := fold (\<lambda>inp s. s(OutpointKey (in_PrevTxHash inp) (in_OutputIdx inp) \<mapsto> h))
                                  (tx_Inputs t) (mp_spends m)\<rparr>, None))"

text \<open>
  \<open>sort.Slice\<close> with the comparison above, highest rate first. The standard library fixes the result up
  to entries of equal rate, whose order the map's visiting order already leaves open; insertion sort
  is one such sort.
\<close>

fun insert_by_rate :: "Entry \<Rightarrow> Entry list \<Rightarrow> Entry list" where
  "insert_by_rate x [] = [x]"
| "insert_by_rate x (y # ys) = (if rate_less x y then y # insert_by_rate x ys else x # y # ys)"

definition EntriesByFeeRate :: "ranking \<Rightarrow> Mempool \<Rightarrow> Entry list" where
  "EntriesByFeeRate rank m = foldr insert_by_rate (map snd (iterate rank (mp_txs m))) []"

definition Snapshot :: "ranking \<Rightarrow> Mempool \<Rightarrow> Transaction list" where
  "Snapshot rank m = map ent_Tx (EntriesByFeeRate rank m)"

definition mp_Remove :: "Mempool \<Rightarrow> hash \<Rightarrow> Mempool" where
  "mp_Remove m h =
     (case map_of (mp_txs m) h of None \<Rightarrow> m | Some e \<Rightarrow> delete_entry h e m)"

definition remove_mined_tx :: "Transaction \<Rightarrow> Mempool \<Rightarrow> Mempool" where
  "remove_mined_tx t m =
     (if IsCoinbase t then m
      else case map_of (mp_txs m) (tx_Hash t) of
        None \<Rightarrow> m
      | Some e \<Rightarrow> delete_entry (tx_Hash t) e m)"

definition RemoveMinedBlock :: "Mempool \<Rightarrow> Block \<Rightarrow> Mempool" where
  "RemoveMinedBlock m b = fold remove_mined_tx (blk_Transactions b) m"

definition mp_Size :: "Mempool \<Rightarrow> nat" where
  "mp_Size m = length (mp_txs m)"

section \<open>The invariant\<close>

definition entry_keys :: "Entry \<Rightarrow> string set" where
  "entry_keys e = set (input_keys (ent_Tx e))"

text \<open>
  Keys are distinct; each entry is filed under the hash of its transaction, which is not a coinbase,
  with its serialized size;
  an outpoint is marked as spent by exactly the entry that spends it, so no two entries share one;
  the byte counter is the sum of the sizes.
\<close>

definition mp_inv :: "Mempool \<Rightarrow> bool" where
  "mp_inv m \<longleftrightarrow>
     distinct (map fst (mp_txs m))
     \<and> (\<forall>(h, e) \<in> set (mp_txs m). h = tx_Hash (ent_Tx e)
          \<and> ent_Size e = of_nat (length (SerializeTransaction (ent_Tx e)))
          \<and> distinct (input_keys (ent_Tx e)) \<and> entry_keys e \<noteq> {} \<and> \<not> IsCoinbase (ent_Tx e))
     \<and> (\<forall>k h. mp_spends m k = Some h \<longleftrightarrow> (\<exists>e. (h, e) \<in> set (mp_txs m) \<and> k \<in> entry_keys e))
     \<and> mp_bytes m = sum_list (map (\<lambda>(h, e). ent_Size e) (mp_txs m))"

lemma mp_inv_spends:
  "mp_inv m \<Longrightarrow> mp_spends m k = Some h \<longleftrightarrow> (\<exists>e. (h, e) \<in> set (mp_txs m) \<and> k \<in> entry_keys e)"
  by (simp add: mp_inv_def)

lemma mp_inv_entry:
  assumes "mp_inv m" and "(h, e) \<in> set (mp_txs m)"
  shows "h = tx_Hash (ent_Tx e)" and "ent_Size e = of_nat (length (SerializeTransaction (ent_Tx e)))"
    and "distinct (input_keys (ent_Tx e))" and "entry_keys e \<noteq> {}" and "\<not> IsCoinbase (ent_Tx e)"
  using assms by (auto simp: mp_inv_def)

lemma fold_delete_spends:
  "fold (\<lambda>inp s. s(OutpointKey (in_PrevTxHash inp) (in_OutputIdx inp) := None)) ins s k
     = (if k \<in> input_key ` set ins then None else s k)"
  by (induction ins arbitrary: s) (auto simp: input_key_def)

lemma fold_mark_spends:
  "fold (\<lambda>inp s. s(OutpointKey (in_PrevTxHash inp) (in_OutputIdx inp) \<mapsto> h)) ins s k
     = (if k \<in> input_key ` set ins then Some h else s k)"
  by (induction ins arbitrary: s) (auto simp: input_key_def)

lemma entry_keys_image: "entry_keys e = input_key ` set (tx_Inputs (ent_Tx e))"
  by (simp add: entry_keys_def input_keys_def)

lemma mp_inv_unique:
  assumes "mp_inv m" and "(h, e) \<in> set (mp_txs m)" and "(h', e') \<in> set (mp_txs m)"
    and "k \<in> entry_keys e" and "k \<in> entry_keys e'"
  shows "h = h'"
proof -
  have "mp_spends m k = Some h" "mp_spends m k = Some h'"
    using assms(2-) mp_inv_spends [OF assms(1)] by blast+
  then show ?thesis by simp
qed

lemma sum_delete:
  assumes "distinct (map fst xs)" and "(h, e) \<in> set xs"
  shows "sum_list (map (\<lambda>(h, e). ent_Size e) (AList.delete h xs))
         = sum_list (map (\<lambda>(h, e). ent_Size e) xs) - ent_Size e"
  using assms
proof (induction xs)
  case (Cons x xs)
  show ?case
  proof (cases "fst x = h")
    case True
    then have "AList.delete h xs = xs"
      using Cons.prems(1) by (intro AList.delete_id) auto
    moreover have "x = (h, e)" using True Cons.prems by (force simp: image_iff)
    ultimately show ?thesis by simp
  next
    case False
    then show ?thesis using Cons by (cases x) (auto simp: algebra_simps)
  qed
qed simp

lemma delete_entry_inv:
  assumes "mp_inv m" and "(h, e) \<in> set (mp_txs m)"
  shows "mp_inv (delete_entry h e m)"
proof -
  have mem: "(h', e') \<in> set (AList.delete h (mp_txs m)) \<longleftrightarrow> h' \<noteq> h \<and> (h', e') \<in> set (mp_txs m)" for h' e'
    by (auto simp: AList.delete_eq)
  have dist: "distinct (map fst (mp_txs m))" using assms(1) by (simp add: mp_inv_def)
  have spends: "mp_spends (delete_entry h e m) k = Some h' \<longleftrightarrow>
      (\<exists>e'. (h', e') \<in> set (mp_txs (delete_entry h e m)) \<and> k \<in> entry_keys e')" for k h'
  proof -
    have "mp_spends m k = Some h' \<longleftrightarrow> (\<exists>e'. (h', e') \<in> set (mp_txs m) \<and> k \<in> entry_keys e')"
      using assms(1) unfolding mp_inv_def by blast
    moreover have "e' = e" if "(h, e') \<in> set (mp_txs m)" for e'
      using that assms(2) dist by (metis eq_key_imp_eq_value)
    moreover have "h' = h" if "(h', e') \<in> set (mp_txs m)" "k \<in> entry_keys e'" "k \<in> entry_keys e" for e'
      using mp_inv_unique [OF assms(1) that(1) assms(2) that(2,3)] .
    ultimately show ?thesis
      by (auto simp: delete_entry_def fold_delete_spends mem simp flip: entry_keys_image)
  qed
  have "distinct (map fst (mp_txs (delete_entry h e m)))"
    using dist by (simp add: delete_entry_def AList.distinct_delete)
  moreover have "mp_bytes (delete_entry h e m)
      = sum_list (map (\<lambda>(h, e). ent_Size e) (mp_txs (delete_entry h e m)))"
    using assms(1) sum_delete [OF dist assms(2)] by (simp add: delete_entry_def mp_inv_def)
  moreover have "set (mp_txs (delete_entry h e m)) \<subseteq> set (mp_txs m)"
    by (auto simp: delete_entry_def mem)
  ultimately show ?thesis
    using assms(1) spends unfolding mp_inv_def by blast
qed

lemma map_of_mem: "map_of (mp_txs m) h = Some e \<Longrightarrow> (h, e) \<in> set (mp_txs m)"
  by (rule map_of_SomeD)

lemma mp_Remove_inv: "mp_inv m \<Longrightarrow> mp_inv (mp_Remove m h)"
  by (auto simp: mp_Remove_def split: option.splits intro: delete_entry_inv map_of_mem)

lemma remove_mined_tx_inv: "mp_inv m \<Longrightarrow> mp_inv (remove_mined_tx t m)"
  by (auto simp: remove_mined_tx_def split: option.splits intro: delete_entry_inv map_of_mem)

lemma remove_mined_txs_inv: "mp_inv m \<Longrightarrow> mp_inv (fold remove_mined_tx ts m)"
  by (induction ts arbitrary: m) (simp_all add: remove_mined_tx_inv)

lemma RemoveMinedBlock_inv: "mp_inv m \<Longrightarrow> mp_inv (RemoveMinedBlock m b)"
  unfolding RemoveMinedBlock_def by (rule remove_mined_txs_inv)

lemma evict_scan_None: "evict_scan es low = None \<longleftrightarrow> es = [] \<and> low = None"
  by (induction es low rule: evict_scan.induct) (auto split: option.splits)

lemma evictLowest_cases:
  obtains (empty) "mp_txs m = []" "evictLowest rank m = (m, False)"
  | (evict) h e where "(h, e) \<in> set (mp_txs m)" "evictLowest rank m = (delete_entry h e m, True)"
      "evict_scan (iterate rank (mp_txs m)) None = Some (h, e)"
proof (cases "evict_scan (iterate rank (mp_txs m)) None")
  case None
  then have "set (iterate rank (mp_txs m)) = {}" by (simp add: evict_scan_None)
  then show thesis using None empty by (simp add: evictLowest_def)
next
  case (Some x)
  then show thesis using evict_scan_mem [OF Some] evict by (cases x) (simp add: evictLowest_def)
qed

lemma make_room_props:
  assumes "mp_inv m"
  shows "mp_inv (make_room ranks n sz m) \<and> set (mp_txs (make_room ranks n sz m)) \<subseteq> set (mp_txs m)
    \<and> mp_maxBytes (make_room ranks n sz m) = mp_maxBytes m
    \<and> (sint (mp_bytes (make_room ranks n sz m) + sz) \<le> sint (mp_maxBytes m)
       \<or> mp_txs (make_room ranks n sz m) = [])"
  using assms
proof (induction ranks n sz m rule: make_room.induct)
  case (1 ranks n sz m)
  show ?case
  proof (cases "sint (mp_bytes m + sz) > sint (mp_maxBytes m)")
    case True
    show ?thesis
    proof (cases rule: evictLowest_cases [of m "ranks n"])
      case empty
      then show ?thesis using True 1(2) by (simp add: make_room.simps [of ranks n sz m])
    next
      case (evict h e)
      have "make_room ranks n sz m = make_room ranks (Suc n) sz (delete_entry h e m)"
        using True evict by (simp add: make_room.simps [of ranks n sz m])
      moreover have "set (mp_txs (delete_entry h e m)) \<subseteq> set (mp_txs m)"
        "mp_maxBytes (delete_entry h e m) = mp_maxBytes m"
        by (auto simp: delete_entry_def AList.delete_eq)
      ultimately show ?thesis
        using 1(1) [OF True evict(2) [symmetric]] delete_entry_inv [OF 1(2) evict(1)] by auto
    qed
  next
    case False
    then show ?thesis using 1(2) by (simp add: make_room.simps [of ranks n sz m])
  qed
qed

lemma make_room_spends:
  assumes "mp_inv m"
  shows "dom (mp_spends (make_room ranks n sz m)) \<subseteq> dom (mp_spends m)"
proof
  fix k assume "k \<in> dom (mp_spends (make_room ranks n sz m))"
  then obtain h e where "(h, e) \<in> set (mp_txs (make_room ranks n sz m))" "k \<in> entry_keys e"
    using make_room_props [OF assms] unfolding mp_inv_def by blast
  then have "(h, e) \<in> set (mp_txs m)" using make_room_props [OF assms] by blast
  then show "k \<in> dom (mp_spends m)"
    using assms \<open>k \<in> entry_keys e\<close> unfolding mp_inv_def by blast
qed

text \<open>The hash of a transaction identifies it among the entries of the pool: no collision.\<close>

definition hash_identifies :: "Transaction \<Rightarrow> Mempool \<Rightarrow> bool" where
  "hash_identifies t m \<longleftrightarrow> (\<forall>(h, e) \<in> set (mp_txs m). h = tx_Hash t \<longrightarrow> ent_Tx e = t)"

lemma mp_Add_None:
  assumes "mp_Add ranks now utxos verifier m t = (m', None)"
  obtains fee spent' where
    "ValidateTransactionAt t utxos verifier (dom (mp_spends m)) (NOT 0) = (Inr fee, spent')"
    and "m' = (let r = make_room ranks 0 (of_nat (length (SerializeTransaction t))) m
               in r\<lparr>mp_txs := AList.update (tx_Hash t)
                      \<lparr>ent_Tx = t, ent_Fee = fee, ent_Size = of_nat (length (SerializeTransaction t)),
                       ent_Added = now\<rparr> (mp_txs r),
                    mp_bytes := mp_bytes r + of_nat (length (SerializeTransaction t)),
                    mp_spends := fold (\<lambda>inp s. s(OutpointKey (in_PrevTxHash inp) (in_OutputIdx inp)
                                                 \<mapsto> tx_Hash t)) (tx_Inputs t) (mp_spends r)\<rparr>)"
proof (cases "ValidateTransaction t utxos verifier (dom (mp_spends m))")
  case (Pair r spent')
  then obtain fee where "r = Inr fee"
    using assms by (cases r) (simp_all add: mp_Add_def)
  then show thesis
    using that [of fee spent'] assms Pair by (simp add: mp_Add_def ValidateTransaction_def Let_def)
qed

lemma mp_Add_txs:
  assumes "mp_Add ranks now utxos verifier m t = (m', None)"
  shows "\<exists>e. ent_Tx e = t
    \<and> mp_txs m' = AList.update (tx_Hash t) e (mp_txs (make_room ranks 0 (of_nat (length (SerializeTransaction t))) m))
    \<and> mp_bytes m' = mp_bytes (make_room ranks 0 (of_nat (length (SerializeTransaction t))) m)
        + of_nat (length (SerializeTransaction t))
    \<and> mp_maxBytes m' = mp_maxBytes (make_room ranks 0 (of_nat (length (SerializeTransaction t))) m)"
proof (cases "fst (ValidateTransaction t utxos verifier (dom (mp_spends m)))")
  case (Inr fee)
  then show ?thesis
    using assms by (intro exI [of _ "\<lparr>ent_Tx = t, ent_Fee = fee,
      ent_Size = of_nat (length (SerializeTransaction t)), ent_Added = now\<rparr>"]) (auto simp: mp_Add_def Let_def)
qed (use assms in \<open>simp add: mp_Add_def\<close>)

lemma AList_update_mem:
  "set (AList.update k v al) \<subseteq> insert (k, v) (set al) \<and> (k, v) \<in> set (AList.update k v al)"
  by (induction al) auto

lemma AList_update_new: "k \<notin> fst ` set al \<Longrightarrow> AList.update k v al = al @ [(k, v)]"
  by (induction al) auto

text \<open>A transaction that conflicts with nothing in the pool is not in it.\<close>

lemma conflict_free_new:
  assumes "mp_inv m" and "hash_identifies t m"
    and "set (input_keys t) \<inter> dom (mp_spends m) = {}" and "set (input_keys t) \<noteq> {}"
  shows "tx_Hash t \<notin> fst ` set (mp_txs m)"
proof
  assume "tx_Hash t \<in> fst ` set (mp_txs m)"
  then obtain e where e: "(tx_Hash t, e) \<in> set (mp_txs m)" by (metis imageE prod.collapse)
  have "case (tx_Hash t, e) of (h, e) \<Rightarrow> h = tx_Hash t \<longrightarrow> ent_Tx e = t"
    using assms(2) [unfolded hash_identifies_def] e by (rule bspec)
  then have ek: "entry_keys e = set (input_keys t)" by (simp add: entry_keys_def)
  obtain k where k: "k \<in> set (input_keys t)" using assms(4) by (meson ex_in_conv)
  then have "k \<in> entry_keys e" by (simp only: ek)
  with e have "mp_spends m k = Some (tx_Hash t)"
    by (intro mp_inv_spends [OF assms(1), THEN iffD2] exI conjI)
  then have "k \<in> dom (mp_spends m)" by (rule domI)
  then show False using assms(3) k by blast
qed

text \<open>Appending a fresh entry whose outpoints nobody spends.\<close>

lemma mp_inv_insert:
  assumes "mp_inv r" and new: "tx_Hash (ent_Tx e) \<notin> fst ` set (mp_txs r)"
    and e: "ent_Size e = of_nat (length (SerializeTransaction (ent_Tx e)))" "distinct (input_keys (ent_Tx e))"
      "entry_keys e \<noteq> {}" "\<not> IsCoinbase (ent_Tx e)"
    and disj: "entry_keys e \<inter> dom (mp_spends r) = {}"
    and txs: "mp_txs m' = mp_txs r @ [(tx_Hash (ent_Tx e), e)]" and bytes: "mp_bytes m' = mp_bytes r + ent_Size e"
    and spends: "\<And>k. mp_spends m' k = (if k \<in> entry_keys e then Some (tx_Hash (ent_Tx e)) else mp_spends r k)"
  shows "mp_inv m'"
  unfolding mp_inv_def
proof (intro conjI allI)
  have sp: "mp_spends r k = Some h \<longleftrightarrow> (\<exists>e. (h, e) \<in> set (mp_txs r) \<and> k \<in> entry_keys e)" for k h
    using assms(1) by (rule mp_inv_spends)
  show "distinct (map fst (mp_txs m'))" using assms(1) new by (simp add: mp_inv_def txs)
  show "mp_bytes m' = sum_list (map (\<lambda>(h, e). ent_Size e) (mp_txs m'))"
    unfolding txs bytes using assms(1) by (simp add: mp_inv_def)
  have "case x of (h, e) \<Rightarrow> h = tx_Hash (ent_Tx e)
        \<and> ent_Size e = of_nat (length (SerializeTransaction (ent_Tx e)))
        \<and> distinct (input_keys (ent_Tx e)) \<and> entry_keys e \<noteq> {} \<and> \<not> IsCoinbase (ent_Tx e)" if x: "x \<in> set (mp_txs m')" for x
  proof (cases "x \<in> set (mp_txs r)")
    case True
    obtain h e where xe: "x = (h, e)" by fastforce
    show ?thesis using mp_inv_entry [OF assms(1) True [unfolded xe]] unfolding xe prod.case by blast
  next
    case False
    then have "x = (tx_Hash (ent_Tx e), e)" using x by (simp add: txs)
    then show ?thesis using e by simp
  qed
  then show "\<forall>(h, e) \<in> set (mp_txs m'). h = tx_Hash (ent_Tx e)
        \<and> ent_Size e = of_nat (length (SerializeTransaction (ent_Tx e)))
        \<and> distinct (input_keys (ent_Tx e)) \<and> entry_keys e \<noteq> {} \<and> \<not> IsCoinbase (ent_Tx e)" by blast
  fix k h
  show "mp_spends m' k = Some h \<longleftrightarrow> (\<exists>e. (h, e) \<in> set (mp_txs m') \<and> k \<in> entry_keys e)"
  proof (cases "k \<in> entry_keys e")
    case True
    then have "mp_spends r k = None" using disj by blast
    then have "\<not> (\<exists>e. (h, e) \<in> set (mp_txs r) \<and> k \<in> entry_keys e)" using sp [of k h] by simp
    then show ?thesis using True by (auto simp: spends txs)
  next
    case False
    then show ?thesis using sp [of k h] by (auto simp: spends txs)
  qed
qed

lemma mp_Add_inv:
  assumes "mp_inv m" and "hash_identifies t m" and "mp_Add ranks now utxos verifier m t = (m', None)"
  shows "mp_inv m'"
proof -
  define sz where "sz = (of_nat (length (SerializeTransaction t)) :: i64)"
  define r where "r = make_room ranks 0 sz m"
  obtain fee spent' where
    v: "ValidateTransactionAt t utxos verifier (dom (mp_spends m)) (NOT 0) = (Inr fee, spent')"
    and m': "m' = r\<lparr>mp_txs := AList.update (tx_Hash t)
                      \<lparr>ent_Tx = t, ent_Fee = fee, ent_Size = sz, ent_Added = now\<rparr> (mp_txs r),
                    mp_bytes := mp_bytes r + sz,
                    mp_spends := fold (\<lambda>inp s. s(OutpointKey (in_PrevTxHash inp) (in_OutputIdx inp)
                                                 \<mapsto> tx_Hash t)) (tx_Inputs t) (mp_spends r)\<rparr>"
    using mp_Add_None [OF assms(3)] unfolding Let_def r_def sz_def by blast
  have keys: "distinct (input_keys t)" "set (input_keys t) \<inter> dom (mp_spends m) = {}"
    and ne: "set (input_keys t) \<noteq> {}" and nc: "\<not> IsCoinbase t"
    using v [unfolded ValidateTransactionAt_Inr] ValidateTransactionAt_has_input [OF v]
    by (simp_all add: input_keys_def)
  have r: "mp_inv r" "set (mp_txs r) \<subseteq> set (mp_txs m)" "dom (mp_spends r) \<subseteq> dom (mp_spends m)"
    using make_room_props [OF assms(1)] make_room_spends [OF assms(1)] unfolding r_def by blast+
  let ?e = "\<lparr>ent_Tx = t, ent_Fee = fee, ent_Size = sz, ent_Added = now\<rparr>"
  have new: "tx_Hash (ent_Tx ?e) \<notin> fst ` set (mp_txs r)"
    using conflict_free_new [OF assms(1,2) keys(2) ne] image_mono [OF r(2), of fst] by auto
  have ek: "entry_keys ?e = set (input_keys t)" by (simp add: entry_keys_def)
  show ?thesis
  proof (rule mp_inv_insert [OF r(1) new])
    show "entry_keys ?e \<noteq> {}" unfolding ek by (rule ne)
    show "entry_keys ?e \<inter> dom (mp_spends r) = {}" unfolding ek using keys(2) r(3) by blast
    show "mp_txs m' = mp_txs r @ [(tx_Hash (ent_Tx ?e), ?e)]"
      unfolding m' using new by (simp add: AList_update_new)
    show "mp_spends m' k = (if k \<in> entry_keys ?e then Some (tx_Hash (ent_Tx ?e)) else mp_spends r k)" for k
      by (simp add: m' fold_mark_spends entry_keys_image)
  qed (simp_all add: m' sz_def keys(1) nc)
qed

section \<open>Fee rates\<close>

text \<open>Rates over the naturals, cross-multiplied, and the entries on which the code's products fit.\<close>

definition rate_le :: "Entry \<Rightarrow> Entry \<Rightarrow> bool" where
  "rate_le a b \<longleftrightarrow> unat (ent_Fee a) * unat (ent_Size b) \<le> unat (ent_Fee b) * unat (ent_Size a)"

definition rates_fit :: "Entry list \<Rightarrow> bool" where
  "rates_fit es \<longleftrightarrow>
     (\<forall>a \<in> set es. 0 < unat (ent_Size a)
        \<and> (\<forall>b \<in> set es. unat (ent_Fee a) * unat (ent_Size b) < 2 ^ 64))"

lemma rate_less_iff:
  assumes "rates_fit es" and "a \<in> set es" and "b \<in> set es"
  shows "rate_less a b \<longleftrightarrow> \<not> rate_le b a"
proof -
  have "unat (ent_Fee x * ent_Size y) = unat (ent_Fee x) * unat (ent_Size y)"
    if "x \<in> set es" "y \<in> set es" for x y
  proof -
    have "unat (ent_Fee x) * unat (ent_Size y) < 2 ^ 64"
      using that assms(1) unfolding rates_fit_def by blast
    then show ?thesis by (simp add: unat_word_ariths)
  qed
  then show ?thesis using assms(2,3) by (simp add: rate_less_def rate_le_def word_less_nat_alt not_le)
qed

lemma rate_le_total: "rate_le a b \<or> rate_le b a"
  by (auto simp: rate_le_def)

lemma rate_le_trans:
  assumes "rate_le a b" and "rate_le b c" and "0 < unat (ent_Size b)"
  shows "rate_le a c"
proof -
  let ?fa = "unat (ent_Fee a)" and ?fb = "unat (ent_Fee b)" and ?fc = "unat (ent_Fee c)"
  let ?sa = "unat (ent_Size a)" and ?sb = "unat (ent_Size b)" and ?sc = "unat (ent_Size c)"
  have "?fa * ?sb * ?sc \<le> ?fb * ?sa * ?sc" using assms(1) by (intro mult_right_mono) (simp_all add: rate_le_def)
  also have "\<dots> \<le> ?fc * ?sb * ?sa"
    using assms(2) mult_right_mono [of "?fb * ?sc" "?fc * ?sb" ?sa] by (simp add: rate_le_def ac_simps)
  finally have "?sb * (?fa * ?sc) \<le> ?sb * (?fc * ?sa)" by (simp add: ac_simps)
  then show ?thesis using assms(3) by (simp add: rate_le_def)
qed

lemma rate_le_refl [simp]: "rate_le a a"
  by (simp add: rate_le_def)

lemma evict_scan_min:
  assumes "rates_fit S" and "evict_scan es low = Some (h, e)" and "snd ` set es \<subseteq> set S"
    and "\<forall>l le. low = Some (l, le) \<longrightarrow> le \<in> set S"
  shows "(\<forall>x \<in> snd ` set es. rate_le e x) \<and> (\<forall>l le. low = Some (l, le) \<longrightarrow> rate_le e le)"
  using assms(2-)
proof (induction es arbitrary: low)
  case Nil
  then show ?case by simp
next
  case (Cons x es)
  obtain k a where x: "x = (k, a)" by fastforce
  have a: "a \<in> set S" "snd ` set es \<subseteq> set S" using Cons.prems(2) by (simp_all add: x)
  show ?case
  proof (cases low)
    case None
    then show ?thesis using Cons.IH [of "Some (k, a)"] Cons.prems(1) a by (simp add: x)
  next
    case (Some p)
    obtain l le where p: "p = (l, le)" by fastforce
    have le: "le \<in> set S" using Cons.prems(3) by (simp add: Some p)
    define q where "q = (if rate_less a le then (k, a) else (l, le))"
    have "evict_scan es (Some q) = Some (h, e)" using Cons.prems(1) by (simp add: x Some p q_def split: if_splits)
    moreover have "snd q \<in> set S" using a le by (simp add: q_def)
    ultimately have es: "\<forall>x \<in> snd ` set es. rate_le e x" and q: "rate_le e (snd q)"
      using Cons.IH [of "Some q"] a(2) by (cases q; auto)+
    have pos: "0 < unat (ent_Size (snd q))" using \<open>snd q \<in> set S\<close> assms(1) by (simp add: rates_fit_def)
    have "rate_le (snd q) a" "rate_le (snd q) le"
      using rate_less_iff [OF assms(1) a(1) le] rate_le_total [of a le] by (auto simp: q_def)
    then have "rate_le e a" "rate_le e le" using rate_le_trans [OF q _ pos] by blast+
    then show ?thesis using es by (simp add: x Some p)
  qed
qed

lemma set_insert_by_rate [simp]: "set (insert_by_rate x xs) = insert x (set xs)"
  by (induction xs) auto

lemma mset_insert_by_rate [simp]: "mset (insert_by_rate x xs) = add_mset x (mset xs)"
  by (induction xs) auto

lemma mset_EntriesByFeeRate: "mset (EntriesByFeeRate rank m) = mset (map snd (mp_txs m))"
proof -
  have "mset (foldr insert_by_rate xs []) = mset xs" for xs by (induction xs) simp_all
  then show ?thesis by (simp add: EntriesByFeeRate_def iterate_def)
qed

lemma mset_concat_map: "mset xs = mset ys \<Longrightarrow> mset (concat (map f xs)) = mset (concat (map f ys))"
proof -
  have "mset (concat (map f zs)) = sum_mset (image_mset (\<lambda>z. mset (f z)) (mset zs))" for zs
    by (induction zs) simp_all
  then show "mset xs = mset ys \<Longrightarrow> mset (concat (map f xs)) = mset (concat (map f ys))" by simp
qed

lemma sorted_insert_by_rate:
  assumes "rates_fit S" and "x \<in> set S" and "set ys \<subseteq> set S"
    and "sorted_wrt (\<lambda>a b. rate_le b a) ys"
  shows "sorted_wrt (\<lambda>a b. rate_le b a) (insert_by_rate x ys)"
  using assms(3,4)
proof (induction ys)
  case (Cons y ys)
  have y: "y \<in> set S" using Cons.prems(1) by simp
  show ?case
  proof (cases "rate_less x y")
    case True
    then have "rate_le x y"
      using rate_less_iff [OF assms(1,2) y] rate_le_total [of x y] by blast
    then show ?thesis using True Cons by simp
  next
    case False
    then have yx: "rate_le y x" using rate_less_iff [OF assms(1,2) y] by blast
    have "0 < unat (ent_Size y)" using y assms(1) by (simp add: rates_fit_def)
    then have "\<forall>z \<in> set ys. rate_le z x"
      using Cons.prems(2) yx rate_le_trans by auto
    then show ?thesis using False Cons.prems(2) yx by simp
  qed
qed simp

lemma sorted_EntriesByFeeRate:
  assumes "rates_fit (map snd (mp_txs m))"
  shows "sorted_wrt (\<lambda>a b. rate_le b a) (EntriesByFeeRate rank m)"
proof -
  have "sorted_wrt (\<lambda>a b. rate_le b a) (foldr insert_by_rate xs [])
      \<and> set (foldr insert_by_rate xs []) = set xs" if "set xs \<subseteq> set (map snd (mp_txs m))" for xs
    using that
  proof (induction xs)
    case (Cons x xs)
    then show ?case using sorted_insert_by_rate [OF assms, of x "foldr insert_by_rate xs []"] by simp
  qed simp
  then show ?thesis unfolding EntriesByFeeRate_def by simp
qed

lemma Snapshot_conflict_free:
  assumes "mp_inv m"
  shows "distinct (concat (map input_keys (Snapshot rank m)))"
proof -
  have "distinct (concat (map (\<lambda>(h, e). input_keys (ent_Tx e)) xs))"
    if "set xs \<subseteq> set (mp_txs m)" "distinct (map fst xs)" for xs
    using that
  proof (induction xs)
    case (Cons x xs)
    obtain h e where x: "x = (h, e)" by fastforce
    have "set (input_keys (ent_Tx e)) \<inter> set (input_keys (ent_Tx e')) = {}" if "(h', e') \<in> set xs" for h' e'
    proof -
      have "h \<noteq> h'" using that Cons.prems(2) by (force simp: x)
      then show ?thesis
        using mp_inv_unique [OF assms, of h e h' e'] that Cons.prems(1)
        by (auto simp: x entry_keys_def)
    qed
    moreover have "distinct (input_keys (ent_Tx e))"
      using Cons.prems(1) mp_inv_entry(3) [OF assms, of h e] by (simp add: x)
    ultimately show ?case using Cons by (auto simp: x)
  qed simp
  then have "distinct (concat (map (\<lambda>(h, e). input_keys (ent_Tx e)) (mp_txs m)))"
    using assms by (simp add: mp_inv_def)
  moreover have "mset (concat (map input_keys (Snapshot rank m)))
      = mset (concat (map (\<lambda>e. input_keys (ent_Tx e)) (map snd (mp_txs m))))"
    using mset_concat_map [OF mset_EntriesByFeeRate [of rank m], of "\<lambda>e. input_keys (ent_Tx e)"]
    by (simp add: Snapshot_def o_def)
  moreover have "map (\<lambda>e. input_keys (ent_Tx e)) (map snd (mp_txs m))
      = map (\<lambda>(h, e). input_keys (ent_Tx e)) (mp_txs m)" by (simp add: case_prod_unfold)
  ultimately show ?thesis by (metis mset_eq_imp_distinct_iff)
qed

lemma set_Snapshot: "set (Snapshot rank m) = ent_Tx ` snd ` set (mp_txs m)"
proof -
  have "set (EntriesByFeeRate rank m) = snd ` set (mp_txs m)"
    using mset_EntriesByFeeRate [of rank m] by (metis list.set_map set_mset_mset)
  then show ?thesis by (simp add: Snapshot_def)
qed

text \<open>What mining a block leaves in the pool: the entries whose hash is not in the block.\<close>

definition mined_hashes :: "Transaction list \<Rightarrow> hash set" where
  "mined_hashes ts = tx_Hash ` {t \<in> set ts. \<not> IsCoinbase t}"

lemma remove_mined_tx_set:
  assumes "mp_inv m"
  shows "set (mp_txs (remove_mined_tx t m)) = {(h, e) \<in> set (mp_txs m). h \<notin> mined_hashes [t]}"
proof (cases "IsCoinbase t")
  case True
  then show ?thesis by (auto simp: remove_mined_tx_def mined_hashes_def)
next
  case False
  then have h: "mined_hashes [t] = {tx_Hash t}" by (auto simp: mined_hashes_def)
  show ?thesis
  proof (cases "map_of (mp_txs m) (tx_Hash t)")
    case None
    then have "remove_mined_tx t m = m" by (simp add: remove_mined_tx_def)
    moreover have "tx_Hash t \<notin> fst ` set (mp_txs m)" using None by (simp only: map_of_eq_None_iff not_False_eq_True)
    ultimately show ?thesis by (force simp: h)
  next
    case (Some e)
    then show ?thesis using False by (auto simp: remove_mined_tx_def h delete_entry_def AList.delete_eq)
  qed
qed

lemma remove_mined_txs_set:
  "mp_inv m \<Longrightarrow>
     set (mp_txs (fold remove_mined_tx ts m)) = {(h, e) \<in> set (mp_txs m). h \<notin> mined_hashes ts}"
proof (induction ts arbitrary: m)
  case (Cons t ts)
  have "mined_hashes (t # ts) = mined_hashes [t] \<union> mined_hashes ts" by (auto simp: mined_hashes_def)
  then show ?case
    using Cons.IH [OF remove_mined_tx_inv [OF Cons.prems]] remove_mined_tx_set [OF Cons.prems] by auto
qed (simp add: mined_hashes_def)

section \<open>The contract of the pool\<close>

text \<open>
  What the chain manager relies on when it builds a template and when it has mined it: a snapshot
  lists the pool without conflicts, and mining removes exactly the transactions of the block.
\<close>

locale tx_pool =
  fixes inv :: "'m \<Rightarrow> bool" and pool :: "'m \<Rightarrow> Transaction set"
    and snapshot :: "ranking \<Rightarrow> 'm \<Rightarrow> Transaction list" and mined :: "'m \<Rightarrow> Block \<Rightarrow> 'm"
  assumes snapshot_pool: "inv m \<Longrightarrow> set (snapshot r m) = pool m"
    and snapshot_disjoint: "inv m \<Longrightarrow> distinct (concat (map input_keys (snapshot r m)))"
    and pool_no_coinbase: "inv m \<Longrightarrow> t \<in> pool m \<Longrightarrow> \<not> IsCoinbase t"
    and mined_inv: "inv m \<Longrightarrow> inv (mined m b)"
    and mined_pool: "inv m \<Longrightarrow>
        pool (mined m b) = {t \<in> pool m. tx_Hash t \<notin> mined_hashes (blk_Transactions b)}"
begin

lemma template_no_double_spend: "inv m \<Longrightarrow> distinct (map input_key (block_inputs (snapshot r m)))"
  using snapshot_disjoint [of m r] by (simp add: block_inputs_def input_keys_def [abs_def] map_concat o_def)

lemma mined_template_empty:
  assumes "inv m" and "set (snapshot r m) \<subseteq> set (blk_Transactions b)"
  shows "snapshot r' (mined m b) = []"
proof -
  have "tx_Hash t \<in> mined_hashes (blk_Transactions b)" if "t \<in> pool m" for t
    using that assms(2) snapshot_pool [OF assms(1), of r] pool_no_coinbase [OF assms(1) that]
    by (auto simp: mined_hashes_def)
  then have "pool (mined m b) = {}" using mined_pool [OF assms(1)] by auto
  then show ?thesis using snapshot_pool [OF mined_inv [OF assms(1)]] by (metis set_empty)
qed

end

definition pool_txs :: "Mempool \<Rightarrow> Transaction set" where
  "pool_txs m = ent_Tx ` snd ` set (mp_txs m)"

interpretation mempool: tx_pool mp_inv pool_txs Snapshot RemoveMinedBlock
proof
  fix m :: Mempool and r t b
  assume m: "mp_inv m"
  show "set (Snapshot r m) = pool_txs m" by (simp add: set_Snapshot pool_txs_def)
  show "distinct (concat (map input_keys (Snapshot r m)))" using m by (rule Snapshot_conflict_free)
  show "mp_inv (RemoveMinedBlock m b)" using m by (rule RemoveMinedBlock_inv)
  show "\<not> IsCoinbase t" if "t \<in> pool_txs m"
    using that mp_inv_entry(5) [OF m] by (auto simp: pool_txs_def)
  show "pool_txs (RemoveMinedBlock m b)
      = {t \<in> pool_txs m. tx_Hash t \<notin> mined_hashes (blk_Transactions b)}"
    unfolding pool_txs_def RemoveMinedBlock_def remove_mined_txs_set [OF m]
    using mp_inv_entry(1) [OF m] by (fastforce simp: image_iff)
qed

section \<open>Properties\<close>

text \<open>
  The pools the methods reach. A transaction is added under the assumption that its hash identifies
  it among the entries.
\<close>

inductive mp_reachable :: "Mempool \<Rightarrow> bool" where
  "mp_reachable (mp_New maxBytes)"
| "mp_reachable m \<Longrightarrow> hash_identifies t m \<Longrightarrow> mp_reachable (fst (mp_Add ranks now utxos verifier m t))"
| "mp_reachable m \<Longrightarrow> mp_reachable (mp_Remove m h)"
| "mp_reachable m \<Longrightarrow> mp_reachable (RemoveMinedBlock m b)"

lemma mp_Add_error: "snd (mp_Add ranks now utxos verifier m t) = Some e \<Longrightarrow> fst (mp_Add ranks now utxos verifier m t) = m"
  by (auto simp: mp_Add_def Let_def split: sum.splits)

lemma set_AList_update: "set (AList.update k v xs) \<subseteq> insert (k, v) (set xs)"
  by (induction xs) auto

lemma mp_Add_pool:
  assumes "mp_inv m"
  shows "pool_txs (fst (mp_Add ranks now utxos verifier m t)) \<subseteq> insert t (pool_txs m)"
proof (cases "fst (ValidateTransaction t utxos verifier (dom (mp_spends m)))")
  case (Inr fee)
  let ?sz = "of_nat (length (SerializeTransaction t)) :: i64"
  let ?r = "make_room ranks 0 ?sz m"
  let ?e = "\<lparr>ent_Tx = t, ent_Fee = fee, ent_Size = ?sz, ent_Added = now\<rparr>"
  have "set (AList.update (tx_Hash t) ?e (mp_txs ?r)) \<subseteq> insert (tx_Hash t, ?e) (set (mp_txs m))"
    using set_AList_update [of "tx_Hash t" ?e "mp_txs ?r"] make_room_props [OF assms, of ranks 0 ?sz] by blast
  from image_mono [OF image_mono [OF this], of ent_Tx snd]
  have "ent_Tx ` snd ` set (AList.update (tx_Hash t) ?e (mp_txs ?r)) \<subseteq> insert t (ent_Tx ` snd ` set (mp_txs m))"
    by simp
  then show ?thesis by (simp add: mp_Add_def Let_def pool_txs_def Inr)
qed (simp add: mp_Add_def subset_insertI)

lemma mp_reachable_inv: "mp_reachable m \<Longrightarrow> mp_inv m"
proof (induction rule: mp_reachable.induct)
  case (1 maxBytes)
  show ?case by (simp add: mp_New_def mp_inv_def)
next
  case (2 m t ranks now utxos verifier)
  show ?case
  proof (cases "snd (mp_Add ranks now utxos verifier m t)")
    case None
    then show ?thesis using mp_Add_inv [OF 2(3,2)] by (metis prod.collapse)
  next
    case (Some e)
    then show ?thesis using 2(3) mp_Add_error by simp
  qed
qed (simp_all add: mp_Remove_inv RemoveMinedBlock_inv)

text \<open>
  C9. The pool's bookkeeping is consistent in every reachable state: keys are the hashes of the
  transactions, an outpoint is marked as spent exactly by the entry that spends it, the byte counter
  is the sum of the sizes, and therefore a snapshot never contains two transactions that spend the
  same outpoint.
\<close>

theorem mempool_consistent:
  assumes "mp_reachable m"
  shows "(\<forall>(h, e) \<in> set (mp_txs m). h = tx_Hash (ent_Tx e))
    \<and> (\<forall>k h. mp_spends m k = Some h \<longleftrightarrow>
          (\<exists>e. (h, e) \<in> set (mp_txs m) \<and> k \<in> set (input_keys (ent_Tx e))))
    \<and> mp_bytes m = sum_list (map (\<lambda>(h, e). of_nat (length (SerializeTransaction (ent_Tx e)))) (mp_txs m))
    \<and> distinct (map input_key (block_inputs (Snapshot rank m)))"
proof -
  note inv = mp_reachable_inv [OF assms]
  have "map (\<lambda>(h, e). ent_Size e) (mp_txs m)
      = map (\<lambda>(h, e). of_nat (length (SerializeTransaction (ent_Tx e)))) (mp_txs m)"
    using mp_inv_entry(2) [OF inv] by auto
  moreover have "mp_bytes m = sum_list (map (\<lambda>(h, e). ent_Size e) (mp_txs m))" using inv by (simp add: mp_inv_def)
  ultimately have "mp_bytes m = sum_list (map (\<lambda>(h, e). of_nat (length (SerializeTransaction (ent_Tx e)))) (mp_txs m))"
    by (simp only:)
  moreover have "\<forall>(h, e) \<in> set (mp_txs m). h = tx_Hash (ent_Tx e)" using mp_inv_entry(1) [OF inv] by blast
  ultimately show ?thesis
    using mp_inv_spends [OF inv] mempool.template_no_double_spend [OF inv]
    by (simp only: entry_keys_def) blast
qed

definition demo_pool :: Mempool where
  "demo_pool = fst (mp_Add (\<lambda>_ _. 0) 5 demo_view None (mp_New 1000) demo_tx)"

definition demo_entry :: Entry where
  "demo_entry = \<lparr>ent_Tx = demo_tx, ent_Fee = 200, ent_Size = 99, ent_Added = 5\<rparr>"

lemma length_demo_tx: "length (SerializeTransaction demo_tx) = 99"
  by (simp add: demo_tx_def SerializeTransaction_def
      WriteTransaction_def WriteInput_def WriteOutput_def writeBytes_def writeVarBytesList_def)

lemma demo_tx_unconfirmed:
  "ValidateTransaction demo_tx demo_view None {} = (Inr 200, {OutpointKey 7 0})"
  unfolding ValidateTransaction_def ValidateTransactionAt_Inr
  by (simp add: eval_simps) (simp add: demo_tx_def demo_view_def demo_utxo_def input_ok.simps)

lemma demo_Add:
  "mp_Add (\<lambda>_ _. 0) 5 demo_view None (mp_New 1000) demo_tx = (demo_pool, None)"
  "mp_txs demo_pool = [(tx_Hash demo_tx, demo_entry)]"
  by (simp_all add: demo_pool_def mp_Add_def mp_New_def demo_tx_unconfirmed length_demo_tx Let_def
      make_room.simps demo_entry_def)

lemma demo_pool_reachable: "mp_reachable demo_pool"
  unfolding demo_pool_def
  by (intro mp_reachable.intros) (simp add: hash_identifies_def mp_New_def)

theorem mempool_consistent_witness:
  "mp_bytes demo_pool = 99 \<and> distinct (map input_key (block_inputs (Snapshot (\<lambda>_. 0) demo_pool)))"
  using mempool_consistent [OF demo_pool_reachable, of "\<lambda>_. 0"]
  by (simp add: demo_Add demo_entry_def length_demo_tx)

text \<open>
  Eviction and block templates follow the fee rate. When no product of a fee and a size overflows,
  eviction fails only on an empty pool and otherwise removes exactly one entry, one of the lowest
  rate; and the entries are listed, each once, from the highest rate to the lowest.
\<close>

theorem mempool_fee_order:
  assumes "mp_reachable m" and "rates_fit (map snd (mp_txs m))"
  shows "(case evictLowest rank m of
            (m', evicted) \<Rightarrow>
              if \<not> evicted then mp_txs m = [] \<and> m' = m
              else \<exists>h e. (h, e) \<in> set (mp_txs m) \<and> set (mp_txs m') = set (mp_txs m) - {(h, e)}
                     \<and> (\<forall>(h', e') \<in> set (mp_txs m). rate_le e e'))
    \<and> mset (EntriesByFeeRate rank m) = mset (map snd (mp_txs m))
    \<and> sorted_wrt (\<lambda>a b. rate_le b a) (EntriesByFeeRate rank m)"
proof (cases rule: evictLowest_cases [of m rank])
  case empty
  then show ?thesis using mset_EntriesByFeeRate sorted_EntriesByFeeRate [OF assms(2)] by simp
next
  case (evict h e)
  have "\<forall>x \<in> snd ` set (mp_txs m). rate_le e x"
    using evict_scan_min [OF assms(2) evict(3)] by simp
  then have "\<forall>(h', e') \<in> set (mp_txs m). rate_le e e'" by force
  moreover have "set (mp_txs (delete_entry h e m)) = set (mp_txs m) - {(h, e)}"
    using evict(1) mp_reachable_inv [OF assms(1)]
    by (auto simp: delete_entry_def AList.delete_eq mp_inv_def dest: eq_key_imp_eq_value)
  ultimately show ?thesis
    using evict(1,2) mset_EntriesByFeeRate sorted_EntriesByFeeRate [OF assms(2)] by auto
qed

theorem mempool_fee_order_witness:
  "rates_fit (map snd (mp_txs demo_pool)) \<and> EntriesByFeeRate (\<lambda>_. 0) demo_pool = [demo_entry]
   \<and> (\<exists>h e. set (mp_txs (fst (evictLowest (\<lambda>_. 0) demo_pool))) = set (mp_txs demo_pool) - {(h, e)})"
proof -
  have fit: "rates_fit (map snd (mp_txs demo_pool))"
    by (simp add: demo_Add rates_fit_def demo_entry_def)
  show ?thesis
    using mempool_fee_order [OF demo_pool_reachable fit, of "\<lambda>_. 0"] fit
    by (simp add: demo_Add EntriesByFeeRate_def iterate_def split: prod.splits if_splits)
qed

text \<open>
  What an accepted \<open>Add\<close> leaves: the new transaction is in the pool, every other one was there
  before, and the pool is within its byte limit unless the new transaction is all it holds (a
  transaction larger than the limit evicts everything and is kept all the same).
\<close>

theorem mp_Add_bounds:
  assumes "mp_reachable m" and "hash_identifies t m"
    and "mp_Add ranks now utxos verifier m t = (m', None)"
  shows "t \<in> pool_txs m' \<and> pool_txs m' \<subseteq> insert t (pool_txs m)
    \<and> (sint (mp_bytes m') \<le> sint (mp_maxBytes m') \<or> pool_txs m' = {t})"
proof -
  define sz where "sz = (of_nat (length (SerializeTransaction t)) :: i64)"
  define r where "r = make_room ranks 0 sz m"
  have r: "set (mp_txs r) \<subseteq> set (mp_txs m)" "mp_maxBytes r = mp_maxBytes m"
    "sint (mp_bytes r + sz) \<le> sint (mp_maxBytes m) \<or> mp_txs r = []"
    using make_room_props [OF mp_reachable_inv [OF assms(1)]] unfolding r_def by blast+
  obtain e where m': "mp_txs m' = AList.update (tx_Hash t) e (mp_txs r)" "ent_Tx e = t"
    "mp_bytes m' = mp_bytes r + sz" "mp_maxBytes m' = mp_maxBytes m"
    using mp_Add_txs [OF assms(3)] r(2) unfolding r_def sz_def by metis
  have "set (mp_txs m') \<subseteq> insert (tx_Hash t, e) (set (mp_txs r))" "(tx_Hash t, e) \<in> set (mp_txs m')"
    unfolding m' using AList_update_mem [of "tx_Hash t" e "mp_txs r"] by blast+
  then have "t \<in> pool_txs m'" "pool_txs m' \<subseteq> insert t (ent_Tx ` snd ` set (mp_txs r))"
    unfolding pool_txs_def using m'(2) by force+
  moreover have "ent_Tx ` snd ` set (mp_txs r) \<subseteq> pool_txs m" using r(1) by (auto simp: pool_txs_def)
  moreover have "ent_Tx ` snd ` set (mp_txs r) = {}" if "mp_txs r = []" using that by simp
  ultimately show ?thesis using r(3) m'(3,4) by auto
qed

theorem mp_Add_bounds_witness:
  "pool_txs demo_pool = {demo_tx} \<and> demo_tx \<in> pool_txs demo_pool"
  using mp_Add_bounds [OF mp_reachable.intros(1) _ demo_Add(1)]
  by (auto simp: hash_identifies_def mp_New_def pool_txs_def)

text \<open>
  A transaction that spends an outpoint which a transaction of the pool already spends is
  rejected with an error, whatever its fee, and the pool is left as it was.
\<close>

theorem mp_Add_conflict:
  assumes "mp_reachable m" and "t' \<in> pool_txs m"
    and "set (input_keys t) \<inter> set (input_keys t') \<noteq> {}"
  shows "\<exists>e. mp_Add ranks now utxos verifier m t = (m, Some e)"
proof -
  obtain k where k: "k \<in> set (input_keys t)" "k \<in> set (input_keys t')" using assms(3) by blast
  obtain h e where "(h, e) \<in> set (mp_txs m)" "ent_Tx e = t'" using assms(2) by (auto simp: pool_txs_def)
  then have "mp_spends m k = Some h"
    using k(2) by (intro mp_inv_spends [OF mp_reachable_inv [OF assms(1)], THEN iffD2])
      (auto simp: entry_keys_def)
  then have ks: "set (input_keys t) \<inter> dom (mp_spends m) \<noteq> {}" using k(1) by blast
  obtain m' r where add: "mp_Add ranks now utxos verifier m t = (m', r)" by fastforce
  show ?thesis
  proof (cases r)
    case None
    obtain fee spent' where
      "ValidateTransactionAt t utxos verifier (dom (mp_spends m)) (NOT 0) = (Inr fee, spent')"
      using mp_Add_None [OF add [unfolded None]] by blast
    then show ?thesis using ks by (simp add: ValidateTransactionAt_Inr)
  next
    case (Some e)
    then show ?thesis using mp_Add_error [of ranks now utxos verifier m t e] add by simp
  qed
qed

theorem mp_Add_conflict_witness:
  "\<exists>e. mp_Add (\<lambda>_ _. 0) 6 demo_view None demo_pool demo_tx = (demo_pool, Some e)"
  using mp_Add_conflict [OF demo_pool_reachable, of demo_tx demo_tx]
  by (simp add: pool_txs_def demo_Add demo_entry_def) (simp add: demo_tx_def input_keys_def)

end
