(* ===== verification/Miner.thy ===== *)
theory Miner
  imports Consensus
begin

text \<open>
  Package \<open>miner\<close> (\<open>miner/miner.go\<close>): the search for a nonce. The context is an oracle that tells at
  each round whether it is done by then; the search may run forever, so it is a partial function whose
  value \<open>None\<close> is a search that never returns. The lemmas say exactly when it returns and what it
  returns.
\<close>

definition bump_nonce :: "Block \<Rightarrow> Block" where
  "bump_nonce b = b\<lparr>blk_Header := (blk_Header b)\<lparr>hdr_Nonce := hdr_Nonce (blk_Header b) + 1\<rparr>\<rparr>"

partial_function (option) Mine ::
  "(nat \<Rightarrow> bool) \<Rightarrow> nat \<Rightarrow> Block \<Rightarrow> int \<Rightarrow> (bool \<times> Block) option" where
  "Mine ctx_Done n block target =
     (if ctx_Done n then Some (False, block)
      else if int (unat (hdr_Hash (blk_Header block))) < target then Some (True, block)
      else Mine ctx_Done (Suc n) (bump_nonce block) target)"

definition MineWithBits :: "(nat \<Rightarrow> bool) \<Rightarrow> Block \<Rightarrow> (bool \<times> Block) option" where
  "MineWithBits ctx_Done block = Mine ctx_Done 0 block (CompactToBig (hdr_Bits (blk_Header block)))"

section \<open>Lemmas\<close>

text \<open>The block with its nonce advanced \<open>k\<close> times, and the test of one round.\<close>

definition with_nonce :: "Block \<Rightarrow> nat \<Rightarrow> Block" where
  "with_nonce b k = b\<lparr>blk_Header := (blk_Header b)\<lparr>hdr_Nonce := hdr_Nonce (blk_Header b) + of_nat k\<rparr>\<rparr>"

definition below :: "Block \<Rightarrow> int \<Rightarrow> bool" where
  "below b target \<longleftrightarrow> int (unat (blk_Hash b)) < target"

lemma with_nonce_0 [simp]: "with_nonce b 0 = b"
  by (simp add: with_nonce_def)

lemma with_nonce_bump: "with_nonce (bump_nonce b) k = with_nonce b (Suc k)"
  by (simp add: with_nonce_def bump_nonce_def algebra_simps)

lemma with_nonce_fields [simp]:
  "blk_Transactions (with_nonce b k) = blk_Transactions b"
  "hdr_Version (blk_Header (with_nonce b k)) = hdr_Version (blk_Header b)"
  "hdr_PrevHash (blk_Header (with_nonce b k)) = hdr_PrevHash (blk_Header b)"
  "hdr_MerkleRoot (blk_Header (with_nonce b k)) = hdr_MerkleRoot (blk_Header b)"
  "hdr_Timestamp (blk_Header (with_nonce b k)) = hdr_Timestamp (blk_Header b)"
  "hdr_Bits (blk_Header (with_nonce b k)) = hdr_Bits (blk_Header b)"
  "hdr_Height (blk_Header (with_nonce b k)) = hdr_Height (blk_Header b)"
  by (simp_all add: with_nonce_def)

lemma Mine_step:
  "Mine ctx_Done n b target =
     (if ctx_Done n then Some (False, b) else if below b target then Some (True, b)
      else Mine ctx_Done (Suc n) (bump_nonce b) target)"
  by (subst Mine.simps) (simp add: below_def blk_Hash_def)

text \<open>The search stops at round \<open>k\<close>, and no earlier.\<close>

definition stops_at :: "(nat \<Rightarrow> bool) \<Rightarrow> nat \<Rightarrow> Block \<Rightarrow> int \<Rightarrow> nat \<Rightarrow> bool" where
  "stops_at ctx_Done n b target k \<longleftrightarrow>
     (ctx_Done (n + k) \<or> below (with_nonce b k) target)
     \<and> (\<forall>j < k. \<not> ctx_Done (n + j) \<and> \<not> below (with_nonce b j) target)"

lemma Mine_stops:
  assumes "stops_at ctx_Done n b target k"
  shows "Mine ctx_Done n b target = Some (\<not> ctx_Done (n + k), with_nonce b k)"
  using assms
proof (induction k arbitrary: n b)
  case 0
  then show ?case by (auto simp: stops_at_def Mine_step [of ctx_Done n])
next
  case (Suc k)
  have "stops_at ctx_Done (Suc n) (bump_nonce b) target k"
    using Suc.prems by (auto simp: stops_at_def with_nonce_bump dest: spec [of _ "Suc _"])
  then show ?case
    using Suc.IH [of "Suc n" "bump_nonce b"] Suc.prems
    by (auto simp: stops_at_def Mine_step [of ctx_Done n] with_nonce_bump)
qed

lemma Mine_Some: "Mine ctx_Done n b target = Some r \<Longrightarrow> \<exists>k. stops_at ctx_Done n b target k"
proof (erule Mine.raw_induct [rotated])
  fix f ctx_Done n b target r
  assume IH: "\<And>ctx_Done n b target r. f ctx_Done n b target = Some r \<Longrightarrow> \<exists>k. stops_at ctx_Done n b target k"
    and f: "(if ctx_Done n then Some (False, b)
             else if int (unat (hdr_Hash (blk_Header b))) < target then Some (True, b)
             else f ctx_Done (Suc n) (bump_nonce b) target) = Some r"
  show "\<exists>k. stops_at ctx_Done n b target k"
  proof (cases "ctx_Done n \<or> below b target")
    case True
    then have "stops_at ctx_Done n b target 0" by (simp add: stops_at_def)
    then show ?thesis by blast
  next
    case False
    have "stops_at ctx_Done n b target (Suc k)" if "stops_at ctx_Done (Suc n) (bump_nonce b) target k" for k
      using that False by (auto simp: stops_at_def with_nonce_bump less_Suc_eq_0_disj)
    then show ?thesis using IH [of ctx_Done "Suc n" "bump_nonce b" target r] f False
      by (auto simp: below_def blk_Hash_def)
  qed
qed

lemma MineWithBits_True:
  assumes "MineWithBits ctx_Done b = Some (True, b')"
  obtains k where "b' = with_nonce b k" and "below b' (CompactToBig (hdr_Bits (blk_Header b)))"
proof -
  let ?t = "CompactToBig (hdr_Bits (blk_Header b))"
  have m: "Mine ctx_Done 0 b ?t = Some (True, b')" using assms by (simp add: MineWithBits_def)
  then obtain k where k: "stops_at ctx_Done 0 b ?t k" using Mine_Some by blast
  then have "\<not> ctx_Done k" "b' = with_nonce b k" using Mine_stops [OF k] m by simp_all
  then show thesis using that k by (simp add: stops_at_def)
qed

section \<open>Properties\<close>

text \<open>
  C19. Mining returns exactly when it can: it returns if and only if at some round the context is done or
  the block with that nonce is below the target. So a search whose context is never done returns
  precisely when one of the \<open>2^64\<close> nonces is good.
\<close>

theorem Mine_returns:
  "(\<exists>r. Mine ctx_Done 0 b target = Some r)
     \<longleftrightarrow> (\<exists>k. ctx_Done k \<or> int (unat (blk_Hash (with_nonce b k))) < target)"
proof
  assume "\<exists>r. Mine ctx_Done 0 b target = Some r"
  then obtain k where "stops_at ctx_Done 0 b target k" using Mine_Some by blast
  then show "\<exists>k. ctx_Done k \<or> int (unat (blk_Hash (with_nonce b k))) < target"
    by (auto simp: stops_at_def below_def)
next
  define P where "P k \<longleftrightarrow> ctx_Done k \<or> below (with_nonce b k) target" for k
  assume "\<exists>k. ctx_Done k \<or> int (unat (blk_Hash (with_nonce b k))) < target"
  then obtain k where "P k" by (auto simp: P_def below_def)
  then have "P (Least P)" by (rule LeastI)
  moreover have "\<forall>j < Least P. \<not> P j" using not_less_Least by blast
  ultimately have "stops_at ctx_Done 0 b target (Least P)" by (simp add: stops_at_def P_def)
  then show "\<exists>r. Mine ctx_Done 0 b target = Some r" using Mine_stops by blast
qed

text \<open>
  What mining returns: only the nonce of the block has changed, no nonce tried before was good,
  and on success the block passes the proof-of-work check for its own bits, whenever their target is
  within the limit.
\<close>

theorem MineWithBits_result:
  assumes "MineWithBits ctx_Done b = Some (ok, b')"
    and "CompactToBig (hdr_Bits (blk_Header b)) \<le> powLimit"
  shows "\<exists>k. b' = with_nonce b k
    \<and> (\<forall>j < k. \<not> ctx_Done j \<and> CompactToBig (hdr_Bits (blk_Header b)) \<le> int (unat (blk_Hash (with_nonce b j))))
    \<and> (if ok then CheckProofOfWork (blk_Header b') powLimit = None else ctx_Done k)"
proof -
  let ?t = "CompactToBig (hdr_Bits (blk_Header b))"
  have m: "Mine ctx_Done 0 b ?t = Some (ok, b')" using assms(1) by (simp add: MineWithBits_def)
  then obtain k where k: "stops_at ctx_Done 0 b ?t k" using Mine_Some by blast
  have r: "ok = (\<not> ctx_Done k)" "b' = with_nonce b k" using Mine_stops [OF k] m by simp_all
  have "CheckProofOfWork (blk_Header b') powLimit = None" if ok
  proof -
    have "int (unat (blk_Hash b')) < ?t" using that k r by (simp add: stops_at_def below_def)
    moreover from this have "0 < ?t" by (meson of_nat_0_le_iff le_less_trans)
    ultimately show ?thesis using assms(2) by (simp add: CheckProofOfWork_def r(2) blk_Hash_def Let_def)
  qed
  then show ?thesis using k r by (auto simp: stops_at_def below_def not_less)
qed

theorem MineWithBits_result_witness:
  "\<exists>b' k. MineWithBits (\<lambda>_. False) (demo_block\<lparr>blk_Header := (blk_Header demo_block)\<lparr>hdr_Bits := 0x2200ffff\<rparr>\<rparr>)
       = Some (True, b') \<and> b' = with_nonce (demo_block\<lparr>blk_Header := (blk_Header demo_block)\<lparr>hdr_Bits := 0x2200ffff\<rparr>\<rparr>) k
     \<and> CheckProofOfWork (blk_Header b') (2 ^ 264) = None"
proof -
  let ?b = "demo_block\<lparr>blk_Header := (blk_Header demo_block)\<lparr>hdr_Bits := 0x2200ffff\<rparr>\<rparr>"
  have t: "CompactToBig 0x2200ffff = 0xffff * 2 ^ 248"
    by (simp add: CompactToBig_def push_bit_eq_mult)
  have "uint (blk_Hash ?b) < 2 ^ 256" using unsigned_less [of "blk_Hash ?b"] by simp
  then have "below ?b (CompactToBig 0x2200ffff)" by (simp add: below_def t)
  then have "MineWithBits (\<lambda>_. False) ?b = Some (True, ?b)"
    by (simp add: MineWithBits_def Mine_step [of _ 0])
  then show ?thesis using MineWithBits_result [of "\<lambda>_. False" ?b True ?b "2 ^ 264"] by (auto simp: t)
qed

end
