(* ===== verification/Address.thy ===== *)
theory Address
  imports Consensus
begin

text \<open>
  Addresses: \<open>wallet/bech32.go\<close> and \<open>DecodeAddress\<close>, \<open>LockingScriptForAddress\<close> of \<open>wallet/wallet.go\<close>.
  A Go string is its list of bytes. \<open>strings.ToLower\<close> and \<open>strings.ToUpper\<close> map ASCII letters; on a
  string with a byte of 128 or more they consult the Unicode tables, which are the parameter \<open>U\<close>.
  The lemmas show that decoding inverts encoding, that regrouping between 8-bit and 5-bit groups is
  a bijection onto the strings without stray padding, and that the checksum catches every
  substitution of one character.
\<close>

section \<open>Letter case\<close>

record unicode =
  uni_ToLower :: "string \<Rightarrow> string"
  uni_ToUpper :: "string \<Rightarrow> string"

definition ascii_lower :: "char \<Rightarrow> char" where
  "ascii_lower c = (let n = of_char c :: nat in if 65 \<le> n \<and> n \<le> 90 then char_of (n + 32) else c)"

definition ascii_upper :: "char \<Rightarrow> char" where
  "ascii_upper c = (let n = of_char c :: nat in if 97 \<le> n \<and> n \<le> 122 then char_of (n - 32) else c)"

definition ascii :: "string \<Rightarrow> bool" where
  "ascii s = list_all (\<lambda>c. (of_char c :: nat) < 128) s"

definition ToLower :: "unicode \<Rightarrow> string \<Rightarrow> string" where
  "ToLower U s = (if ascii s then map ascii_lower s else uni_ToLower U s)"

definition ToUpper :: "unicode \<Rightarrow> string \<Rightarrow> string" where
  "ToUpper U s = (if ascii s then map ascii_upper s else uni_ToUpper U s)"

text \<open>\<open>strings.IndexByte\<close> and \<open>strings.LastIndexByte\<close>; \<open>None\<close> is the result -1.\<close>

fun IndexByte :: "string \<Rightarrow> char \<Rightarrow> nat option" where
  "IndexByte [] c = None"
| "IndexByte (x # xs) c = (if x = c then Some 0 else map_option Suc (IndexByte xs c))"

fun LastIndexByte :: "string \<Rightarrow> char \<Rightarrow> nat option" where
  "LastIndexByte [] c = None"
| "LastIndexByte (x # xs) c =
     (case LastIndexByte xs c of
        Some n \<Rightarrow> Some (Suc n)
      | None \<Rightarrow> if x = c then Some 0 else None)"

section \<open>The checksum\<close>

definition bech32Charset :: string where
  "bech32Charset = ''qpzry9x8gf2tvdw0s3jn54khce6mua7l''"

definition gen :: "u32 list" where
  "gen = [0x3b6a57b2, 0x26508e6d, 0x1ea119fa, 0x3d4233dd, 0x2a1462b3]"

definition polymod_gen :: "u32 \<Rightarrow> u32 \<Rightarrow> u32" where
  "polymod_gen hi chk =
     fold (\<lambda>i chk. if drop_bit i hi AND 1 = 1 then chk XOR gen ! i else chk) [0..<5] chk"

definition polymod_step :: "byte \<Rightarrow> u32 \<Rightarrow> u32" where
  "polymod_step v chk =
     polymod_gen (drop_bit 25 chk) (push_bit 5 (chk AND 0x1ffffff) XOR ucast v)"

definition bech32Polymod :: "byte list \<Rightarrow> u32" where
  "bech32Polymod values = fold polymod_step values 1"

definition bech32HrpExpand :: "string \<Rightarrow> byte list" where
  "bech32HrpExpand hrp =
     map (drop_bit 5) (string_bytes hrp) @ [0] @ map (\<lambda>c. c AND 31) (string_bytes hrp)"

definition bech32VerifyChecksum :: "string \<Rightarrow> byte list \<Rightarrow> bool" where
  "bech32VerifyChecksum hrp data \<longleftrightarrow> bech32Polymod (bech32HrpExpand hrp @ data) = 1"

definition bech32CreateChecksum :: "string \<Rightarrow> byte list \<Rightarrow> byte list" where
  "bech32CreateChecksum hrp data =
     (let polymod = bech32Polymod (bech32HrpExpand hrp @ data @ [0, 0, 0, 0, 0, 0]) XOR 1
      in map (\<lambda>i. ucast (drop_bit (5 * (5 - i)) polymod AND 31)) [0..<6])"

section \<open>Strings\<close>

definition bech32Encode :: "unicode \<Rightarrow> string \<Rightarrow> byte list \<Rightarrow> error + string" where
  "bech32Encode U hrp data =
     (if hrp = [] then Inl (ErrText ''empty bech32 hrp'')
      else let combined = data @ bech32CreateChecksum hrp data
           in if list_ex (\<lambda>p. 32 \<le> p) combined then Inl (ErrText ''invalid bech32 data'')
              else Inr (ToLower U hrp @ ''1'' @ map (\<lambda>p. bech32Charset ! unat p) combined))"

fun bech32_data :: "string \<Rightarrow> byte list option" where
  "bech32_data [] = Some []"
| "bech32_data (c # cs) =
     (case IndexByte bech32Charset c of
        None \<Rightarrow> None
      | Some idx \<Rightarrow> map_option (Cons (of_nat idx)) (bech32_data cs))"

definition bech32Decode :: "unicode \<Rightarrow> string \<Rightarrow> error + (string \<times> byte list)" where
  "bech32Decode U s =
     (if length s < 8 \<or> ToLower U s \<noteq> s \<and> ToUpper U s \<noteq> s
      then Inl (ErrText ''invalid bech32 string'')
      else let s = ToLower U s in
        case LastIndexByte s (CHR ''1'') of
          None \<Rightarrow> Inl (ErrText ''invalid bech32 separator'')
        | Some pos \<Rightarrow>
            if pos = 0 \<or> pos + 7 > length s then Inl (ErrText ''invalid bech32 separator'')
            else let hrp = take pos s in
              case bech32_data (drop (pos + 1) s) of
                None \<Rightarrow> Inl (ErrText ''invalid bech32 character'')
              | Some data \<Rightarrow>
                  if \<not> bech32VerifyChecksum hrp data then Inl (ErrText ''invalid bech32 checksum'')
                  else Inr (hrp, take (length data - 6) data))"

section \<open>Regrouping bits\<close>

text \<open>
  \<open>uint\<close> is 64 bits wide. The inner loop emits groups while \<open>bits >= to\<close>; the callers pass 5 and 8,
  and with \<open>to = 0\<close>, which the definition excludes, the Go loop would not end.
\<close>

function emit_groups :: "nat \<Rightarrow> u64 \<Rightarrow> nat \<Rightarrow> byte list \<Rightarrow> nat \<times> byte list" where
  "emit_groups n_to acc bits ret =
     (if n_to \<le> bits \<and> 0 < n_to then
        let bits = bits - n_to
        in emit_groups n_to acc bits (ret @ [ucast (drop_bit bits acc AND (push_bit n_to 1 - 1))])
      else (bits, ret))"
  by pat_completeness auto
termination
  by (relation "measure (\<lambda>(t, a, bits, r). bits)") auto

declare emit_groups.simps [simp del]

fun convert_loop ::
  "nat \<Rightarrow> nat \<Rightarrow> byte list \<Rightarrow> u64 \<Rightarrow> nat \<Rightarrow> byte list \<Rightarrow> error + (u64 \<times> nat \<times> byte list)" where
  "convert_loop n_from n_to [] acc bits ret = Inr (acc, bits, ret)"
| "convert_loop n_from n_to (value # data) acc bits ret =
     (let v = ucast value :: u64 in
      if drop_bit n_from v \<noteq> 0 then Inl (ErrText ''invalid bit group'')
      else
        let acc = (push_bit n_from acc OR v) AND (push_bit (n_from + n_to - 1) 1 - 1)
        in case emit_groups n_to acc (bits + n_from) ret of
             (bits, ret) \<Rightarrow> convert_loop n_from n_to data acc bits ret)"

definition convertBits :: "byte list \<Rightarrow> nat \<Rightarrow> nat \<Rightarrow> bool \<Rightarrow> error + byte list" where
  "convertBits data n_from n_to pad =
     (let maxv = push_bit n_to 1 - 1 in
      case convert_loop n_from n_to data 0 0 [] of
        Inl e \<Rightarrow> Inl e
      | Inr (acc, bits, ret) \<Rightarrow>
          if pad then
            if bits > 0 then Inr (ret @ [ucast (push_bit (n_to - bits) acc AND maxv)]) else Inr ret
          else if bits \<ge> n_from \<or> push_bit (n_to - bits) acc AND maxv \<noteq> 0
            then Inl (ErrText ''invalid padding'')
          else Inr ret)"

section \<open>Addresses\<close>

definition DecodeAddress :: "unicode \<Rightarrow> string \<Rightarrow> string \<Rightarrow> error + byte list" where
  "DecodeAddress U addr expectedPrefix =
     (case bech32Decode U addr of
        Inl e \<Rightarrow> Inl e
      | Inr (hrp, data) \<Rightarrow>
          if hrp \<noteq> expectedPrefix then Inl (ErrText ''wrong address prefix'')
          else convertBits data 5 8 False)"

definition LockingScriptForAddress :: "unicode \<Rightarrow> string \<Rightarrow> string \<Rightarrow> error + byte list" where
  "LockingScriptForAddress U addr prefix =
     (case DecodeAddress U addr prefix of Inl e \<Rightarrow> Inl e | Inr h \<Rightarrow> Inr (ScriptForPubKeyHash h))"

section \<open>Algebra of the checksum\<close>

text \<open>
  A step is linear over exclusive or: \<open>poly_shift\<close> is what it does to the accumulator, and the new
  value is added to it.
\<close>

definition poly_gen :: "u32 \<Rightarrow> u32" where
  "poly_gen hi = fold (\<lambda>i c. c XOR (if bit hi i then gen ! i else 0)) [0..<5] 0"

definition poly_shift :: "u32 \<Rightarrow> u32" where
  "poly_shift c = push_bit 5 (c AND 0x1ffffff) XOR poly_gen (drop_bit 25 c)"

lemma drop_bit_and_one: "drop_bit i (w :: u32) AND 1 = 1 \<longleftrightarrow> bit w i"
  by (simp add: and_one_eq bit_iff_odd_drop_bit mod_2_eq_odd)

lemma polymod_step_shift: "polymod_step v c = poly_shift c XOR ucast v"
  unfolding polymod_step_def poly_shift_def polymod_gen_def poly_gen_def drop_bit_and_one
  by (simp add: numeral_eq_Suc ac_simps)

lemma poly_gen_xor: "poly_gen (a XOR b) = poly_gen a XOR poly_gen b"
proof -
  have *: "(if bit (a XOR b) i then g else 0) = (if bit a i then g else 0) XOR (if bit b i then g else (0 :: u32))"
    for i g by (simp add: bit_xor_iff)
  show ?thesis unfolding poly_gen_def * by (simp add: numeral_eq_Suc ac_simps)
qed

lemma poly_shift_xor: "poly_shift (a XOR b) = poly_shift a XOR poly_shift b"
  by (simp add: poly_shift_def poly_gen_xor bit.conj_xor_distrib2 push_bit_xor drop_bit_xor ac_simps)

lemma xor_right_cancel: "a XOR c = b XOR c \<longleftrightarrow> a = (b :: u32)"
  by (metis xor.assoc xor_self_eq xor.right_neutral)

lemma ucast_byte_inj: "(ucast (a :: byte) :: u32) = ucast b \<longleftrightarrow> a = b"
proof -
  have "ucast (ucast x :: u32) = x" for x :: byte
    by (rule bit_word_eqI) (simp add: bit_ucast_iff)
  then show ?thesis by metis
qed

lemma mask25: "(0x1ffffff :: u32) = mask 25"
  by (simp add: mask_eq_exp_minus_1)

lemma poly_shift_take_bit: "poly_shift c = push_bit 5 (take_bit 25 c) XOR poly_gen (drop_bit 25 c)"
  by (simp only: poly_shift_def mask25 take_bit_eq_mask)

lemma poly_gen_0: "poly_gen 0 = 0"
  by (simp add: poly_gen_def numeral_eq_Suc)

lemma poly_shift_small: 
  assumes "take_bit 25 c = c"
  shows "poly_shift c = push_bit 5 c"
proof -
  have "drop_bit 25 c = 0" using assms by (simp only: take_bit_eq_self_iff_drop_bit_eq_0)
  then show ?thesis by (simp add: poly_shift_take_bit poly_gen_0 assms)
qed

lemma poly_gen_unfold:
  "poly_gen t = (if bit t 0 then 0x3b6a57b2 else 0) XOR (if bit t 1 then 0x26508e6d else 0)
     XOR (if bit t 2 then 0x1ea119fa else 0) XOR (if bit t 3 then 0x3d4233dd else 0)
     XOR (if bit t 4 then 0x2a1462b3 else 0)"
proof -
  have "[0..<5] = [0, 1, 2, 3, 4]" by (simp add: upt_rec)
  then show ?thesis by (simp add: poly_gen_def gen_def)
qed

lemma poly_gen_bound: "take_bit 30 (poly_gen t) = poly_gen t"
proof -
  have "take_bit 30 (if b then 0x3b6a57b2 else 0 :: u32) = (if b then 0x3b6a57b2 else 0)"
    "take_bit 30 (if b then 0x26508e6d else 0 :: u32) = (if b then 0x26508e6d else 0)"
    "take_bit 30 (if b then 0x1ea119fa else 0 :: u32) = (if b then 0x1ea119fa else 0)"
    "take_bit 30 (if b then 0x3d4233dd else 0 :: u32) = (if b then 0x3d4233dd else 0)"
    "take_bit 30 (if b then 0x2a1462b3 else 0 :: u32) = (if b then 0x2a1462b3 else 0)" for b
    by simp_all
  then show ?thesis by (simp only: poly_gen_unfold take_bit_xor)
qed

lemma poly_shift_bound: "take_bit 30 (poly_shift c) = poly_shift c"
  by (simp add: poly_shift_take_bit take_bit_xor poly_gen_bound take_bit_push_bit)

lemma poly_gen_bits: 
  "bit (poly_gen t) 0 = (bit t 1 \<noteq> (bit t 3 \<noteq> bit t 4))"
  "bit (poly_gen t) 1 = (bit t 0 \<noteq> (bit t 2 \<noteq> bit t 4))"
  "bit (poly_gen t) 2 = (bit t 1 \<noteq> bit t 3)"
  "bit (poly_gen t) 3 = (bit t 1 \<noteq> (bit t 2 \<noteq> bit t 3))"
  "bit (poly_gen t) 4 = (bit t 0 \<noteq> (bit t 2 \<noteq> (bit t 3 \<noteq> bit t 4)))"
proof -
  have "bit (if b then x else 0) i \<longleftrightarrow> b \<and> bit x i" for b i and x :: u32 by simp
  note [simp] = this
  show "bit (poly_gen t) 0 = (bit t 1 \<noteq> (bit t 3 \<noteq> bit t 4))"
    "bit (poly_gen t) 1 = (bit t 0 \<noteq> (bit t 2 \<noteq> bit t 4))"
    "bit (poly_gen t) 2 = (bit t 1 \<noteq> bit t 3)"
    "bit (poly_gen t) 3 = (bit t 1 \<noteq> (bit t 2 \<noteq> bit t 3))"
    "bit (poly_gen t) 4 = (bit t 0 \<noteq> (bit t 2 \<noteq> (bit t 3 \<noteq> bit t 4)))"
    by (simp_all add: poly_gen_unfold bit_xor_iff split del: if_split)
qed

lemma poly_shift_0:
  assumes "take_bit 30 c = c" and "poly_shift c = 0" shows "c = 0"
proof -
  define t where "t = drop_bit 25 c"
  have "bit (poly_gen t) i = False" if "i < 5" for i
  proof -
    have "bit (poly_shift c) i = bit (poly_gen t) i"
      using that by (simp add: poly_shift_take_bit t_def bit_xor_iff bit_push_bit_iff)
    then show ?thesis using assms(2) by simp
  qed
  from this [of 0] this [of 1] this [of 2] this [of 3] this [of 4]
  have low: "\<not> bit t 0" "\<not> bit t 1" "\<not> bit t 2" "\<not> bit t 3" "\<not> bit t 4"
    unfolding poly_gen_bits by auto
  have "\<not> bit t i" for i
  proof (cases "i < 5")
    case True
    then have "i = 0 \<or> i = 1 \<or> i = 2 \<or> i = 3 \<or> i = 4" by linarith
    then show ?thesis using low by auto
  next
    case False
    have "bit t i = bit (take_bit 30 c) (25 + i)" unfolding assms(1) t_def by (simp add: bit_drop_bit_eq)
    then show ?thesis using False by (simp add: bit_take_bit_iff)
  qed
  then have t: "t = 0" by (simp add: bit_eq_iff)
  then have "take_bit 25 c = c" unfolding t_def by (simp only: take_bit_eq_self_iff_drop_bit_eq_0)
  then have pc: "push_bit 5 c = 0" using assms(2) t by (simp add: poly_shift_take_bit t_def [symmetric] poly_gen_0)
  have "\<not> bit c i" for i
  proof (cases "i < 25")
    case True
    then have "bit (push_bit 5 c) (i + 5) = bit c i" by (simp add: bit_push_bit_iff)
    then show ?thesis using pc by simp
  next
    case False
    have "bit c i = bit (take_bit 25 c) i" using \<open>take_bit 25 c = c\<close> by simp
    then show ?thesis using False by (simp add: bit_take_bit_iff)
  qed
  then show ?thesis by (simp add: bit_eq_iff)
qed

lemma byte_bound: "take_bit 30 (ucast (v :: byte) :: u32) = ucast v"
  by (simp add: bit_eq_iff bit_take_bit_iff bit_ucast_iff) (use bit_imp_le_length in fastforce)

lemma polymod_step_bound: "take_bit 30 (polymod_step v c) = polymod_step v c"
  by (simp add: polymod_step_shift take_bit_xor poly_shift_bound byte_bound)

lemma fold_polymod_bound:
  "take_bit 30 c = c \<Longrightarrow> take_bit 30 (fold polymod_step vs c) = fold polymod_step vs c"
  by (induction vs arbitrary: c) (simp_all add: polymod_step_bound)

lemma fold_polymod_inj:
  assumes "take_bit 30 c = c" and "take_bit 30 c' = c'" and "c \<noteq> c'"
  shows "fold polymod_step vs c \<noteq> fold polymod_step vs c'"
  using assms
proof (induction vs arbitrary: c c')
  case (Cons v vs)
  have "polymod_step v c \<noteq> polymod_step v c'"
  proof
    assume "polymod_step v c = polymod_step v c'"
    then have "poly_shift (c XOR c') = 0" by (simp add: polymod_step_shift poly_shift_xor xor_right_cancel)
    moreover have "take_bit 30 (c XOR c') = c XOR c'" using Cons.prems(1,2) by (simp add: take_bit_xor)
    ultimately have "c XOR c' = 0" by (rule poly_shift_0 [rotated])
    then show False using Cons.prems(3) by (metis xor_self_eq xor.right_neutral xor.assoc)
  qed
  then show ?case using Cons.IH by (simp add: polymod_step_bound)
qed simp

lemma polymod_update:
  assumes "i < length vs" and "vs ! i \<noteq> v" and "take_bit 30 c = c"
  shows "fold polymod_step (vs[i := v]) c \<noteq> fold polymod_step vs c"
proof -
  have vs: "vs = take i vs @ vs ! i # drop (Suc i) vs" using assms(1) by (simp add: id_take_nth_drop)
  have vs': "vs[i := v] = take i vs @ v # drop (Suc i) vs" using assms(1) by (simp add: upd_conv_take_nth_drop)
  have "polymod_step v s \<noteq> polymod_step (vs ! i) s" for s
    using assms(2) by (simp add: polymod_step_shift xor_right_cancel ucast_byte_inj xor.commute [of "poly_shift s"])
  then show ?thesis
    by (subst vs', subst (2) vs) (simp add: fold_polymod_inj polymod_step_bound)
qed

lemma polymod_checksum_step:
  assumes "take_bit 30 q = q" and "j \<le> 5"
  shows "polymod_step (ucast (drop_bit (5 * j) q AND 31)) (s XOR drop_bit (5 * Suc j) q)
       = poly_shift s XOR drop_bit (5 * j) q"
proof -
  have q: "\<not> bit q n" if "30 \<le> n" for n
    using that assms(1) by (metis bit_take_bit_iff not_le)
  have m: "(31 :: u32) = mask 5" by (simp add: mask_eq_exp_minus_1)
  have "take_bit 25 (drop_bit (5 * Suc j) q) = drop_bit (5 * Suc j) q"
  proof (rule bit_word_eqI)
    fix n
    show "bit (take_bit 25 (drop_bit (5 * Suc j) q)) n \<longleftrightarrow> bit (drop_bit (5 * Suc j) q) n"
      using q [of "5 * Suc j + n"] by (cases "n < 25") (simp_all add: bit_take_bit_iff bit_drop_bit_eq)
  qed
  then have "poly_shift (drop_bit (5 * Suc j) q) = push_bit 5 (drop_bit (5 * Suc j) q)"
    by (rule poly_shift_small)
  moreover have "push_bit 5 (drop_bit (5 * Suc j) q) XOR ucast (ucast (drop_bit (5 * j) q AND 31) :: byte)
      = drop_bit (5 * j) q"
  proof (rule bit_word_eqI)
    fix n :: nat
    assume n: "n < LENGTH(32)"
    show "bit (push_bit 5 (drop_bit (5 * Suc j) q) XOR ucast (ucast (drop_bit (5 * j) q AND 31) :: byte)) n
        \<longleftrightarrow> bit (drop_bit (5 * j) q) n"
    proof (cases "n < 5")
      case True
      then show ?thesis unfolding m
        by (simp add: bit_xor_iff bit_push_bit_iff bit_drop_bit_eq bit_ucast_iff bit_and_iff bit_mask_iff)
    next
      case False
      then have "5 * Suc j + (n - 5) = 5 * j + n" by simp
      with False n show ?thesis unfolding m
        by (simp add: bit_xor_iff bit_push_bit_iff bit_drop_bit_eq bit_ucast_iff bit_and_iff bit_mask_iff)
    qed
  qed
  ultimately show ?thesis by (simp add: polymod_step_shift poly_shift_xor xor.assoc)
qed

lemma checksum_ok: "bech32VerifyChecksum hrp (data @ bech32CreateChecksum hrp data)"
proof -
  define c where "c = fold polymod_step (bech32HrpExpand hrp @ data) 1"
  define P where "P = fold polymod_step [0, 0, 0, 0, 0, 0] c"
  define q where "q = P XOR 1"
  have "take_bit 30 P = P" by (simp add: P_def polymod_step_bound)
  then have q: "take_bit 30 q = q" by (simp add: q_def take_bit_xor)
  have c: "c = c XOR drop_bit 30 q" using q by (simp add: take_bit_eq_self_iff_drop_bit_eq_0)
  have six: "[0..<6] = [0, 1, 2, 3, 4, 5]" by (simp add: upt_rec)
  note st = polymod_checksum_step [OF q, of 5, simplified] polymod_checksum_step [OF q, of 4, simplified]
    polymod_checksum_step [OF q, of 3, simplified] polymod_checksum_step [OF q, of 2, simplified]
    polymod_checksum_step [OF q, of 1, simplified] polymod_checksum_step [OF q, of 0, simplified]
  have "bech32CreateChecksum hrp data = map (\<lambda>i. ucast (drop_bit (5 * (5 - i)) q AND 31)) [0..<6]"
    by (simp add: bech32CreateChecksum_def bech32Polymod_def q_def P_def c_def)
  then have "fold polymod_step (bech32CreateChecksum hrp data) c
      = fold polymod_step (map (\<lambda>i. ucast (drop_bit (5 * (5 - i)) q AND 31)) [0, 1, 2, 3, 4, 5])
          (c XOR drop_bit 30 q)"
    by (simp only: six c [symmetric])
  also have "\<dots> = P XOR q" by (simp add: st P_def polymod_step_shift [of 0])
  also have "\<dots> = 1" by (simp add: q_def)
  finally show ?thesis by (simp add: bech32VerifyChecksum_def bech32Polymod_def c_def)
qed

section \<open>Characters\<close>

lemma IndexByte_nth: "distinct xs \<Longrightarrow> n < length xs \<Longrightarrow> IndexByte xs (xs ! n) = Some n"
  by (induction xs arbitrary: n) (auto simp: nth_Cons split: nat.splits)

lemma IndexByte_Some: "IndexByte xs c = Some n \<Longrightarrow> n < length xs \<and> xs ! n = c"
  by (induction xs arbitrary: n) (auto split: if_splits)

lemma charset_facts:
  "distinct bech32Charset" "length bech32Charset = 32" "CHR ''1'' \<notin> set bech32Charset"
  "ascii bech32Charset" "map ascii_lower bech32Charset = bech32Charset"
  by (simp_all add: bech32Charset_def ascii_def ascii_lower_def)

definition data_char :: "byte \<Rightarrow> char" where
  "data_char p = bech32Charset ! unat p"

lemma data_char_set: "p < 32 \<Longrightarrow> data_char p \<in> set bech32Charset"
  by (simp add: data_char_def charset_facts word_less_nat_alt)

lemma bech32_data_chars:
  assumes "\<forall>p \<in> set ds. p < 32"
  shows "bech32_data (map data_char ds) = Some ds"
  using assms
proof (induction ds)
  case (Cons d ds)
  then have "IndexByte bech32Charset (data_char d) = Some (unat d)"
    unfolding data_char_def by (intro IndexByte_nth) (simp_all add: charset_facts word_less_nat_alt)
  then show ?case using Cons by simp
qed simp

lemma bech32_data_Some:
  "bech32_data cs = Some ds \<Longrightarrow> cs = map data_char ds \<and> (\<forall>p \<in> set ds. p < 32)"
proof (induction cs arbitrary: ds)
  case (Cons c cs)
  then obtain n es where n: "IndexByte bech32Charset c = Some n" and es: "bech32_data cs = Some es"
    and ds: "ds = of_nat n # es"
    by (auto split: option.splits)
  have "n < 32" "bech32Charset ! n = c" using IndexByte_Some [OF n] charset_facts by simp_all
  moreover from this have "unat (of_nat n :: byte) = n" by (simp add: unat_of_nat)
  ultimately show ?case using Cons.IH [OF es] by (simp add: ds data_char_def word_less_nat_alt)
qed simp

lemma LastIndexByte_None: "LastIndexByte xs c = None \<longleftrightarrow> c \<notin> set xs"
  by (induction xs) (auto split: option.splits)

lemma LastIndexByte_append: "c \<notin> set ys \<Longrightarrow> LastIndexByte (xs @ c # ys) c = Some (length xs)"
  by (induction xs) (auto simp: LastIndexByte_None split: option.splits)

lemma LastIndexByte_Some:
  "LastIndexByte xs c = Some n \<Longrightarrow> n < length xs \<and> xs ! n = c \<and> c \<notin> set (drop (Suc n) xs)"
  by (induction xs arbitrary: n) (auto simp: LastIndexByte_None split: option.splits if_splits)

definition lower_ascii :: "string \<Rightarrow> bool" where
  "lower_ascii s \<longleftrightarrow> ascii s \<and> map ascii_lower s = s"

lemma lower_ascii_iff: "lower_ascii s \<longleftrightarrow> (\<forall>c \<in> set s. (of_char c :: nat) < 128 \<and> ascii_lower c = c)"
  by (auto simp: lower_ascii_def ascii_def list_all_iff map_idI intro: map_eq_conv [THEN iffD1])
    (metis map_eq_conv map_ident)+

lemma lower_ascii_chars: "\<forall>p \<in> set ds. p < 32 \<Longrightarrow> lower_ascii (map data_char ds)"
proof -
  have "lower_ascii bech32Charset" by (simp add: lower_ascii_def charset_facts)
  then show "\<forall>p \<in> set ds. p < 32 \<Longrightarrow> lower_ascii (map data_char ds)"
    using data_char_set by (auto simp: lower_ascii_iff)
qed

lemma ToLower_lower: "lower_ascii s \<Longrightarrow> ToLower U s = s"
  by (simp add: lower_ascii_def ToLower_def)

text \<open>What decoding computes on a string that is lower case already.\<close>

lemma bech32Decode_parts:
  assumes "lower_ascii hrp" and "\<forall>p \<in> set ds. p < 32"
  shows "bech32Decode U (hrp @ ''1'' @ map data_char ds) =
    (if length hrp + length ds < 7 then Inl (ErrText ''invalid bech32 string'')
     else if hrp = [] \<or> length ds < 6 then Inl (ErrText ''invalid bech32 separator'')
     else if \<not> bech32VerifyChecksum hrp ds then Inl (ErrText ''invalid bech32 checksum'')
     else Inr (hrp, take (length ds - 6) ds))"
proof -
  let ?s = "hrp @ ''1'' @ map data_char ds"
  have "lower_ascii ''1''" by (simp add: lower_ascii_def ascii_def ascii_lower_def)
  then have low: "ToLower U ?s = ?s"
    using assms(1) lower_ascii_chars [OF assms(2)] by (intro ToLower_lower) (auto simp: lower_ascii_iff)
  have "CHR ''1'' \<notin> set (map data_char ds)" using assms(2) data_char_set charset_facts(3) by auto
  then have last: "LastIndexByte ?s (CHR ''1'') = Some (length hrp)"
    using LastIndexByte_append [of "CHR ''1''" "map data_char ds" hrp] by simp
  show ?thesis
    unfolding bech32Decode_def low using last bech32_data_chars [OF assms(2)] by (auto simp: Let_def)
qed

section \<open>Bits in groups\<close>

text \<open>The bits of a word, most significant first, and the stream of bits of a list of groups.\<close>

definition bits_of :: "nat \<Rightarrow> 'a::len word \<Rightarrow> bool list" where
  "bits_of n w = map (bit w) (rev [0..<n])"

lemma length_bits_of [simp]: "length (bits_of n w) = n"
  by (simp add: bits_of_def)

lemma bits_of_0 [simp]: "bits_of 0 w = []"
  by (simp add: bits_of_def)

lemma bits_of_zero: "bits_of n (0 :: 'a::len word) = replicate n False"
  by (simp add: bits_of_def list_eq_iff_nth_eq)

lemma bits_of_cong: "(\<And>i. i < n \<Longrightarrow> bit w i = bit w' i) \<Longrightarrow> bits_of n w = bits_of n w'"
  by (simp add: bits_of_def)

lemma bits_of_append: "bits_of (a + b) w = bits_of a (drop_bit b w) @ bits_of b w"
proof -
  have "[0..<a + b] = [0..<b] @ map (\<lambda>i. i + b) [0..<a]"
    using upt_add_eq_append [of 0 b a] by (simp add: map_add_upt add.commute)
  then show ?thesis by (simp add: bits_of_def rev_map bit_drop_bit_eq o_def add.commute)
qed

lemma bits_of_inj:
  assumes "take_bit n w = w" and "take_bit n w' = w'" and "bits_of n w = bits_of n w'"
  shows "w = w'"
proof (rule bit_word_eqI)
  fix i
  have "bit w j = bit w' j" if "j < n" for j
    using assms(3) that by (simp add: bits_of_def)
  then show "bit w i = bit w' i"
    using assms(1,2) by (metis bit_take_bit_iff)
qed

definition bit_stream :: "nat \<Rightarrow> byte list \<Rightarrow> bool list" where
  "bit_stream n gs = concat (map (bits_of n) gs)"

lemma bit_stream_simps [simp]:
  "bit_stream n [] = []" "bit_stream n (g # gs) = bits_of n g @ bit_stream n gs"
  "bit_stream n (gs @ hs) = bit_stream n gs @ bit_stream n hs"
  by (simp_all add: bit_stream_def)

lemma length_bit_stream [simp]: "length (bit_stream n gs) = n * length gs"
  by (induction gs) simp_all

definition groups :: "nat \<Rightarrow> byte list \<Rightarrow> bool" where
  "groups n gs \<longleftrightarrow> (\<forall>g \<in> set gs. take_bit n g = g)"

lemma bit_stream_inj:
  assumes "groups n gs" and "groups n hs" and "bit_stream n gs = bit_stream n hs" and "0 < n"
  shows "gs = hs"
  using assms(1-3)
proof (induction gs arbitrary: hs)
  case Nil
  then have "n * length hs = 0" by (metis length_bit_stream length_0_conv list.size(3) mult_0_right)
  then show ?case using assms(4) by simp
next
  case (Cons g gs)
  have "n * length hs = n * Suc (length gs)"
    using arg_cong [OF Cons.prems(3), of length] by simp
  then obtain h hs' where hs: "hs = h # hs'" using assms(4) by (cases hs) auto
  then have "bits_of n g = bits_of n h" "bit_stream n gs = bit_stream n hs'" using Cons.prems(3) by simp_all
  moreover have "take_bit n g = g" "take_bit n h = h" "groups n gs" "groups n hs'"
    using Cons.prems(1,2) by (simp_all add: groups_def hs)
  ultimately show ?case using bits_of_inj Cons.IH unfolding hs by blast
qed

lemma emit_groups_mask:
  "emit_groups t acc bits ret =
     (if t \<le> bits \<and> 0 < t
      then emit_groups t acc (bits - t) (ret @ [ucast (drop_bit (bits - t) acc AND mask t)]) else (bits, ret))"
  by (subst emit_groups.simps) (simp add: Let_def mask_eq_exp_minus_1)

lemma emit_groups_stream:
  assumes "emit_groups t acc bits ret = (bits', ret')" and "0 < t" and "t \<le> 8" and "groups t ret"
  shows "bits' < t \<and> groups t ret'
    \<and> bit_stream t ret' @ bits_of bits' acc = bit_stream t ret @ bits_of bits acc"
  using assms
proof (induction bits arbitrary: ret rule: less_induct)
  case (less bits)
  show ?case
  proof (cases "t \<le> bits")
    case True
    define g where "g = (ucast (drop_bit (bits - t) acc AND mask t) :: byte)"
    have g: "take_bit t g = g" "bits_of t g = bits_of t (drop_bit (bits - t) acc)"
      unfolding g_def using less.prems(3) by (auto intro!: bits_of_cong bit_word_eqI
          simp: bit_take_bit_iff bit_ucast_iff bit_and_iff bit_mask_iff)
    have "emit_groups t acc (bits - t) (ret @ [g]) = (bits', ret')"
      using less.prems(1,2) True by (simp add: emit_groups_mask [of t acc bits] g_def)
    moreover have "groups t (ret @ [g])" using less.prems(4) g(1) by (simp add: groups_def)
    ultimately have "bits' < t \<and> groups t ret'
      \<and> bit_stream t ret' @ bits_of bits' acc = bit_stream t (ret @ [g]) @ bits_of (bits - t) acc"
      using less.IH [of "bits - t" "ret @ [g]"] less.prems(2,3) True by simp
    moreover have "bits_of bits acc = bits_of t g @ bits_of (bits - t) acc"
      using bits_of_append [of t "bits - t" acc] True g(2) by simp
    ultimately show ?thesis by simp
  next
    case False
    then show ?thesis using less.prems(1,4) by (simp add: emit_groups_mask [of t acc bits])
  qed
qed

lemma convert_acc:
  assumes "bits < t" and "t \<le> 8" and "f \<le> 8" and "0 < f" and "take_bit f v = (v :: byte)"
  shows "bits_of (bits + f) ((push_bit f acc OR ucast v) AND mask (f + t - 1) :: u64)
         = bits_of bits acc @ bits_of f v"
proof -
  let ?a = "(push_bit f acc OR ucast v) AND mask (f + t - 1) :: u64"
  have v: "\<not> bit v i" if "f \<le> i" for i using that assms(5) by (metis bit_take_bit_iff not_le)
  have "bits_of f ?a = bits_of f v"
    using assms(1-4) by (intro bits_of_cong)
      (auto simp: bit_and_iff bit_or_iff bit_push_bit_iff bit_ucast_iff bit_mask_iff)
  moreover have "bits_of bits (drop_bit f ?a) = bits_of bits acc"
    using assms(1-4) v by (intro bits_of_cong)
      (auto simp: bit_and_iff bit_or_iff bit_push_bit_iff bit_ucast_iff bit_mask_iff bit_drop_bit_eq)
  ultimately show ?thesis by (simp add: bits_of_append)
qed

lemma group_check: 
  assumes "f \<le> 8" 
  shows "drop_bit f (ucast v :: u64) = 0 \<longleftrightarrow> take_bit f v = (v :: byte)"
proof -
  have "drop_bit f (ucast v :: u64) = 0 \<longleftrightarrow> take_bit f (ucast v :: u64) = ucast v"
    by (simp only: take_bit_eq_self_iff_drop_bit_eq_0)
  also have "\<dots> \<longleftrightarrow> take_bit f v = v"
  proof -
    have "n < 8" if "bit v n" for n using bit_imp_le_length [OF that] by simp
    then have "n < 64" if "bit v n" for n using that by fastforce
    then show ?thesis using \<open>\<And>n. bit v n \<Longrightarrow> n < 8\<close>
      by (simp add: bit_eq_iff bit_take_bit_iff bit_ucast_iff) blast
  qed
  finally show ?thesis .
qed

lemma convert_loop_stream:
  assumes "0 < f" and "f \<le> 8" and "0 < t" and "t \<le> 8" and "groups t ret" and "bits < t"
  shows "case convert_loop f t data acc bits ret of
      Inl e \<Rightarrow> \<not> groups f data
    | Inr (acc', bits', ret') \<Rightarrow> groups f data \<and> bits' < t \<and> groups t ret'
        \<and> bit_stream t ret' @ bits_of bits' acc' = bit_stream t ret @ bits_of bits acc @ bit_stream f data"
  using assms(5,6)
proof (induction data arbitrary: acc bits ret)
  case (Cons v data)
  define a where "a = (push_bit f acc OR ucast v) AND (mask (f + t - 1) :: u64)"
  obtain b r where e: "emit_groups t a (bits + f) ret = (b, r)" by fastforce
  have loop: "convert_loop f t (v # data) acc bits ret =
      (if take_bit f v \<noteq> v then Inl (ErrText ''invalid bit group'') else convert_loop f t data a b r)"
    using e by (simp add: Let_def group_check [OF assms(2)] mask_eq_exp_minus_1 a_def)
  note st = emit_groups_stream [OF e assms(3,4) Cons.prems(1)]
  show ?case
  proof (cases "take_bit f v = v")
    case True
    have "bits_of (bits + f) a = bits_of bits acc @ bits_of f v"
      unfolding a_def using convert_acc [OF Cons.prems(2) assms(4,2,1) True] .
    then show ?thesis using Cons.IH [of r b a] st True
      unfolding loop by (auto simp: groups_def split: sum.splits)
  next
    case False
    then show ?thesis unfolding loop by (simp add: groups_def)
  qed
qed (simp add: groups_def)

lemma pad_group:
  assumes "bits < t" and "t \<le> 8"
  shows "bits_of t (ucast (push_bit (t - bits) acc AND mask t :: u64) :: byte)
         = bits_of bits acc @ replicate (t - bits) False"
    and "take_bit t (ucast (push_bit (t - bits) acc AND mask t :: u64) :: byte)
         = ucast (push_bit (t - bits) acc AND mask t :: u64)"
    and "push_bit (t - bits) acc AND mask t = 0 \<longleftrightarrow> bits_of bits acc = replicate bits False"
proof -
  let ?p = "push_bit (t - bits) acc AND mask t :: u64"
  have hi: "bits_of bits (drop_bit (t - bits) ?p) = bits_of bits acc"
    using assms by (intro bits_of_cong)
      (auto simp: bit_and_iff bit_push_bit_iff bit_mask_iff bit_drop_bit_eq)
  have "bits_of (t - bits) ?p = bits_of (t - bits) (0 :: u64)"
    by (intro bits_of_cong) (auto simp: bit_and_iff bit_push_bit_iff)
  then have lo: "bits_of (t - bits) ?p = replicate (t - bits) False" by (simp only: bits_of_zero)
  have b: "bits_of t (ucast ?p :: byte) = bits_of t ?p"
    using assms by (intro bits_of_cong) (simp add: bit_ucast_iff)
  have p: "bits_of t ?p = bits_of bits acc @ replicate (t - bits) False"
    using bits_of_append [of bits "t - bits" ?p] assms(1) hi lo by simp
  show "bits_of t (ucast ?p :: byte) = bits_of bits acc @ replicate (t - bits) False"
    using b p by simp
  show "take_bit t (ucast ?p :: byte) = ucast ?p"
    by (rule bit_word_eqI) (auto simp: bit_take_bit_iff bit_ucast_iff bit_and_iff bit_mask_iff)
  have "take_bit t ?p = ?p"
    by (rule bit_word_eqI) (auto simp: bit_take_bit_iff bit_and_iff bit_mask_iff)
  then have "?p = 0 \<longleftrightarrow> bits_of t ?p = bits_of t (0 :: u64)"
    using bits_of_inj [of t ?p 0] by auto
  also have "bits_of t (0 :: u64) = replicate bits False @ replicate (t - bits) False"
    using assms(1) by (simp add: bits_of_zero replicate_add [symmetric])
  finally show "?p = 0 \<longleftrightarrow> bits_of bits acc = replicate bits False" using p by simp
qed

lemma convertBits_pad:
  assumes "0 < f" and "f \<le> 8" and "0 < t" and "t \<le> 8" and "groups f data"
  obtains r z where "convertBits data f t True = Inr r" and "groups t r" and "z < t"
    and "bit_stream t r = bit_stream f data @ replicate z False"
proof -
  obtain acc bits ret where l: "convert_loop f t data 0 0 [] = Inr (acc, bits, ret)"
    and r: "bits < t" "groups t ret" "bit_stream t ret @ bits_of bits acc = bit_stream f data"
    using convert_loop_stream [OF assms(1-4), of "[]" 0 data 0] assms(3,5)
    by (fastforce simp: groups_def split: sum.splits)
  show thesis
  proof (cases "bits = 0")
    case True
    then show ?thesis using that [of ret 0] l r assms(3) by (simp add: convertBits_def)
  next
    case False
    let ?p = "push_bit (t - bits) acc AND mask t :: u64"
    have "convertBits data f t True = Inr (ret @ [ucast ?p])"
      using l False by (simp add: convertBits_def mask_eq_exp_minus_1)
    moreover have "groups t (ret @ [ucast ?p])" using r(2) pad_group(2) [OF r(1) assms(4)] by (simp add: groups_def)
    moreover have "bit_stream t (ret @ [ucast ?p]) = bit_stream f data @ replicate (t - bits) False"
      using pad_group(1) [OF r(1) assms(4)] r(3) by (simp flip: r(3))
    ultimately show ?thesis using that [of "ret @ [ucast ?p]" "t - bits"] False r(1) by simp
  qed
qed

lemma convertBits_strict:
  assumes "0 < f" and "f \<le> 8" and "0 < t" and "t \<le> 8" and "groups t ret"
  shows "convertBits data f t False = Inr ret \<longleftrightarrow>
    groups f data \<and> (\<exists>z. z < f \<and> z < t \<and> bit_stream f data = bit_stream t ret @ replicate z False)"
proof (cases "convert_loop f t data 0 0 []")
  case (Inl e)
  then show ?thesis using convert_loop_stream [OF assms(1-4), of "[]" 0 data 0] assms(3)
    by (simp add: convertBits_def groups_def)
next
  case (Inr x)
  obtain acc bits r where x: "x = (acc, bits, r)" by (cases x) auto
  have r: "bits < t" "groups t r" "bit_stream t r @ bits_of bits acc = bit_stream f data" "groups f data"
    using convert_loop_stream [OF assms(1-4), of "[]" 0 data 0] assms(3) Inr x
    by (simp_all add: groups_def)
  let ?p = "push_bit (t - bits) acc AND mask t :: u64"
  have c: "convertBits data f t False = Inr ret \<longleftrightarrow> bits < f \<and> ?p = 0 \<and> r = ret"
    using Inr by (auto simp: convertBits_def x mask_eq_exp_minus_1)
  show ?thesis
  proof
    assume "convertBits data f t False = Inr ret"
    then show "groups f data \<and> (\<exists>z. z < f \<and> z < t \<and> bit_stream f data = bit_stream t ret @ replicate z False)"
      using c r pad_group(3) [OF r(1) assms(4), of acc] by auto
  next
    assume "groups f data \<and> (\<exists>z. z < f \<and> z < t \<and> bit_stream f data = bit_stream t ret @ replicate z False)"
    then obtain z where z: "z < f" "z < t" "bit_stream t r @ bits_of bits acc = bit_stream t ret @ replicate z False"
      using r(3) by auto
    have len: "t * length r + bits = t * length ret + z" using arg_cong [OF z(3), of length] by simp
    then have "(t * length r + bits) mod t = (t * length ret + z) mod t" by simp
    then have "bits = z" using r(1) z(2) by simp
    then have "length r = length ret" using len assms(3) by simp
    then have "bit_stream t r = bit_stream t ret" "bits_of bits acc = replicate z False"
      using z(3) by simp_all
    then show "convertBits data f t False = Inr ret"
      using c z(1) \<open>bits = z\<close> pad_group(3) [OF r(1) assms(4), of acc]
        bit_stream_inj [OF r(2) assms(5) _ assms(3)] by simp
  qed
qed

lemma groups_8: "groups 8 bs"
  by (simp add: groups_def bit_eq_iff bit_take_bit_iff)

lemma convertBits_inverse: "convertBits bs 8 5 True = Inr ds \<longleftrightarrow> convertBits ds 5 8 False = Inr bs"
proof -
  obtain r z where r: "convertBits bs 8 5 True = Inr r" "groups 5 r" "z < 5"
    "bit_stream 5 r = bit_stream 8 bs @ replicate z False"
    using convertBits_pad [of 8 5 bs] groups_8 by auto
  have "ds = r \<longleftrightarrow> groups 5 ds \<and> (\<exists>z. z < 5 \<and> z < 8 \<and> bit_stream 5 ds = bit_stream 8 bs @ replicate z False)"
  proof
    assume "groups 5 ds \<and> (\<exists>z. z < 5 \<and> z < 8 \<and> bit_stream 5 ds = bit_stream 8 bs @ replicate z False)"
    then obtain y where d: "groups 5 ds" "y < 5" "bit_stream 5 ds = bit_stream 8 bs @ replicate y False" by auto
    have "5 * length ds = 8 * length bs + y" "5 * length r = 8 * length bs + z"
      using arg_cong [OF d(3), of length] arg_cong [OF r(4), of length] by simp_all
    then have "y = z" using d(2) r(3) by presburger
    then show "ds = r" using bit_stream_inj [OF d(1) r(2)] d(3) r(4) by simp
  qed (use r in auto)
  then show ?thesis using r(1) convertBits_strict [of 5 8 bs ds] groups_8 by auto
qed

section \<open>Properties\<close>

lemma five_bits: "ucast (x AND 31 :: u32) < (32 :: byte)"
proof -
  have m: "(31 :: u32) = mask 5" by (simp add: mask_eq_exp_minus_1)
  have "ucast (x AND 31) = (take_bit 5 (ucast x) :: byte)"
    unfolding m by (rule bit_word_eqI) (auto simp: bit_take_bit_iff bit_ucast_iff bit_and_iff bit_mask_iff)
  moreover have "unat (take_bit 5 p) < 32" for p :: byte
    using take_bit_nat_less_exp [of 5 "unat p"] by (simp add: unsigned_take_bit_eq)
  ultimately show ?thesis by (simp add: word_less_nat_alt)
qed

lemma checksum_groups: "p \<in> set (bech32CreateChecksum hrp data) \<Longrightarrow> p < 32"
  using five_bits by (auto simp: bech32CreateChecksum_def Let_def)

lemma groups_5: "groups 5 ds \<longleftrightarrow> (\<forall>p \<in> set ds. p < 32)"
proof -
  have "take_bit 5 p = p \<longleftrightarrow> p < 32" for p :: byte
  proof -
    have "take_bit 5 p = p \<longleftrightarrow> take_bit 5 (unat p) = unat p"
      by (metis unsigned_take_bit_eq unsigned_word_eqI)
    then show ?thesis by (simp add: take_bit_nat_eq_self_iff word_less_nat_alt)
  qed
  then show ?thesis by (simp add: groups_def)
qed

lemma bech32_encode_decode:
  assumes "lower_ascii hrp" and "hrp \<noteq> []" and "\<forall>p \<in> set data. p < 32"
  shows "\<exists>s. bech32Encode U hrp data = Inr s \<and> bech32Decode U s = Inr (hrp, data)"
proof -
  let ?ds = "data @ bech32CreateChecksum hrp data"
  have ds: "\<forall>p \<in> set ?ds. p < 32" using assms(3) checksum_groups by auto
  have len: "length (bech32CreateChecksum hrp data) = 6" by (simp add: bech32CreateChecksum_def Let_def)
  have "\<not> list_ex (\<lambda>p. 32 \<le> p) ?ds" using ds by (auto simp: list_ex_iff not_le)
  then have "bech32Encode U hrp data = Inr (hrp @ ''1'' @ map data_char ?ds)"
    using assms(2) ToLower_lower [OF assms(1)] by (simp add: bech32Encode_def data_char_def Let_def)
  moreover have "bech32Decode U (hrp @ ''1'' @ map data_char ?ds) = Inr (hrp, data)"
    using bech32Decode_parts [OF assms(1) ds] checksum_ok [of hrp data] len assms(2) by (cases hrp) simp_all
  ultimately show ?thesis by blast
qed

lemma encode_address:
  assumes "lower_ascii prefix" and "prefix \<noteq> []"
  shows "\<exists>fiveBit addr. convertBits payload 8 5 True = Inr fiveBit
    \<and> bech32Encode U prefix fiveBit = Inr addr
    \<and> DecodeAddress U addr prefix = Inr payload
    \<and> LockingScriptForAddress U addr prefix = Inr (ScriptForPubKeyHash payload)"
proof -
  obtain ds z where ds: "convertBits payload 8 5 True = Inr ds" "groups 5 ds"
    using convertBits_pad [of 8 5 payload] groups_8 by auto
  obtain s where s: "bech32Encode U prefix ds = Inr s" "bech32Decode U s = Inr (prefix, ds)"
    using bech32_encode_decode [OF assms] ds(2) groups_5 by blast
  have "DecodeAddress U s prefix = Inr payload"
    using s(2) ds(1) convertBits_inverse by (simp add: DecodeAddress_def)
  then show ?thesis using s(1) ds(1) by (auto simp: LockingScriptForAddress_def)
qed

text \<open>
  C17. Addresses round-trip. Let the prefix be a non-empty string of lower-case ASCII, as those of the
  three networks are. For every payload, the 5-bit regrouping and the Bech32 encoding succeed, and the
  resulting address decodes under that prefix to exactly the payload, so its locking script is the
  one that pays to it.
\<close>

theorem address_roundtrip:
  assumes "lower_ascii prefix" and "prefix \<noteq> []"
  shows "\<exists>fiveBit addr. convertBits payload 8 5 True = Inr fiveBit
    \<and> bech32Encode U prefix fiveBit = Inr addr
    \<and> DecodeAddress U addr prefix = Inr payload
    \<and> LockingScriptForAddress U addr prefix = Inr (ScriptForPubKeyHash payload)"
  using assms by (rule encode_address)

theorem address_roundtrip_witness:
  "\<exists>fiveBit addr. convertBits [0, 255] 8 5 True = Inr fiveBit
    \<and> bech32Encode \<lparr>uni_ToLower = id, uni_ToUpper = id\<rparr> (net_AddressPrefix Regtest) fiveBit = Inr addr
    \<and> DecodeAddress \<lparr>uni_ToLower = id, uni_ToUpper = id\<rparr> addr (net_AddressPrefix Regtest) = Inr [0, 255]"
proof -
  have "lower_ascii (net_AddressPrefix Regtest)" "net_AddressPrefix Regtest \<noteq> []"
    by (simp_all add: Regtest_def lower_ascii_def ascii_def ascii_lower_def)
  then show ?thesis using address_roundtrip by blast
qed

text \<open>
  Regrouping is a bijection: \<open>convertBits\<close> from 8 to 5 bits with padding returns \<open>ds\<close> for \<open>bs\<close>
  exactly when \<open>convertBits\<close> from 5 to 8 bits without padding returns \<open>bs\<close> for \<open>ds\<close>. The strict
  direction therefore accepts one 5-bit string per payload, with no group out of range and no stray
  or superfluous padding.
\<close>

theorem convertBits_bijection:
  "convertBits bs 8 5 True = Inr ds \<longleftrightarrow> convertBits ds 5 8 False = Inr bs"
  by (rule convertBits_inverse)

text \<open>
  C18. One mistyped character never goes unnoticed: when a lower-case address decodes, replacing any one
  character after the separator by another character of the alphabet makes decoding fail with the
  checksum error.
\<close>

theorem bech32_detects_substitution:
  assumes "bech32Decode U (hrp @ ''1'' @ cs) = Inr (hrp, data)"
    and "lower_ascii hrp" and "set cs \<subseteq> set bech32Charset"
    and "i < length cs" and "c \<in> set bech32Charset" and "c \<noteq> cs ! i"
  shows "bech32Decode U (hrp @ ''1'' @ cs[i := c]) = Inl (ErrText ''invalid bech32 checksum'')"
proof -
  have chars: "\<exists>ds. xs = map data_char ds \<and> (\<forall>p \<in> set ds. p < 32)" if "set xs \<subseteq> set bech32Charset" for xs
    using that
  proof (induction xs)
    case (Cons x xs)
    then obtain n where n: "n < 32" "bech32Charset ! n = x" by (auto simp: in_set_conv_nth charset_facts)
    obtain ds where "xs = map data_char ds" "\<forall>p \<in> set ds. p < 32" using Cons by auto
    moreover have "unat (of_nat n :: byte) = n" using n(1) by (simp add: unat_of_nat)
    ultimately show ?case using n
      by (intro exI [of _ "of_nat n # ds"]) (simp add: data_char_def word_less_nat_alt)
  qed simp
  obtain ds where ds: "cs = map data_char ds" "\<forall>p \<in> set ds. p < 32" using chars [OF assms(3)] by blast
  obtain d where d: "c = data_char d" "d < 32" using chars [of "[c]"] assms(5) by auto
  have hrp: "hrp \<noteq> []" "6 \<le> length ds" "bech32VerifyChecksum hrp ds" "7 \<le> length hrp + length ds"
    using assms(1) bech32Decode_parts [OF assms(2) ds(2)] by (simp_all add: ds(1) split: if_splits)
  have upd: "cs[i := c] = map data_char (ds[i := d])" "\<forall>p \<in> set (ds[i := d]). p < 32"
    using ds d set_update_subset_insert [of ds i d] by (auto simp: map_update)
  have i: "i < length ds" "ds ! i \<noteq> d" using assms(4,6) d(1) by (auto simp: ds(1))
  have "fold polymod_step ((bech32HrpExpand hrp @ ds)[length (bech32HrpExpand hrp) + i := d]) 1
      \<noteq> fold polymod_step (bech32HrpExpand hrp @ ds) 1"
    using i by (intro polymod_update) simp_all
  then have "\<not> bech32VerifyChecksum hrp (ds[i := d])"
    using hrp(3) by (simp add: bech32VerifyChecksum_def bech32Polymod_def list_update_append)
  then show ?thesis
    using bech32Decode_parts [OF assms(2) upd(2)] hrp by (simp add: upd(1))
qed

lemma demo_polymod: "bech32Polymod [3, 0, 1, 10, 28, 25, 31, 20, 31] = 1"
  by (simp add: bech32Polymod_def polymod_step_def polymod_gen_def gen_def upt_rec)

lemma demo_address:
  "bech32Decode \<lparr>uni_ToLower = id, uni_ToUpper = id\<rparr> (''a'' @ ''1'' @ ''2uel5l'') = Inr (''a'', [])"
proof -
  have "bech32VerifyChecksum ''a'' [10, 28, 25, 31, 20, 31]"
    using demo_polymod by (simp add: bech32VerifyChecksum_def bech32HrpExpand_def string_bytes_def)
  moreover have "''2uel5l'' = map data_char [10, 28, 25, 31, 20, 31]"
    by (simp add: data_char_def bech32Charset_def)
  ultimately show ?thesis
    using bech32Decode_parts [of "''a''" "[10, 28, 25, 31, 20, 31]"]
    by (simp add: lower_ascii_def ascii_def ascii_lower_def)
qed

theorem bech32_detects_substitution_witness:
  "bech32Decode \<lparr>uni_ToLower = id, uni_ToUpper = id\<rparr> ''a12ueq5l'' = Inl (ErrText ''invalid bech32 checksum'')"
proof -
  have "lower_ascii ''a''" by (simp add: lower_ascii_def ascii_def ascii_lower_def)
  from bech32_detects_substitution [OF demo_address this, of 3 "CHR ''q''"]
  show ?thesis by (simp add: bech32Charset_def)
qed

end
