(* ===== verification/Chain.thy ===== *)
theory Chain
  imports Ledger Mempool Miner Address
begin

text \<open>
  Package \<open>chain\<close> (\<open>chain/chain.go\<close>, \<open>chain/protection.go\<close>): the manager that joins store, consensus
  rules, mempool and miner. A \<open>Manager\<close> is a record; a method that changes the store or the mempool
  returns the new record beside its error. The clock, the context, the order in which Go visits the
  mempool's map and the Unicode tables are arguments. The loops that walk the store (\<open>reorg\<close>,
  \<open>RollbackToHeight\<close>) and the mining loop may run forever on some stores, so they are partial
  functions and \<open>None\<close> is a call that never returns.
\<close>

section \<open>Data\<close>

record Manager =
  mgr_Store :: DB
  mgr_Network :: Network
  mgr_Mempool :: "Mempool option"
  mgr_Verifier :: "SignatureVerifier option"

record ChainTip =
  tip_Hash :: string
  tip_Height :: u64
  tip_Bits :: u32
  tip_Timestamp :: i64

record MiningTemplate =
  tmpl_PreviousHash :: string
  tmpl_Height :: u64
  tmpl_Bits :: u32
  tmpl_Target :: string
  tmpl_Transactions :: "string list"
  tmpl_Coinbase :: u64

record MiningSummary =
  sum_Blocks :: u64
  sum_First :: ChainTip
  sum_Last :: ChainTip

definition mgr_New :: "DB \<Rightarrow> Network \<Rightarrow> Mempool option \<Rightarrow> SignatureVerifier option \<Rightarrow> Manager" where
  "mgr_New store net mp verifier =
     \<lparr>mgr_Store = store, mgr_Network = net, mgr_Mempool = mp, mgr_Verifier = verifier\<rparr>"

text \<open>A context: whether it is done at each round of a search, and its error once it is.\<close>

record context_t =
  ctx_Done :: "nat \<Rightarrow> bool"
  ctx_Err :: error

section \<open>Reading the chain\<close>

definition block_tip :: "hash \<Rightarrow> Block \<Rightarrow> ChainTip" where
  "block_tip h b =
     \<lparr>tip_Hash = hex_EncodeToString (hash_bytes h), tip_Height = hdr_Height (blk_Header b),
      tip_Bits = hdr_Bits (blk_Header b), tip_Timestamp = hdr_Timestamp (blk_Header b)\<rparr>"

definition mgr_Tip :: "Manager \<Rightarrow> error + ChainTip" where
  "mgr_Tip m =
     (case Tip (mgr_Store m) of
        Inl _ \<Rightarrow> Inl ErrChainUninitialized
      | Inr h \<Rightarrow>
          case GetBlock (mgr_Store m) h of Inl e \<Rightarrow> Inl e | Inr b \<Rightarrow> Inr (block_tip h b))"

definition TipBlock :: "Manager \<Rightarrow> error + Block" where
  "TipBlock m =
     (case Tip (mgr_Store m) of
        Inl _ \<Rightarrow> Inl ErrChainUninitialized
      | Inr h \<Rightarrow> GetBlock (mgr_Store m) h)"

definition mgr_HeaderByHeight :: "Manager \<Rightarrow> HeaderByHeight" where
  "mgr_HeaderByHeight m height =
     (case BlockHashByHeight (mgr_Store m) height of
        Inl e \<Rightarrow> Inl e
      | Inr h \<Rightarrow> case GetBlock (mgr_Store m) h of Inl e \<Rightarrow> Inl e | Inr b \<Rightarrow> Inr (blk_Header b))"

definition NextBits :: "Manager \<Rightarrow> BlockHeader \<Rightarrow> error + u32" where
  "NextBits m prev = ExpectedBits prev (mgr_Network m) (mgr_HeaderByHeight m)"

section \<open>Starting and extending the chain\<close>

definition InitGenesis :: "context_t \<Rightarrow> Manager \<Rightarrow> (Manager \<times> (error + Block)) option" where
  "InitGenesis ctx m =
     (case Tip (mgr_Store m) of
        Inr h \<Rightarrow> Some (m, GetBlock (mgr_Store m) h)
      | Inl _ \<Rightarrow>
          case Mine (ctx_Done ctx) 0 (CreateGenesisBlock (mgr_Network m)) (net_PowLimit (mgr_Network m)) of
            None \<Rightarrow> None
          | Some (ok, g) \<Rightarrow>
              if \<not> ok then Some (m, Inl (ctx_Err ctx))
              else case ApplyBlock (mgr_Store m) g of
                (d, Some e) \<Rightarrow> Some (m\<lparr>mgr_Store := d\<rparr>, Inl e)
              | (d, None) \<Rightarrow>
                  let d = fst (PutTotalWork d (blk_Hash g) (WorkForBits (hdr_Bits (blk_Header g))))
                  in Some (m\<lparr>mgr_Store := d\<rparr>, Inr g))"

text \<open>\<open>big.Int.Text(16)\<close>.\<close>

fun hex_string :: "nat \<Rightarrow> string" where
  "hex_string n = (if n < 16 then [hex_digit n] else hex_string (n div 16) @ [hex_digit (n mod 16)])"

declare hex_string.simps [simp del]

definition big_Text16 :: "int \<Rightarrow> string" where
  "big_Text16 z = (if z < 0 then CHR ''-'' # hex_string (nat (- z)) else hex_string (nat z))"

text \<open>The two clock readings are that of the coinbase message and that of \<open>NewBlock\<close>.\<close>

definition BuildTemplate ::
  "ranking \<Rightarrow> int \<Rightarrow> i64 \<Rightarrow> Manager \<Rightarrow> byte list \<Rightarrow> error + (Block \<times> MiningTemplate)" where
  "BuildTemplate rank msgTime blockTime m minerScript =
     (case TipBlock m of
        Inl e \<Rightarrow> Inl e
      | Inr prev \<Rightarrow>
          let prevHash = blk_Hash prev;
              height = hdr_Height (blk_Header prev) + 1
          in case NextBits m (blk_Header prev) of
               Inl e \<Rightarrow> Inl e
             | Inr bits \<Rightarrow>
                 let txs = (case mgr_Mempool m of None \<Rightarrow> [] | Some mp \<Rightarrow> Snapshot rank mp);
                     coinbaseValue = BlockReward height;
                     coinbase = NewCoinbase (''NEVEL mined at '' @ big_String msgTime) coinbaseValue minerScript;
                     blockTxs = coinbase # txs;
                     block = NewBlock blockTime prevHash height bits blockTxs;
                     hashes = map (\<lambda>t. hex_EncodeToString (hash_bytes (tx_Hash t))) txs
                 in Inr (block, \<lparr>tmpl_PreviousHash = hex_EncodeToString (hash_bytes prevHash),
                                 tmpl_Height = height, tmpl_Bits = bits,
                                 tmpl_Target = big_Text16 (CompactToBig bits),
                                 tmpl_Transactions = hashes, tmpl_Coinbase = coinbaseValue\<rparr>))"

section \<open>Rolling back and reorganising\<close>

partial_function (option) RollbackToHeight :: "Manager \<Rightarrow> u64 \<Rightarrow> (Manager \<times> error option) option" where
  "RollbackToHeight m height =
     (case TipBlock m of
        Inl e \<Rightarrow> Some (m, Some e)
      | Inr tip \<Rightarrow>
          if hdr_Height (blk_Header tip) \<le> height then Some (m, None)
          else case DisconnectTip (mgr_Store m) of
            (d, Inl e) \<Rightarrow> Some (m\<lparr>mgr_Store := d\<rparr>, Some e)
          | (d, Inr _) \<Rightarrow> RollbackToHeight (m\<lparr>mgr_Store := d\<rparr>) height)"

text \<open>
  The walk of \<open>reorg\<close> from the new tip to the fork point: the blocks collected, newest first, and the
  last of them, whose parent is on the main chain.
\<close>

partial_function (option) collect_side ::
  "DB \<Rightarrow> Block list \<Rightarrow> Block \<Rightarrow> (error + (Block list \<times> Block)) option" where
  "collect_side d sideChain cur =
     (if hdr_Height (blk_Header cur) = 0 then Some (Inr (sideChain, cur))
      else case BlockHashByHeight d (hdr_Height (blk_Header cur) - 1) of
        Inl e \<Rightarrow>
          Some (Inl (Errorf (''reorg: missing height ''
            @ dec_string (unat (hdr_Height (blk_Header cur) - 1)) @ '': '') e))
      | Inr mainHash \<Rightarrow>
          if mainHash = hdr_PrevHash (blk_Header cur) then Some (Inr (sideChain, cur))
          else case GetBlock d (hdr_PrevHash (blk_Header cur)) of
            Inl e \<Rightarrow>
              Some (Inl (Errorf (''reorg: missing side block ''
                @ hex_hash (hdr_PrevHash (blk_Header cur)) @ '': '') e))
          | Inr parentBlock \<Rightarrow> collect_side d (sideChain @ [parentBlock]) parentBlock)"

definition chain_work :: "DB \<Rightarrow> Block \<Rightarrow> int" where
  "chain_work d b =
     (if hdr_Height (blk_Header b) > 0 then
        case TotalWork d (hdr_PrevHash (blk_Header b)) of
          Inl _ \<Rightarrow> WorkForBits (hdr_Bits (blk_Header b))
        | Inr pw \<Rightarrow> WorkForBits (hdr_Bits (blk_Header b)) + pw
      else WorkForBits (hdr_Bits (blk_Header b)))"

text \<open>The blocks in the order in which they are applied, the reverse of the collected list.\<close>

fun apply_side :: "DB \<Rightarrow> Block list \<Rightarrow> DB \<times> error option" where
  "apply_side d [] = (d, None)"
| "apply_side d (b # bs) =
     (case ApplyBlock d b of
        (d, Some e) \<Rightarrow> (d, Some (Errorf ''reorg apply: '' e))
      | (d, None) \<Rightarrow>
          case PutTotalWork d (blk_Hash b) (chain_work d b) of
            (d, Some e) \<Rightarrow> (d, Some e)
          | (d, None) \<Rightarrow> apply_side d bs)"

definition reorg :: "Manager \<Rightarrow> Block \<Rightarrow> (Manager \<times> error option) option" where
  "reorg m newTip =
     (case collect_side (mgr_Store m) [newTip] newTip of
        None \<Rightarrow> None
      | Some (Inl e) \<Rightarrow> Some (m, Some e)
      | Some (Inr (sideChain, cur)) \<Rightarrow>
          let forkHeight = (if hdr_Height (blk_Header cur) = 0 then 0 else hdr_Height (blk_Header cur) - 1)
          in case RollbackToHeight m forkHeight of
               None \<Rightarrow> None
             | Some (m, Some e) \<Rightarrow> Some (m, Some (Errorf ''reorg rollback: '' e))
             | Some (m, None) \<Rightarrow>
                 case apply_side (mgr_Store m) (rev sideChain) of
                   (d, Some e) \<Rightarrow> Some (m\<lparr>mgr_Store := d\<rparr>, Some e)
                 | (d, None) \<Rightarrow>
                     Some (m\<lparr>mgr_Store := d,
                            mgr_Mempool := map_option (\<lambda>mp. fold (\<lambda>b mp. RemoveMinedBlock mp b) sideChain mp)
                                             (mgr_Mempool m)\<rparr>, None))"

section \<open>Accepting a block\<close>

definition apply_direct :: "Manager \<Rightarrow> Block \<Rightarrow> int \<Rightarrow> Manager \<times> error option" where
  "apply_direct m block work =
     (case ApplyBlock (mgr_Store m) block of
        (d, Some e) \<Rightarrow> (m\<lparr>mgr_Store := d\<rparr>, Some e)
      | (d, None) \<Rightarrow>
          case PutTotalWork d (blk_Hash block) work of (d, e) \<Rightarrow> (m\<lparr>mgr_Store := d\<rparr>, e))"

text \<open>The previous header, a nil pointer for a block of height zero.\<close>

definition find_prev :: "DB \<Rightarrow> Block \<Rightarrow> error + BlockHeader option" where
  "find_prev d block =
     (if hdr_Height (blk_Header block) > 0 then
        case GetBlock d (hdr_PrevHash (blk_Header block)) of
          Inl e \<Rightarrow> Inl (Errorf ''previous block not found: '' e)
        | Inr prev \<Rightarrow> Inr (Some (blk_Header prev))
      else Inr None)"

text \<open>What happens to a valid block: no tip yet, next block, side branch, reorganisation.\<close>

definition choose_fork :: "Manager \<Rightarrow> Block \<Rightarrow> int \<Rightarrow> (Manager \<times> error option) option" where
  "choose_fork m block incomingWork =
     (let d = mgr_Store m in
      case Tip d of
        Inl _ \<Rightarrow> Some (apply_direct m block incomingWork)
      | Inr currentTipHash \<Rightarrow>
          if hdr_PrevHash (blk_Header block) = currentTipHash then
            case apply_direct m block incomingWork of
              (m, Some e) \<Rightarrow> Some (m, Some e)
            | (m, None) \<Rightarrow>
                Some (m\<lparr>mgr_Mempool := map_option (\<lambda>mp. RemoveMinedBlock mp block) (mgr_Mempool m)\<rparr>, None)
          else if incomingWork \<le> (case TotalWork d currentTipHash of Inl _ \<Rightarrow> 0 | Inr currentWork \<Rightarrow> currentWork) then
            case PutTotalWork d (blk_Hash block) incomingWork of (d, e) \<Rightarrow> Some (m\<lparr>mgr_Store := d\<rparr>, e)
          else reorg m block)"

definition ValidateAndApplyBlock :: "int \<Rightarrow> Manager \<Rightarrow> Block \<Rightarrow> (Manager \<times> error option) option" where
  "ValidateAndApplyBlock now m block =
     (case GetBlock (mgr_Store m) (blk_Hash block) of
        Inr _ \<Rightarrow> Some (m, Some (ErrText ''block already known''))
      | Inl _ \<Rightarrow>
      case find_prev (mgr_Store m) block of
        Inl e \<Rightarrow> Some (m, Some e)
      | Inr prevHeader \<Rightarrow>
      case ValidateBlockHeaderWithDifficulty now block prevHeader (mgr_Network m) (mgr_HeaderByHeight m) of
        Some e \<Rightarrow> Some (m, Some e)
      | None \<Rightarrow>
      case ValidateBlockTransactions block (Get (mgr_Store m)) (mgr_Verifier m) of
        Some e \<Rightarrow> Some (m, Some e)
      | None \<Rightarrow> choose_fork m block (chain_work (mgr_Store m) block))"

lemma ValidateAndApplyBlock_cases:
  obtains (rejected) e where "ValidateAndApplyBlock now m b = Some (m, Some e)"
  | (valid) e p where "GetBlock (mgr_Store m) (blk_Hash b) = Inl e" "find_prev (mgr_Store m) b = Inr p"
      "ValidateBlockHeaderWithDifficulty now b p (mgr_Network m) (mgr_HeaderByHeight m) = None"
      "ValidateBlockTransactions b (Get (mgr_Store m)) (mgr_Verifier m) = None"
      "ValidateAndApplyBlock now m b = choose_fork m b (chain_work (mgr_Store m) b)"
  by (cases "GetBlock (mgr_Store m) (blk_Hash b)"; cases "find_prev (mgr_Store m) b";
      cases "ValidateBlockHeaderWithDifficulty now b (projr (find_prev (mgr_Store m) b)) (mgr_Network m) (mgr_HeaderByHeight m)";
      cases "ValidateBlockTransactions b (Get (mgr_Store m)) (mgr_Verifier m)")
    (auto simp: ValidateAndApplyBlock_def)

section \<open>Mining\<close>

text \<open>What the mining loop takes from its surroundings, per block.\<close>

record mining_env =
  env_Unicode :: unicode
  env_Rank :: "nat \<Rightarrow> ranking"
  env_MsgTime :: "nat \<Rightarrow> int"
  env_BlockTime :: "nat \<Rightarrow> i64"
  env_CheckTime :: "nat \<Rightarrow> int"
  env_Ctx :: "nat \<Rightarrow> context_t"

definition zero_tip :: ChainTip where
  "zero_tip = \<lparr>tip_Hash = [], tip_Height = 0, tip_Bits = 0, tip_Timestamp = 0\<rparr>"

text \<open>
  The loop of \<open>MineBlocksStreaming\<close> with \<open>k\<close> rounds to go; the list holds the tips given to the
  callback so far.
\<close>

primrec mine_loop ::
  "mining_env \<Rightarrow> byte list \<Rightarrow> nat \<Rightarrow> nat \<Rightarrow> Manager \<Rightarrow> MiningSummary \<Rightarrow> ChainTip list
     \<Rightarrow> (Manager \<times> ChainTip list \<times> MiningSummary \<times> error option) option" where
  "mine_loop env script 0 i m summary reported = Some (m, reported, summary, None)"
| "mine_loop env script (Suc k) i m summary reported =
     (case BuildTemplate (env_Rank env i) (env_MsgTime env i) (env_BlockTime env i) m script of
        Inl e \<Rightarrow> Some (m, reported, summary, Some e)
      | Inr (block, _) \<Rightarrow>
          case Mine (ctx_Done (env_Ctx env i)) 0 block (CompactToBig (hdr_Bits (blk_Header block))) of
            None \<Rightarrow> None
          | Some (ok, block) \<Rightarrow>
              if \<not> ok then Some (m, reported, summary, Some (ctx_Err (env_Ctx env i)))
              else case ValidateAndApplyBlock (env_CheckTime env i) m block of
                None \<Rightarrow> None
              | Some (m, Some e) \<Rightarrow> Some (m, reported, summary, Some e)
              | Some (m, None) \<Rightarrow>
                  let tip = block_tip (blk_Hash block) block;
                      summary = (if sum_Blocks summary = 0 then summary\<lparr>sum_First := tip\<rparr> else summary);
                      summary = summary\<lparr>sum_Blocks := sum_Blocks summary + 1, sum_Last := tip\<rparr>
                  in mine_loop env script k (Suc i) m summary (reported @ [tip]))"

definition MineBlocksStreaming ::
  "mining_env \<Rightarrow> Manager \<Rightarrow> int \<Rightarrow> string
     \<Rightarrow> (Manager \<times> ChainTip list \<times> MiningSummary \<times> error option) option" where
  "MineBlocksStreaming env m n_blocks address =
     (let summary = \<lparr>sum_Blocks = 0, sum_First = zero_tip, sum_Last = zero_tip\<rparr> in
      if n_blocks < 1 then Some (m, [], summary, Some (ErrText ''blocks must be greater than zero''))
      else case LockingScriptForAddress (env_Unicode env) address (net_AddressPrefix (mgr_Network m)) of
        Inl e \<Rightarrow> Some (m, [], summary, Some e)
      | Inr script \<Rightarrow> mine_loop env script (nat n_blocks) 0 m summary [])"

definition MineBlocks ::
  "mining_env \<Rightarrow> Manager \<Rightarrow> int \<Rightarrow> string \<Rightarrow> (Manager \<times> ChainTip list \<times> error option) option" where
  "MineBlocks env m n_blocks address =
     (if n_blocks < 1 then Some (m, [], Some (ErrText ''blocks must be greater than zero''))
      else map_option (\<lambda>(m, mined, summary, e). (m, mined, e)) (MineBlocksStreaming env m n_blocks address))"

text \<open>
  The loop \<open>for height := firstHeight; height <= lastHeight; height++\<close>; at the largest \<open>lastHeight\<close> the
  increment wraps and the condition never fails.
\<close>

partial_function (option) rewards_loop :: "u64 \<Rightarrow> u64 \<Rightarrow> u64 \<Rightarrow> (error + u64) option" where
  "rewards_loop height lastHeight acc =
     (if height \<le> lastHeight then
        if add_overflows acc (BlockReward height) then Some (Inl ErrInflation)
        else rewards_loop (height + 1) lastHeight (acc + BlockReward height)
      else Some (Inr acc))"

definition TotalBlockRewards :: "u64 \<Rightarrow> u64 \<Rightarrow> (error + u64) option" where
  "TotalBlockRewards firstHeight lastHeight =
     (if lastHeight < firstHeight then Some (Inr 0) else rewards_loop firstHeight lastHeight 0)"

section \<open>Protection\<close>

record ReorgPolicy =
  pol_MaxDepth :: u64
  pol_RequireMoreWork :: bool

record ForkChoice =
  fc_CurrentWork :: int
  fc_CandidateWork :: int
  fc_ReorgDepth :: u64
  fc_Allowed :: bool
  fc_Reason :: string

text \<open>A nil \<open>*big.Int\<close> is \<open>None\<close>.\<close>

definition EvaluateForkChoice ::
  "int option \<Rightarrow> int option \<Rightarrow> u64 \<Rightarrow> ReorgPolicy \<Rightarrow> ForkChoice \<times> error option" where
  "EvaluateForkChoice currentWork candidateWork reorgDepth policy =
     (let currentWork = (case currentWork of None \<Rightarrow> 0 | Some w \<Rightarrow> w);
          candidateWork = (case candidateWork of None \<Rightarrow> 0 | Some w \<Rightarrow> w);
          choice = \<lparr>fc_CurrentWork = currentWork, fc_CandidateWork = candidateWork,
                    fc_ReorgDepth = reorgDepth, fc_Allowed = False, fc_Reason = []\<rparr>
      in if pol_MaxDepth policy > 0 \<and> reorgDepth > pol_MaxDepth policy then
           (choice\<lparr>fc_Reason := ''reorg exceeds configured depth''\<rparr>, Some ErrReorgTooDeep)
         else if pol_RequireMoreWork policy \<and> candidateWork \<le> currentWork then
           (choice\<lparr>fc_Reason := ''candidate chain does not have more accumulated work''\<rparr>,
            Some ErrInsufficientWork)
         else (choice\<lparr>fc_Allowed := True\<rparr>, None))"

definition ValidateDifficultyTransition ::
  "BlockHeader \<Rightarrow> u32 \<Rightarrow> Network \<Rightarrow> HeaderByHeight \<Rightarrow> error option" where
  "ValidateDifficultyTransition prev nextBits net headerByHeight =
     (case ExpectedBits prev net headerByHeight of
        Inl e \<Rightarrow> Some e
      | Inr expected \<Rightarrow> if nextBits \<noteq> expected then Some ErrDifficultyAnomaly else None)"


section \<open>Reward totals\<close>

lemma rewards_loop_sum:
  assumes "lastHeight \<noteq> NOT 0" and "unat h \<le> Suc (unat lastHeight)"
    and "unat acc + (\<Sum>k = unat h..unat lastHeight. subsidy k) < 2 ^ 64"
  shows "rewards_loop h lastHeight acc
       = Some (Inr (acc + of_nat (\<Sum>k = unat h..unat lastHeight. subsidy k)))"
  using assms(2,3)
proof (induction "Suc (unat lastHeight) - unat h" arbitrary: h acc)
  case 0
  then have "\<not> h \<le> lastHeight" by (simp add: word_le_nat_alt)
  then show ?case using 0 by (simp add: rewards_loop.simps [of h])
next
  case (Suc n)
  then have le: "unat h \<le> unat lastHeight" by simp
  have "unat lastHeight \<noteq> unat (- 1 :: u64)" using assms(1) word_unat_eq_iff [of lastHeight "- 1"] by simp
  then have "unat lastHeight < 2 ^ 64 - 1"
    using unsigned_less [of lastHeight, where 'a = nat] by (simp add: unat_max)
  then have h1: "unat (h + 1) = Suc (unat h)" using le by (simp add: unat_word_ariths)
  have split: "(\<Sum>k = unat h..unat lastHeight. subsidy k)
      = subsidy (unat h) + (\<Sum>k = Suc (unat h)..unat lastHeight. subsidy k)"
    using le by (rule sum.atLeast_Suc_atMost)
  have no: "\<not> add_overflows acc (BlockReward h)"
    using Suc.prems(2) by (simp add: add_overflows_iff unat_BlockReward split)
  have acc: "unat (acc + BlockReward h) = unat acc + subsidy (unat h)"
    using no by (simp add: unat_add_no_overflow unat_BlockReward)
  have "rewards_loop (h + 1) lastHeight (acc + BlockReward h)
      = Some (Inr (acc + BlockReward h + of_nat (\<Sum>k = Suc (unat h)..unat lastHeight. subsidy k)))"
    using Suc.hyps(1) [of "h + 1" "acc + BlockReward h"] Suc.hyps(2) Suc.prems(2) le
    by (simp add: h1 acc split)
  moreover have "BlockReward h = of_nat (subsidy (unat h))"
    by (simp flip: unat_BlockReward)
  ultimately show ?case
    using le no by (simp add: rewards_loop.simps [of h] word_le_nat_alt split)
qed

section \<open>Properties\<close>

text \<open>
  \<open>TotalBlockRewards\<close> returns for every range that ends below the largest height, never with
  \<open>ErrInflation\<close>, and its value is the exact sum of the subsidies of the range.
\<close>

theorem TotalBlockRewards_exact:
  assumes "lastHeight \<noteq> NOT 0"
  shows "\<exists>total_units. TotalBlockRewards firstHeight lastHeight = Some (Inr total_units)
    \<and> unat total_units = (\<Sum>k = unat firstHeight..unat lastHeight. unat (BlockReward (of_nat k)))"
proof -
  let ?S = "\<Sum>k = unat firstHeight..unat lastHeight. subsidy k"
  have eq: "(\<Sum>k = unat firstHeight..unat lastHeight. unat (BlockReward (of_nat k))) = ?S"
  proof (rule sum.cong)
    fix k assume "k \<in> {unat firstHeight..unat lastHeight}"
    then have "k < 2 ^ 64" using unsigned_less [of lastHeight, where 'a = nat] by simp
    then show "unat (BlockReward (of_nat k)) = subsidy k"
      by (simp add: unat_BlockReward unat_of_nat)
  qed simp
  have "?S \<le> (\<Sum>k < Suc (unat lastHeight). subsidy k)" by (rule sum_mono2) auto
  then have S: "?S < 2 ^ 64" using subsidy_sum_bound [of "Suc (unat lastHeight)"] by simp
  show ?thesis
  proof (cases "lastHeight < firstHeight")
    case True
    then show ?thesis by (simp add: TotalBlockRewards_def word_less_nat_alt)
  next
    case False
    then have "unat firstHeight \<le> unat lastHeight" by (simp add: word_less_nat_alt)
    then have "rewards_loop firstHeight lastHeight 0 = Some (Inr (of_nat ?S))"
      using rewards_loop_sum [OF assms, of firstHeight 0] S by simp
    then have "TotalBlockRewards firstHeight lastHeight = Some (Inr (of_nat ?S))"
      using False by (simp add: TotalBlockRewards_def)
    moreover have "unat (of_nat ?S :: u64) = ?S" using S by (simp only: unat_of_nat) simp
    ultimately show ?thesis unfolding eq by blast
  qed
qed

theorem TotalBlockRewards_exact_witness:
  "\<exists>total_units. TotalBlockRewards 0 1 = Some (Inr total_units) \<and> unat total_units = 100000000000"
proof -
  have "(1 :: u64) \<noteq> NOT 0" by simp
  from TotalBlockRewards_exact [OF this, of 0] show ?thesis
    by (simp add: unat_BlockReward subsidy_def)
qed

text \<open>
  \<open>EvaluateForkChoice\<close> allows a candidate exactly when the depth limit, if there is one, is kept and
  more work, if it is required, is there; it reports the works it compared, and gives the depth
  error precedence.
\<close>

theorem EvaluateForkChoice_spec:
  "EvaluateForkChoice cur cand depth policy =
     (let too_deep = pol_MaxDepth policy \<noteq> 0 \<and> unat (pol_MaxDepth policy) < unat depth;
          too_light = pol_RequireMoreWork policy \<and> \<not> (case cur of None \<Rightarrow> 0 | Some w \<Rightarrow> w) < (case cand of None \<Rightarrow> 0 | Some w \<Rightarrow> w)
      in (\<lparr>fc_CurrentWork = (case cur of None \<Rightarrow> 0 | Some w \<Rightarrow> w),
           fc_CandidateWork = (case cand of None \<Rightarrow> 0 | Some w \<Rightarrow> w), fc_ReorgDepth = depth,
           fc_Allowed = (\<not> too_deep \<and> \<not> too_light),
           fc_Reason = (if too_deep then ''reorg exceeds configured depth''
                        else if too_light then ''candidate chain does not have more accumulated work'' else [])\<rparr>,
          if too_deep then Some ErrReorgTooDeep else if too_light then Some ErrInsufficientWork else None))"
  by (auto simp: EvaluateForkChoice_def Let_def word_less_nat_alt word_neq_0_conv not_less
      split: option.splits)

end
