(* ===== verification/Health.thy ===== *)
theory Health
  imports Chain "HOL-Library.Log_Nat"
begin

text \<open>
  The health report of \<open>chain/protection.go\<close>. A time is the number of nanoseconds since the Unix epoch
  and a duration an integer in the range of \<open>int64\<close>. \<open>Duration.Seconds\<close> computes with \<open>float64\<close>: a
  quotient and a sum, each rounded to 53 significant bits, to the nearest and on a tie to the even
  neighbour; the model rounds the same two exact values.
\<close>

section \<open>Times, durations and their seconds\<close>

text \<open>\<open>time.Unix\<close> adds the seconds from year one to 1970 to the argument, in \<open>int64\<close>.\<close>

definition time_Unix :: "i64 \<Rightarrow> int" where
  "time_Unix sec = (sint (sec + 62135596800) - 62135596800) * 10 ^ 9"

definition time_Sub :: "int \<Rightarrow> int \<Rightarrow> int" where
  "time_Sub t u = max (- (2 ^ 63)) (min (2 ^ 63 - 1) (t - u))"

definition round_even :: "nat \<Rightarrow> nat \<Rightarrow> nat" where
  "round_even a b =
     (let q = a div b; r = a mod b in if 2 * r < b \<or> (2 * r = b \<and> even q) then q else q + 1)"

text \<open>The exponent that brings \<open>n / 10\<^sup>9\<close> into the range from one to two.\<close>

function norm_shift :: "nat \<Rightarrow> nat" where
  "norm_shift n = (if n = 0 \<or> 10 ^ 9 \<le> n then 0 else Suc (norm_shift (2 * n)))"
  by pat_completeness auto
termination by (relation "measure (\<lambda>n. 10 ^ 9 - n)") auto

declare norm_shift.simps [simp del]

text \<open>\<open>int64(d.Seconds())\<close> for a duration that is not negative.\<close>

definition whole_seconds :: "nat \<Rightarrow> nat" where
  "whole_seconds d =
     (let sec = d div 10 ^ 9; nsec = d mod 10 ^ 9;
          s = 52 + norm_shift nsec;
          total = sec * 2 ^ s + round_even (nsec * 2 ^ s) (10 ^ 9);
          spare = floorlog 2 total - 53
      in round_even total (2 ^ spare) * 2 ^ spare div 2 ^ s)"

section \<open>The report\<close>

record HealthThresholds =
  ht_MaxTipAge :: int
  ht_MaxReorgDepth :: u64
  ht_MinPeerCount :: int
  ht_MinHashrateWork :: "int option"

record HealthReport =
  hr_TipHeight :: u64
  hr_TipAgeSeconds :: int
  hr_PeerCount :: int
  hr_Alerts :: "string list"

definition AssessHealth :: "ChainTip \<Rightarrow> int \<Rightarrow> HealthThresholds \<Rightarrow> int \<Rightarrow> HealthReport" where
  "AssessHealth tip peers thresholds now =
     (let age = time_Sub now (time_Unix (tip_Timestamp tip));
          age = (if age < 0 then 0 else age)
      in \<lparr>hr_TipHeight = tip_Height tip, hr_TipAgeSeconds = int (whole_seconds (nat age)), hr_PeerCount = peers,
          hr_Alerts =
            (if ht_MaxTipAge thresholds > 0 \<and> age > ht_MaxTipAge thresholds then [''stale_tip''] else [])
            @ (if ht_MinPeerCount thresholds > 0 \<and> peers < ht_MinPeerCount thresholds then [''low_peer_count''] else [])\<rparr>)"

section \<open>Lemmas\<close>

lemma round_even_le:
  assumes "a \<le> c * b" and "0 < b"
  shows "round_even a b \<le> c"
proof (cases "a mod b = 0")
  case True
  have "a div b \<le> c" using div_le_mono [OF assms(1), of b] assms(2) by simp
  then show ?thesis using True assms(2) by (simp add: round_even_def)
next
  case False
  have "a < c * b" using assms(1) False by (metis le_neq_implies_less mod_mult_self2_is_0)
  then have "a div b < c" using assms(2) by (simp add: div_less_iff_less_mult)
  then show ?thesis by (simp add: round_even_def Let_def)
qed

lemma round_even_ge:
  assumes "c * b \<le> a" and "0 < b"
  shows "c \<le> round_even a b"
proof -
  have "c \<le> a div b" using assms by (simp add: less_eq_div_iff_mult_less_eq)
  then show ?thesis by (simp add: round_even_def Let_def)
qed

lemma div_between:
  fixes a b c :: nat
  assumes "c * b \<le> a" and "a \<le> (c + 1) * b" and "0 < b"
  shows "c \<le> a div b \<and> a div b \<le> c + 1"
  using div_le_mono [OF assms(1), of b] div_le_mono [OF assms(2), of b] assms(3) by simp

text \<open>
  The seconds of an age lie between its whole seconds and one more: for long ages the rounding may
  reach up to the next second, but never further and never below.
\<close>

lemma whole_seconds_bounds:
  assumes "d < 2 ^ 63"
  shows "d div 10 ^ 9 \<le> whole_seconds d \<and> whole_seconds d \<le> d div 10 ^ 9 + 1"
proof -
  define sec nsec s where defs: "sec = d div 10 ^ 9" "nsec = d mod 10 ^ 9" "s = 52 + norm_shift nsec"
  define total where "total = sec * 2 ^ s + round_even (nsec * 2 ^ s) (10 ^ 9)"
  define spare where "spare = floorlog 2 total - 53"
  have "nsec * 2 ^ s \<le> 2 ^ s * 10 ^ 9" by (simp add: defs(2))
  then have m: "round_even (nsec * 2 ^ s) (10 ^ 9) \<le> 2 ^ s" by (rule round_even_le) simp
  then have hi: "total \<le> (sec + 1) * 2 ^ s" and lo: "sec * 2 ^ s \<le> total" by (simp_all add: total_def)
  have "sec + 1 \<le> 2 ^ 34" using assms by (simp add: defs(1))
  then have "(sec + 1) * 2 ^ s \<le> 2 ^ 34 * 2 ^ s" by (rule mult_le_mono1)
  with hi have "total \<le> 2 ^ 34 * 2 ^ s" by (rule le_trans)
  also have "\<dots> < 2 ^ (35 + s)" by (simp add: power_add)
  finally have "floorlog 2 total \<le> 35 + s" by (intro floorlog_leI) simp_all
  then have "spare \<le> s" by (simp add: spare_def)
  then obtain k where s: "s = spare + k" using le_Suc_ex by blast
  have "sec * 2 ^ k \<le> round_even total (2 ^ spare)"
    using lo by (intro round_even_ge) (simp_all add: s power_add mult_ac)
  moreover have "round_even total (2 ^ spare) \<le> (sec + 1) * 2 ^ k"
    using hi by (intro round_even_le) (simp_all add: s power_add algebra_simps)
  ultimately have "sec \<le> round_even total (2 ^ spare) div 2 ^ k \<and> round_even total (2 ^ spare) div 2 ^ k \<le> sec + 1"
    by (rule div_between) simp
  moreover have "whole_seconds d = round_even total (2 ^ spare) * 2 ^ spare div 2 ^ s"
    by (simp only: whole_seconds_def Let_def flip: defs total_def spare_def)
  then have "whole_seconds d = round_even total (2 ^ spare) div 2 ^ k" by (simp add: s power_add)
  ultimately show ?thesis by (simp only: defs(1))
qed

text \<open>The next second is reached: an age of 194 days and one nanosecond less than a second is rounded up.\<close>

lemma whole_seconds_rounds_up: "whole_seconds 16777216999999999 = 16777217"
proof -
  have d: "(16777216999999999 :: nat) div 10 ^ 9 = 16777216" "(16777216999999999 :: nat) mod 10 ^ 9 = 999999999"
    by simp_all
  have "norm_shift 999999999 = Suc (norm_shift 1999999998)" by (subst norm_shift.simps) simp
  moreover have "norm_shift 1999999998 = 0" by (subst norm_shift.simps) simp
  ultimately have s: "52 + norm_shift 999999999 = 53" by simp
  have r: "round_even (999999999 * 2 ^ 53) (10 ^ 9) = 9007199245733793" by (simp add: round_even_def)
  have t: "(16777216 :: nat) * 2 ^ 53 + 9007199245733793 = 151115736459027892572065" by simp
  have f: "floorlog 2 151115736459027892572065 - 53 = 25"
  proof -
    have "floorlog 2 151115736459027892572065 \<le> 78" by (rule floorlog_leI) simp_all
    moreover have "78 \<le> floorlog 2 151115736459027892572065" by (rule floorlog_geI) simp_all
    ultimately show ?thesis by simp
  qed
  have "round_even 151115736459027892572065 (2 ^ 25) * 2 ^ 25 div 2 ^ 53 = 16777217" by (simp add: round_even_def)
  then show ?thesis unfolding whole_seconds_def Let_def d s r t f .
qed

text \<open>
  What the report says: the tip's age in seconds up to one, a warning for an old tip exactly when the
  exact age exceeds the threshold, and one for too few peers.
\<close>

lemma AssessHealth_report:
  assumes "tip_Timestamp tip = of_int ts" and "0 \<le> ts" and "ts * 10 ^ 9 \<le> now" and "now < 2 ^ 63"
  shows "let r = AssessHealth tip peers thresholds now; age = now - ts * 10 ^ 9
     in hr_TipAgeSeconds r \<in> {age div 10 ^ 9, age div 10 ^ 9 + 1}
      \<and> (''stale_tip'' \<in> set (hr_Alerts r) \<longleftrightarrow> 0 < ht_MaxTipAge thresholds \<and> ht_MaxTipAge thresholds < age)
      \<and> (''low_peer_count'' \<in> set (hr_Alerts r)
           \<longleftrightarrow> 0 < ht_MinPeerCount thresholds \<and> peers < ht_MinPeerCount thresholds)"
proof -
  let ?age = "now - ts * 10 ^ 9"
  have "ts < 2 ^ 34" using assms(2-4) by simp
  then have "sint (of_int (ts + 62135596800) :: i64) = ts + 62135596800"
    using assms(2) unfolding signed_of_int by (subst signed_take_bit_int_eq_self) simp_all
  then have "time_Unix (tip_Timestamp tip) = ts * 10 ^ 9" by (simp add: time_Unix_def assms(1))
  then have age: "time_Sub now (time_Unix (tip_Timestamp tip)) = ?age" "0 \<le> ?age" "?age < 2 ^ 63"
    using assms(2-4) by (simp_all add: time_Sub_def)
  have "nat ?age < 2 ^ 63" using age(2,3) by simp
  from whole_seconds_bounds [OF this]
  have "int (whole_seconds (nat ?age)) \<in> {?age div 10 ^ 9, ?age div 10 ^ 9 + 1}"
    using age(2) by (auto simp: nat_div_distrib dest!: le_antisym)
  then show ?thesis using age by (simp add: AssessHealth_def Let_def)
qed

end
