(* ===== verification/Replay.thy ===== *)
theory Replay
  imports Chain
begin

text \<open>
  What the chain manager maintains, across store, consensus, mempool and miner. The abstract machine
  is a list of blocks: \<open>valid_chain\<close> says that each block is valid on the ledger its predecessors
  leave, \<open>replay\<close> is that ledger. \<open>holds_chain\<close> is the simulation relation between a store and such a
  list: tip, block records, height index, accumulated work, undo logs and unspent outputs are those
  of the list. The lemmas show that starting and extending the chain keep it.
\<close>

section \<open>Chains of blocks\<close>

definition replay :: "Block list \<Rightarrow> ledger" where
  "replay bs = fold connect_block bs (\<lambda>_. None)"

definition ledger_view :: "ledger \<Rightarrow> UTXOReader" where
  "ledger_view m h i = (case m (h, i) of None \<Rightarrow> Inl ErrNotFound | Some u \<Rightarrow> Inr u)"

definition chain_header :: "Block list \<Rightarrow> HeaderByHeight" where
  "chain_header bs k = (if unat k < length bs then Inr (blk_Header (bs ! unat k)) else Inl ErrNotFound)"

definition blk_Height :: "Block \<Rightarrow> u64" where
  "blk_Height b = hdr_Height (blk_Header b)"

definition valid_next :: "Network \<Rightarrow> SignatureVerifier option \<Rightarrow> Block list \<Rightarrow> Block \<Rightarrow> bool" where
  "valid_next net verifier bs b \<longleftrightarrow>
     wf_Block b \<and> unat (blk_Height b) = length bs
     \<and> hdr_MerkleRoot (blk_Header b) = BuildMerkleRoot (blk_Transactions b)
     \<and> CheckProofOfWork (blk_Header b) (net_PowLimit net) = None
     \<and> ValidateBlockTransactions b (ledger_view (replay bs)) verifier = None
     \<and> (bs \<noteq> [] \<longrightarrow> hdr_PrevHash (blk_Header b) = blk_Hash (last bs)
          \<and> ExpectedBits (blk_Header (last bs)) net (chain_header bs) = Inr (hdr_Bits (blk_Header b)))"

inductive valid_chain :: "Network \<Rightarrow> SignatureVerifier option \<Rightarrow> Block list \<Rightarrow> bool" for net verifier where
  valid_empty: "valid_chain net verifier []"
| valid_snoc: "valid_chain net verifier bs \<Longrightarrow> valid_next net verifier bs b \<Longrightarrow> valid_chain net verifier (bs @ [b])"

inductive_cases valid_snocE: "valid_chain net verifier (bs @ [b])"

definition work_upto :: "Block list \<Rightarrow> nat \<Rightarrow> int" where
  "work_upto bs n = (\<Sum>b \<leftarrow> take n bs. WorkForBits (hdr_Bits (blk_Header b)))"

definition holds_chain :: "DB \<Rightarrow> Block list \<Rightarrow> bool" where
  "holds_chain d bs \<longleftrightarrow>
     db_ok d \<and> store_typed d \<and> dsk_faults (db_disk d) = []
     \<and> (if bs = [] then \<exists>e. Tip d = Inl e else Tip d = Inr (blk_Hash (last bs)))
     \<and> (\<forall>h b. GetBlock d h = Inr b \<longleftrightarrow> b \<in> set bs \<and> h = blk_Hash b)
     \<and> (\<forall>i < length bs. BlockHashByHeight d (of_nat i) = Inr (blk_Hash (bs ! i))
          \<and> TotalWork d (blk_Hash (bs ! i)) = Inr (work_upto bs (Suc i))
          \<and> Undo d (blk_Hash (bs ! i)) = Inr (undo_log (replay (take i bs)) (blk_Transactions (bs ! i))))
     \<and> utxo_map d = replay bs"

section \<open>Lemmas: valid chains\<close>

lemma replay_snoc [simp]: "replay (bs @ [b]) = connect_block b (replay bs)"
  by (simp add: replay_def)

lemma valid_chain_take: "valid_chain net v bs \<Longrightarrow> valid_chain net v (take i bs)"
proof (induction rule: valid_chain.induct)
  case (valid_snoc bs b)
  then show ?case by (cases "i \<le> length bs") (simp_all add: valid_chain.valid_snoc)
qed (simp add: valid_empty)

lemma valid_chain_nth:
  assumes "valid_chain net v bs" and "i < length bs"
  shows "valid_next net v (take i bs) (bs ! i)"
proof -
  have "take (Suc i) bs = take i bs @ [bs ! i]" using assms(2) by (rule take_Suc_conv_app_nth)
  then show ?thesis using valid_chain_take [OF assms(1), of "Suc i"] by (auto elim: valid_snocE)
qed

lemma valid_chain_height:
  assumes "valid_chain net v bs" and "i < length bs"
  shows "unat (blk_Height (bs ! i)) = i" and "blk_Height (bs ! i) = of_nat i"
proof -
  show u: "unat (blk_Height (bs ! i)) = i"
    using valid_chain_nth [OF assms] assms(2) by (simp add: valid_next_def)
  have "of_nat (unat (blk_Height (bs ! i))) = blk_Height (bs ! i)" by simp
  then show "blk_Height (bs ! i) = of_nat i" by (simp only: u)
qed

lemma valid_chain_short: "valid_chain net v bs \<Longrightarrow> length bs \<le> 2 ^ 64"
proof (induction rule: valid_chain.induct)
  case (valid_snoc bs b)
  then have "length bs < 2 ^ 64" using unat_u64_less [of "blk_Height b"] by (simp only: valid_next_def)
  then show ?case by (simp only: length_append_singleton Suc_le_eq)
qed (simp only: list.size zero_le)

lemma valid_chain_prev:
  assumes "valid_chain net v bs" and "Suc i < length bs"
  shows "hdr_PrevHash (blk_Header (bs ! Suc i)) = blk_Hash (bs ! i)"
    and "ExpectedBits (blk_Header (bs ! i)) net (chain_header (take (Suc i) bs))
         = Inr (hdr_Bits (blk_Header (bs ! Suc i)))"
proof -
  have "take (Suc i) bs \<noteq> []" "last (take (Suc i) bs) = bs ! i"
    using assms(2) by (auto simp: take_Suc_conv_app_nth)
  then show "hdr_PrevHash (blk_Header (bs ! Suc i)) = blk_Hash (bs ! i)"
    and "ExpectedBits (blk_Header (bs ! i)) net (chain_header (take (Suc i) bs))
         = Inr (hdr_Bits (blk_Header (bs ! Suc i)))"
    using valid_chain_nth [OF assms] by (simp_all add: valid_next_def)
qed

lemma valid_chain_last:
  assumes "valid_chain net v bs" and "bs \<noteq> []"
  shows "blk_Height (last bs) + 1 = of_nat (length bs)"
    and "length bs < 2 ^ 64 \<Longrightarrow> blk_Height (last bs) + 1 \<noteq> 0"
    and "CheckProofOfWork (blk_Header (last bs)) (net_PowLimit net) = None"
proof -
  have n: "length bs - 1 < length bs" "bs ! (length bs - 1) = last bs" using assms(2) by (simp_all add: last_conv_nth)
  have "blk_Height (last bs) = of_nat (length bs - 1)" using valid_chain_height(2) [OF assms(1) n(1)] by (simp only: n)
  then show h: "blk_Height (last bs) + 1 = of_nat (length bs)" using assms(2) by (simp add: of_nat_diff Suc_leI)
  show "blk_Height (last bs) + 1 \<noteq> 0" if "length bs < 2 ^ 64"
  proof -
    have "unat (of_nat (length bs) :: u64) = length bs" using that by (simp add: unat_of_nat_small)
    then show ?thesis using assms(2) unfolding h by (metis length_0_conv unat_0)
  qed
  show "CheckProofOfWork (blk_Header (last bs)) (net_PowLimit net) = None"
    using valid_chain_nth [OF assms(1) n(1)] by (simp only: n valid_next_def)
qed

lemma WorkForBits_nonneg: "0 \<le> WorkForBits bits"
  by (simp add: WorkForBits_def Let_def pos_imp_zdiv_nonneg_iff)

lemma work_upto_mono: "i \<le> j \<Longrightarrow> work_upto bs i \<le> work_upto bs j"
proof -
  assume "i \<le> j"
  then have "take j bs = take i bs @ take (j - i) (drop i bs)"
    by (metis le_add_diff_inverse take_add)
  moreover have "0 \<le> (\<Sum>b \<leftarrow> xs. WorkForBits (hdr_Bits (blk_Header b)))" for xs
    by (induction xs) (simp_all add: WorkForBits_nonneg)
  ultimately show ?thesis by (simp add: work_upto_def)
qed

lemma work_upto_Suc: "i < length bs \<Longrightarrow>
    work_upto bs (Suc i) = work_upto bs i + WorkForBits (hdr_Bits (blk_Header (bs ! i)))"
  by (simp add: work_upto_def take_Suc_conv_app_nth)

text \<open>A retarget looks back only along the chain.\<close>

lemma ExpectedBits_cong:
  assumes "\<And>k. k \<le> hdr_Height prev \<Longrightarrow> f k = g k"
  shows "ExpectedBits prev net f = ExpectedBits prev net g"
proof (cases "(hdr_Height prev + 1) mod DifficultyWindow \<noteq> 0 \<or> hdr_Height prev + 1 = 0")
  case True
  then show ?thesis by (auto simp: ExpectedBits_def Let_def)
next
  case False
  let ?n = "hdr_Height prev + 1"
  have w: "unat DifficultyWindow = 720" by (simp add: DifficultyWindow_def DifficultyAdjustmentInterval_def)
  have n0: "?n \<noteq> 0" using False by simp
  then have "unat ?n = Suc (unat (hdr_Height prev))" by (simp add: unatSuc add.commute)
  moreover have "unat ?n mod 720 = 0" using False w by (metis unat_0 unat_mod)
  then have "720 \<le> unat ?n" using n0 by (metis dvd_imp_le mod_0_imp_dvd unat_gt_0)
  then have "unat (?n - DifficultyWindow) = unat ?n - 720" by (simp add: unat_sub word_le_nat_alt w)
  ultimately have "?n - DifficultyWindow \<le> hdr_Height prev" by (simp add: word_le_nat_alt)
  then show ?thesis using assms by (simp add: ExpectedBits_def Let_def)
qed

text \<open>The outcome of validation depends on the reader only through the outputs it finds.\<close>

lemma validate_inputs_cong:
  assumes "\<And>h i u. r h i = Inr u \<longleftrightarrow> r' h i = Inr u"
  shows "validate_inputs t r v sh i ins acc sp = validate_inputs t r' v sh i ins acc sp"
proof (induction ins arbitrary: i acc sp)
  case (Cons inp ins)
  show ?case
  proof (cases "r (in_PrevTxHash inp) (in_OutputIdx inp)")
    case (Inl e)
    then obtain e' where "r' (in_PrevTxHash inp) (in_OutputIdx inp) = Inl e'"
      using assms by (metis sum.exhaust sum.distinct(1))
    then show ?thesis using Inl by (simp add: Let_def)
  next
    case (Inr u)
    then have "r' (in_PrevTxHash inp) (in_OutputIdx inp) = Inr u" using assms by blast
    then show ?thesis using Inr Cons.IH by (simp add: Let_def)
  qed
qed simp

lemma ValidateBlockTransactions_cong:
  assumes "\<And>h i u. r h i = Inr u \<longleftrightarrow> r' h i = Inr u"
  shows "ValidateBlockTransactions b r v = ValidateBlockTransactions b r' v"
proof -
  have t: "ValidateTransactionAt t r v sp h = ValidateTransactionAt t r' v sp h" for t sp h
    by (simp only: ValidateTransactionAt_def validate_inputs_cong [OF assms])
  have "validate_txs r v h ts fees sp = validate_txs r' v h ts fees sp" for h ts fees sp
    by (induction ts arbitrary: fees sp) (simp_all add: t split: prod.splits sum.splits)
  then have "validate_txs r v = validate_txs r' v" by (intro ext)
  then show ?thesis by (simp only: ValidateBlockTransactions_def ValidateBlockTransactionsAt_def)
qed

lemma validate_view: "ValidateBlockTransactions b (Get d) v = ValidateBlockTransactions b (ledger_view (utxo_map d)) v"
  by (rule ValidateBlockTransactions_cong) (auto simp: Get_iff ledger_view_def split: option.splits)

section \<open>Lemmas: the store keeps holding the chain\<close>

lemma holds_chain_block: "holds_chain d bs \<Longrightarrow> GetBlock d h = Inr b \<longleftrightarrow> b \<in> set bs \<and> h = blk_Hash b"
  by (simp add: holds_chain_def)

lemma holds_chain_nth:
  assumes "holds_chain d bs" and "i < length bs"
  shows "BlockHashByHeight d (of_nat i) = Inr (blk_Hash (bs ! i))"
    and "TotalWork d (blk_Hash (bs ! i)) = Inr (work_upto bs (Suc i))"
    and "Undo d (blk_Hash (bs ! i)) = Inr (undo_log (replay (take i bs)) (blk_Transactions (bs ! i)))"
    and "GetBlock d (blk_Hash (bs ! i)) = Inr (bs ! i)"
  using assms by (auto simp: holds_chain_def)

lemma holds_chain_ok:
  assumes "holds_chain d bs"
  shows "db_ok d" and "store_typed d" and "dsk_faults (db_disk d) = []" and "utxo_map d = replay bs"
  using assms by (simp_all add: holds_chain_def)

lemma holds_chain_tip:
  assumes "holds_chain d bs" and "bs \<noteq> []"
  shows "Tip d = Inr (blk_Hash (last bs))" and "GetBlock d (blk_Hash (last bs)) = Inr (last bs)"
    and "Height d = Inr (blk_Height (last bs))"
proof -
  show t: "Tip d = Inr (blk_Hash (last bs))" using assms by (simp add: holds_chain_def)
  show b: "GetBlock d (blk_Hash (last bs)) = Inr (last bs)" using assms holds_chain_block by simp
  show "Height d = Inr (blk_Height (last bs))" by (simp add: Height_def t b blk_Height_def)
qed

lemma holds_chain_inj: "holds_chain d bs \<Longrightarrow> a \<in> set bs \<Longrightarrow> b \<in> set bs \<Longrightarrow> blk_Hash a = blk_Hash b \<Longrightarrow> a = b"
  by (metis holds_chain_block sum.inject(2))

lemma PutTotalWork_no_faults:
  assumes "dsk_faults (db_disk d) = []"
  shows "\<exists>d'. PutTotalWork d h w = (d', None) \<and> dsk_faults (db_disk d') = []"
  using assms by (simp add: PutTotalWork_def peb_Set_no_faults put_file_def)

lemma holds_chain_side:
  assumes "holds_chain d bs" and "h \<notin> blk_Hash ` set bs"
  shows "\<exists>d'. PutTotalWork d h w = (d', None) \<and> holds_chain d' bs"
proof -
  note ok = holds_chain_ok [OF assms(1)]
  obtain d' where d': "PutTotalWork d h w = (d', None)" "dsk_faults (db_disk d') = []"
    using PutTotalWork_no_faults [OF ok(3)] by blast
  note st = PutTotalWork_state [OF ok(1) d'(1)]
  have "store_typed d'" using store_step_ok [OF store_step.intros(1) [OF d'(1)] ok(1,2)] by simp
  moreover have "TotalWork d' (blk_Hash (bs ! i)) = Inr (work_upto bs (Suc i))" if "i < length bs" for i
    using holds_chain_nth(2) [OF assms(1) that] assms(2) that by (auto simp: st(4))
  ultimately have "holds_chain d' bs"
    using assms(1) d'(2) st(1) unfolding holds_chain_def st(2,3,5-7) by blast
  then show ?thesis using d'(1) by blast
qed

lemma holds_chain_extend:
  assumes "holds_chain d bs" and "wf_Block b" and "blk_Height b = of_nat (length bs)" and "length bs < 2 ^ 64"
    and "blk_Hash b \<notin> blk_Hash ` set bs"
  shows "\<exists>d1 d'. ApplyBlock d b = (d1, None)
    \<and> PutTotalWork d1 (blk_Hash b) (work_upto bs (length bs) + WorkForBits (hdr_Bits (blk_Header b))) = (d', None)
    \<and> holds_chain d' (bs @ [b])"
proof -
  note ok = holds_chain_ok [OF assms(1)]
  let ?w = "work_upto bs (length bs) + WorkForBits (hdr_Bits (blk_Header b))"
  obtain d1 where d1: "ApplyBlock d b = (d1, None)" "dsk_faults (db_disk d1) = []"
    using ApplyBlock_no_faults [OF ok(3)] by blast
  obtain d' where d': "PutTotalWork d1 (blk_Hash b) ?w = (d', None)" "dsk_faults (db_disk d') = []"
    using PutTotalWork_no_faults [OF d1(2)] by blast
  have ok1: "db_ok d1" "store_typed d1"
    using store_step_ok [OF store_step.intros(7) [OF d1(1)] ok(1,2)] by simp_all
  have ty: "store_typed d'" using store_step_ok [OF store_step.intros(1) [OF d'(1)] ok1] by simp
  note st1 = ApplyBlock_state [OF ok(1) d1(1)] and st = PutTotalWork_state [OF ok1(1) d'(1)]
  have blk: "GetBlock d' h = Inr c \<longleftrightarrow> c \<in> set (bs @ [b]) \<and> h = blk_Hash c" for h c
  proof (cases "h = blk_Hash b")
    case True
    then have "GetBlock d' h = Inr b" using st1(5) [OF assms(2)] by (simp add: st(5))
    then show ?thesis using True assms(5) by auto
  next
    case False
    then show ?thesis using st1(6) [OF False] holds_chain_block [OF assms(1)] by (auto simp: st(5))
  qed
  have hgt: "BlockHashByHeight d' (of_nat i) = Inr (blk_Hash ((bs @ [b]) ! i))" if "i < Suc (length bs)" for i
  proof (cases "i = length bs")
    case True
    then show ?thesis by (simp add: st(6) st1(3) assms(3) [unfolded blk_Height_def])
  next
    case False
    then have i: "i < length bs" using that by simp
    have "unat (of_nat i :: u64) = i" "unat (of_nat (length bs) :: u64) = length bs"
      using i assms(4) by (simp_all add: unat_of_nat_small)
    then have "(of_nat i :: u64) \<noteq> of_nat (length bs)" using i by (metis less_irrefl)
    then show ?thesis using i holds_chain_nth(1) [OF assms(1) i]
      by (simp add: st(6) st1(3) assms(3) [unfolded blk_Height_def] nth_append)
  qed
  have wrk: "TotalWork d' (blk_Hash ((bs @ [b]) ! i)) = Inr (work_upto (bs @ [b]) (Suc i))"
    if "i < Suc (length bs)" for i
  proof (cases "i = length bs")
    case True
    then show ?thesis by (simp add: st(4) work_upto_def)
  next
    case False
    then have i: "i < length bs" using that by simp
    then have "blk_Hash (bs ! i) \<noteq> blk_Hash b" using assms(5) by (metis image_eqI nth_mem)
    then show ?thesis using i holds_chain_nth(2) [OF assms(1) i]
      by (simp add: st(4) st1(4) nth_append work_upto_def)
  qed
  have und: "Undo d' (blk_Hash ((bs @ [b]) ! i))
      = Inr (undo_log (replay (take i (bs @ [b]))) (blk_Transactions ((bs @ [b]) ! i)))"
    if "i < Suc (length bs)" for i
  proof (cases "i = length bs")
    case True
    then show ?thesis using ok(4) by (simp add: st(7) st1(2) collect_undo_log)
  next
    case False
    then have i: "i < length bs" using that by simp
    then have "blk_Hash (bs ! i) \<noteq> blk_Hash b" using assms(5) by (metis image_eqI nth_mem)
    then show ?thesis using i holds_chain_nth(3) [OF assms(1) i] st1(7) by (simp add: st(7) nth_append)
  qed
  have "utxo_map d' = replay (bs @ [b])" using ApplyBlock_ledger [OF ok(1) d1(1)] by (simp add: st(2) ok(4))
  then have "holds_chain d' (bs @ [b])"
    unfolding holds_chain_def using st(1) ty d'(2) blk hgt wrk und by (simp add: st(3) st1(1))
  then show ?thesis using d1(1) d'(1) by blast
qed


section \<open>Lemmas: accepting a block\<close>

lemma holds_chain_header:
  assumes "holds_chain (mgr_Store m) bs" and "valid_chain net v bs" and "i < length bs"
    and "k \<le> blk_Height (bs ! i)"
  shows "mgr_HeaderByHeight m k = chain_header (take (Suc i) bs) k"
proof -
  have k: "unat k \<le> i" using assms(4) valid_chain_height(1) [OF assms(2,3)] by (simp add: word_le_nat_alt)
  then have "unat k < length bs" using assms(3) by simp
  moreover have "(of_nat (unat k) :: u64) = k" by simp
  ultimately show ?thesis
    using holds_chain_nth(1,4) [OF assms(1), of "unat k"] k
    by (simp add: mgr_HeaderByHeight_def chain_header_def)
qed

lemma holds_chain_bits:
  assumes "holds_chain (mgr_Store m) bs" and "valid_chain net v bs" and "i < length bs"
  shows "ExpectedBits (blk_Header (bs ! i)) net (mgr_HeaderByHeight m)
       = ExpectedBits (blk_Header (bs ! i)) net (chain_header (take (Suc i) bs))"
  using holds_chain_header [OF assms] by (intro ExpectedBits_cong) (simp add: blk_Height_def)

lemma chain_work_nth:
  assumes "holds_chain d bs" and "i < length bs" and "hdr_PrevHash (blk_Header b) = blk_Hash (bs ! i)"
    and "blk_Height b \<noteq> 0"
  shows "chain_work d b = work_upto bs (Suc i) + WorkForBits (hdr_Bits (blk_Header b))"
  using assms holds_chain_nth(2) [OF assms(1,2)]
  by (simp add: chain_work_def blk_Height_def word_neq_0_conv)

lemma GetBlock_unknown:
  "holds_chain d bs \<Longrightarrow> GetBlock d h = Inl e \<Longrightarrow> h \<notin> blk_Hash ` set bs"
  using holds_chain_block [of d bs h] by auto

lemma not_last_hash:
  assumes "holds_chain d bs" and "valid_chain net v bs" and "Suc i < length bs"
  shows "blk_Hash (bs ! i) \<noteq> blk_Hash (last bs)"
proof
  let ?n = "length bs - 1"
  have "bs \<noteq> []" using assms(3) by auto
  then have n: "i < length bs" "?n < length bs" "last bs = bs ! ?n"
    using assms(3) by (simp_all add: last_conv_nth)
  assume "blk_Hash (bs ! i) = blk_Hash (last bs)"
  then have "bs ! i = bs ! ?n" using holds_chain_inj [OF assms(1), of "bs ! i" "bs ! ?n"] n by simp
  then show False
    using valid_chain_height(1) [OF assms(2) n(1)] valid_chain_height(1) [OF assms(2) n(2)] assms(3) by simp
qed

lemma side_branch_light:
  assumes "holds_chain (mgr_Store m) bs" and "valid_chain (mgr_Network m) v bs" and "Suc i < length bs"
    and "ValidateBlockHeaderWithDifficulty now b (Some (blk_Header (bs ! i))) (mgr_Network m) (mgr_HeaderByHeight m) = None"
    and "hdr_PrevHash (blk_Header b) = blk_Hash (bs ! i)" and "blk_Height b \<noteq> 0"
  shows "hdr_PrevHash (blk_Header b) \<noteq> blk_Hash (last bs)"
    and "\<exists>w. TotalWork (mgr_Store m) (blk_Hash (last bs)) = Inr w \<and> chain_work (mgr_Store m) b \<le> w"
proof -
  let ?n = "length bs - 1"
  have "bs \<noteq> []" using assms(3) by auto
  then have i: "i < length bs" and n: "?n < length bs" "last bs = bs ! ?n" "Suc ?n = length bs"
    using assms(3) by (simp_all add: last_conv_nth)
  show "hdr_PrevHash (blk_Header b) \<noteq> blk_Hash (last bs)" using not_last_hash [OF assms(1-3)] assms(5) by simp
  have "hdr_Bits (blk_Header b) = hdr_Bits (blk_Header (bs ! Suc i))"
    using assms(4) valid_chain_prev(2) [OF assms(2,3)] holds_chain_bits [OF assms(1,2) i]
    by (simp add: ValidateBlockHeaderWithDifficulty_None)
  then have "chain_work (mgr_Store m) b = work_upto bs (Suc (Suc i))"
    using chain_work_nth [OF assms(1) i assms(5,6)] work_upto_Suc [OF assms(3)] by simp
  then have "chain_work (mgr_Store m) b \<le> work_upto bs (length bs)" using work_upto_mono assms(3) by simp
  then show "\<exists>w. TotalWork (mgr_Store m) (blk_Hash (last bs)) = Inr w \<and> chain_work (mgr_Store m) b \<le> w"
    using holds_chain_nth(2) [OF assms(1) n(1)] unfolding n by blast
qed

text \<open>
  What an accepted block did, when it is not a second block of height zero: it became the next block
  of the chain, or it went nowhere.
\<close>

lemma apply_direct_extends:
  assumes "holds_chain (mgr_Store m) bs" and "valid_next net v bs b"
    and "blk_Hash b \<notin> blk_Hash ` set bs"
    and "w = work_upto bs (length bs) + WorkForBits (hdr_Bits (blk_Header b))"
  shows "\<exists>d. apply_direct m b w = (m\<lparr>mgr_Store := d\<rparr>, None) \<and> holds_chain d (bs @ [b])"
proof -
  have h: "unat (blk_Height b) = length bs" and wf: "wf_Block b" using assms(2) by (simp_all add: valid_next_def)
  have "(of_nat (unat (blk_Height b)) :: u64) = blk_Height b" by simp
  then have "blk_Height b = of_nat (length bs)" by (simp only: h)
  moreover have "length bs < 2 ^ 64" using unat_u64_less [of "blk_Height b"] by (simp only: h)
  ultimately show ?thesis
    using holds_chain_extend [OF assms(1) wf _ _ assms(3)] assms(4) by (auto simp: apply_direct_def)
qed

lemma valid_nextI:
  assumes "holds_chain (mgr_Store m) bs" and "valid_chain (mgr_Network m) (mgr_Verifier m) bs"
    and "ValidateBlockHeaderWithDifficulty now b p (mgr_Network m) (mgr_HeaderByHeight m) = None"
    and "ValidateBlockTransactions b (Get (mgr_Store m)) (mgr_Verifier m) = None" and "wf_Block b"
    and "if bs = [] then blk_Height b = 0 else blk_Height b \<noteq> 0 \<and> p = Some (blk_Header (last bs))"
  shows "valid_next (mgr_Network m) (mgr_Verifier m) bs b"
proof -
  have t: "ValidateBlockTransactions b (ledger_view (replay bs)) (mgr_Verifier m) = None"
    using assms(4) holds_chain_ok(4) [OF assms(1)] by (simp add: validate_view)
  have h: "ValidateBlockHeader now b p (mgr_Network m) = None"
    and x: "case p of None \<Rightarrow> True
      | Some q \<Rightarrow> ExpectedBits q (mgr_Network m) (mgr_HeaderByHeight m) = Inr (hdr_Bits (blk_Header b))"
    using assms(3) by (simp_all add: ValidateBlockHeaderWithDifficulty_None)
  show ?thesis
  proof (cases "bs = []")
    case True
    then show ?thesis using h t assms(5,6) by (simp add: valid_next_def ValidateBlockHeader_None)
  next
    case False
    let ?i = "length bs - 1"
    have i: "?i < length bs" "bs ! ?i = last bs" "take (Suc ?i) bs = bs"
      using False by (simp_all add: last_conv_nth)
    have p: "p = Some (blk_Header (last bs))" "blk_Height b \<noteq> 0" using assms(6) False by simp_all
    have hb: "blk_Height b = blk_Height (last bs) + 1"
      using h p(1) by (simp add: ValidateBlockHeader_None blk_Height_def)
    have "unat (blk_Height (last bs)) = ?i" using valid_chain_height(1) [OF assms(2) i(1)] i(2) by simp
    moreover have "unat (blk_Height (last bs) + 1) = Suc (unat (blk_Height (last bs)))"
      using p(2) hb by (simp add: unatSuc add.commute)
    ultimately have "unat (blk_Height b) = length bs" using hb False by simp
    moreover have "ExpectedBits (blk_Header (last bs)) (mgr_Network m) (chain_header bs) = Inr (hdr_Bits (blk_Header b))"
      using holds_chain_bits [OF assms(1,2) i(1)] x unfolding i(2,3) p(1) option.case by (simp only:)
    ultimately show ?thesis
      using h t assms(5) by (simp add: valid_next_def ValidateBlockHeader_None p(1) blk_Hash_def)
  qed
qed

lemma ValidateAndApplyBlock_chain:
  assumes "holds_chain (mgr_Store m) bs" and "valid_chain (mgr_Network m) (mgr_Verifier m) bs"
    and "wf_Block b" and "blk_Height b \<noteq> 0 \<or> bs = []"
  obtains (rejected) e where "ValidateAndApplyBlock now m b = Some (m, Some e)"
  | (extended) d where "ValidateAndApplyBlock now m b
        = Some (m\<lparr>mgr_Store := d, mgr_Mempool := (if bs = [] then mgr_Mempool m else map_option (\<lambda>mp. RemoveMinedBlock mp b) (mgr_Mempool m))\<rparr>, None)"
      "valid_next (mgr_Network m) (mgr_Verifier m) bs b" "holds_chain d (bs @ [b])"
  | (side) d i where "ValidateAndApplyBlock now m b = Some (m\<lparr>mgr_Store := d\<rparr>, None)"
      "holds_chain d bs" "Suc i < length bs" "hdr_PrevHash (blk_Header b) = blk_Hash (bs ! i)"
proof (cases rule: ValidateAndApplyBlock_cases [of now m b])
  case (rejected e)
  then show thesis using that(1) by blast
next
  case (valid e0 p)
  let ?d = "mgr_Store m" and ?hd = "blk_Header b"
  note new = valid(1) and p = valid(2) and h = valid(3) and t = valid(4)
  note vab = valid(5) [unfolded choose_fork_def Let_def]
  note fresh = GetBlock_unknown [OF assms(1) new]
  show thesis
  proof (cases "blk_Height b = 0")
    case True
    then have bs: "bs = []" using assms(4) by simp
    have vn: "valid_next (mgr_Network m) (mgr_Verifier m) bs b"
      using valid_nextI [OF assms(1,2) h t assms(3)] bs True by simp
    have "chain_work ?d b = work_upto bs (length bs) + WorkForBits (hdr_Bits ?hd)"
      using True by (simp add: chain_work_def blk_Height_def bs work_upto_def)
    then obtain d where "apply_direct m b (chain_work ?d b) = (m\<lparr>mgr_Store := d\<rparr>, None)" "holds_chain d (bs @ [b])"
      using apply_direct_extends [OF assms(1) vn fresh] by blast
    moreover obtain e where "Tip ?d = Inl e" using assms(1) bs by (auto simp: holds_chain_def)
    ultimately show thesis using extended [of d] vn bs by (simp add: vab)
  next
    case False
    then have pos: "hdr_Height ?hd > 0" by (simp add: blk_Height_def word_neq_0_conv)
    obtain q where q: "GetBlock ?d (hdr_PrevHash ?hd) = Inr q" "p = Some (blk_Header q)"
      using p pos by (auto simp: find_prev_def split: sum.splits)
    then have "q \<in> set bs" and pq: "hdr_PrevHash ?hd = blk_Hash q" using holds_chain_block [OF assms(1)] by auto
    then obtain i where i: "i < length bs" "q = bs ! i" by (auto simp: in_set_conv_nth)
    have ne: "bs \<noteq> []" using i by auto
    have tip: "Tip ?d = Inr (blk_Hash (last bs))" using assms(1) ne by (simp add: holds_chain_def)
    have cw: "chain_work ?d b = work_upto bs (Suc i) + WorkForBits (hdr_Bits ?hd)"
      using chain_work_nth [OF assms(1) i(1) _ False] pq i(2) by simp
    show thesis
    proof (cases "Suc i = length bs")
      case True
      then have last: "q = last bs" using i ne by (simp add: last_conv_nth flip: True)
      have vn: "valid_next (mgr_Network m) (mgr_Verifier m) bs b"
        using valid_nextI [OF assms(1,2) h t assms(3)] ne False q(2) last by simp
      obtain d where "apply_direct m b (chain_work ?d b) = (m\<lparr>mgr_Store := d\<rparr>, None)" "holds_chain d (bs @ [b])"
        using apply_direct_extends [OF assms(1) vn fresh] cw True by auto
      then show thesis using extended [of d] vn ne pq last by (simp add: vab tip)
    next
      case other: False
      then have i': "Suc i < length bs" using i(1) by simp
      note light = side_branch_light [OF assms(1,2) i' h [unfolded q(2) i(2)] pq [unfolded i(2)] False]
      obtain d where "PutTotalWork ?d (blk_Hash b) (chain_work ?d b) = (d, None)" "holds_chain d bs"
        using holds_chain_side [OF assms(1) fresh] by blast
      then show thesis using side [of d i] i' pq i(2) light by (auto simp: vab tip)
    qed
  qed
qed


section \<open>Lemmas: the first block\<close>

text \<open>The networks whose genesis is mined at the limit, as the three of the program are.\<close>

definition net_ok :: "Network \<Rightarrow> bool" where
  "net_ok net \<longleftrightarrow> CompactToBig (net_GenesisBits net) = net_PowLimit net"

lemma net_ok_networks: "net_ok Mainnet" "net_ok Testnet" "net_ok Regtest"
  by (simp_all add: net_ok_def Mainnet_def Testnet_def Regtest_def)

lemma genesis_fields:
  "blk_Height (CreateGenesisBlock net) = 0"
  "hdr_Bits (blk_Header (CreateGenesisBlock net)) = net_GenesisBits net"
  "hdr_MerkleRoot (blk_Header (CreateGenesisBlock net)) = BuildMerkleRoot (blk_Transactions (CreateGenesisBlock net))"
  "blk_Transactions (CreateGenesisBlock net) = [NewCoinbase GenesisMessage InitialReward (string_bytes ''genesis'')]"
  by (simp_all add: CreateGenesisBlock_def Let_def blk_Height_def)

lemma wf_genesis: "wf_Block (with_nonce (CreateGenesisBlock net) k)"
  by (simp add: wf_Block_def genesis_fields wf_NewCoinbase GenesisMessage_def string_bytes_def)

lemma coinbase_only_valid:
  assumes "blk_Transactions b = [NewCoinbase msg (BlockReward (blk_Height b)) script]"
  shows "ValidateBlockTransactions b r v = None"
proof -
  have "\<not> add_overflows 0 (BlockReward h)" for h using unat_u64_less [of "BlockReward h"] by (simp add: add_overflows_iff)
  then show ?thesis
    using assms by (simp add: ValidateBlockTransactions_def ValidateBlockTransactionsAt_def NewCoinbase_def
        blk_Height_def Let_def IsCoinbase.simps)
qed

lemma InitialReward_BlockReward: "InitialReward = BlockReward 0"
  by (simp add: BlockReward_def)

lemma valid_genesis:
  assumes "net_ok net" and "below (with_nonce (CreateGenesisBlock net) k) (net_PowLimit net)"
  shows "valid_next net v [] (with_nonce (CreateGenesisBlock net) k)"
proof -
  let ?g = "with_nonce (CreateGenesisBlock net) k"
  have h: "blk_Height ?g = 0" using genesis_fields(1) [of net] by (simp add: blk_Height_def)
  have "0 < net_PowLimit net" using assms(2) unfolding below_def by (meson of_nat_0_le_iff le_less_trans)
  then have "CheckProofOfWork (blk_Header ?g) (net_PowLimit net) = None"
    using assms by (simp add: CheckProofOfWork_None genesis_fields net_ok_def below_def blk_Hash_def)
  moreover have "ValidateBlockTransactions ?g r v = None" for r
    by (rule coinbase_only_valid) (simp add: genesis_fields h InitialReward_BlockReward)
  ultimately show ?thesis by (simp add: valid_next_def wf_genesis h genesis_fields)
qed

lemma InitGenesis_chain:
  assumes "holds_chain (mgr_Store m) bs" and "net_ok (mgr_Network m)"
    and "InitGenesis ctx m = Some (m', r)"
  obtains (same) "m' = m" "bs = [] \<longrightarrow> (\<exists>e. r = Inl e)"
  | (started) d g where "bs = []" "m' = m\<lparr>mgr_Store := d\<rparr>" "r = Inr g"
      "valid_next (mgr_Network m) (mgr_Verifier m) [] g" "holds_chain d [g]"
proof (cases "Tip (mgr_Store m)")
  case (Inr h)
  then have "bs \<noteq> []" using assms(1) by (auto simp: holds_chain_def)
  then show thesis using assms(3) same Inr by (simp add: InitGenesis_def)
next
  case (Inl e)
  let ?G = "CreateGenesisBlock (mgr_Network m)" and ?t = "net_PowLimit (mgr_Network m)"
  have bs: "bs = []" using assms(1) Inl by (auto simp: holds_chain_def split: if_splits)
  obtain ok g where mine: "Mine (ctx_Done ctx) 0 ?G ?t = Some (ok, g)"
    using assms(3) Inl by (auto simp: InitGenesis_def split: option.splits)
  obtain k where k: "stops_at (ctx_Done ctx) 0 ?G ?t k" using Mine_Some [OF mine] by blast
  then have g: "ok = (\<not> ctx_Done ctx k)" "g = with_nonce ?G k" using Mine_stops [OF k] mine by simp_all
  show thesis
  proof (cases ok)
    case False
    then have "m' = m" "r = Inl (ctx_Err ctx)" using assms(3) Inl mine by (simp_all add: InitGenesis_def)
    then show ?thesis using same by blast
  next
    case True
    then have vn: "valid_next (mgr_Network m) (mgr_Verifier m) [] g"
      using valid_genesis [OF assms(2)] k g by (simp add: stops_at_def)
    obtain d1 d' where "ApplyBlock (mgr_Store m) g = (d1, None)"
      "PutTotalWork d1 (blk_Hash g) (WorkForBits (hdr_Bits (blk_Header g))) = (d', None)" "holds_chain d' [g]"
      using holds_chain_extend [OF assms(1), of g] vn bs
      by (auto simp: valid_next_def work_upto_def unat_eq_zero)
    then show ?thesis using assms(3) Inl mine True started [of d' g] bs vn by (simp add: InitGenesis_def)
  qed
qed

section \<open>Lemmas: reachable managers\<close>

text \<open>
  A manager over a fresh store on a disk without faults, and what it becomes when genesis is
  initialised, when blocks arrive and when transactions enter the mempool. Blocks are well formed,
  as every block that was read from bytes is; a block of height zero arrives only while there is no
  tip (\<open>second_genesis\<close> below shows what one does later).
\<close>

inductive mgr_reachable :: "Manager \<Rightarrow> bool" where
  mgr_start: "Open path None (empty_disk []) = Inr d \<Longrightarrow> net_ok net \<Longrightarrow> mp = None \<or> mp = Some (mp_New n)
     \<Longrightarrow> mgr_reachable (mgr_New d net mp verifier)"
| mgr_genesis: "mgr_reachable m \<Longrightarrow> InitGenesis ctx m = Some (m', r) \<Longrightarrow> mgr_reachable m'"
| mgr_block: "mgr_reachable m \<Longrightarrow> wf_Block b \<Longrightarrow> blk_Height b \<noteq> 0 \<or> (\<exists>e. Tip (mgr_Store m) = Inl e)
     \<Longrightarrow> ValidateAndApplyBlock now m b = Some (m', r) \<Longrightarrow> mgr_reachable m'"
| mgr_pool: "mgr_reachable m \<Longrightarrow> mgr_Mempool m = Some mp \<Longrightarrow> hash_identifies t mp
     \<Longrightarrow> mgr_reachable (m\<lparr>mgr_Mempool := Some (fst (mp_Add ranks now (Get (mgr_Store m)) (mgr_Verifier m) mp t))\<rparr>)"

definition mgr_inv :: "Manager \<Rightarrow> Block list \<Rightarrow> bool" where
  "mgr_inv m bs \<longleftrightarrow> net_ok (mgr_Network m) \<and> valid_chain (mgr_Network m) (mgr_Verifier m) bs
     \<and> holds_chain (mgr_Store m) bs \<and> (\<forall>mp. mgr_Mempool m = Some mp \<longrightarrow> mp_reachable mp)"

lemma holds_chain_empty:
  assumes "Open path None (empty_disk []) = Inr d"
  shows "holds_chain d []"
proof -
  have "dsk_files (db_disk d) = []" "dsk_ReadErr (db_disk d) = (\<lambda>_. None)" and f: "dsk_faults (db_disk d) = []"
    using assms by (auto simp: Open_def peb_Open_def empty_disk_def)
  then have g: "peb_Get d k = Inl ErrNotFound" for k by (simp add: peb_Get_empty)
  have "db_ok d \<and> store_typed d" using assms by (intro store_reachable_ok store_open)
  moreover have "utxo_map d = (\<lambda>_. None)" by (auto simp: utxo_map_def utxo_of_def g)
  ultimately show ?thesis
    using f by (simp add: holds_chain_def Tip_def GetBlock_def get_bytes_def g replay_def)
qed

text \<open>One block under the invariant: rejected without a trace, appended, or of no consequence.\<close>

lemma mgr_inv_block:
  assumes "mgr_inv m bs" and "wf_Block b" and "blk_Height b \<noteq> 0 \<or> bs = []"
  obtains (rejected) e where "ValidateAndApplyBlock now m b = Some (m, Some e)"
  | (extended) m' where "ValidateAndApplyBlock now m b = Some (m', None)" "mgr_inv m' (bs @ [b])"
      "mgr_Network m' = mgr_Network m" "mgr_Verifier m' = mgr_Verifier m"
      "valid_next (mgr_Network m) (mgr_Verifier m) bs b"
      "mgr_Mempool m' = (if bs = [] then mgr_Mempool m else map_option (\<lambda>mp. RemoveMinedBlock mp b) (mgr_Mempool m))"
  | (side) m' i where "ValidateAndApplyBlock now m b = Some (m', None)" "mgr_inv m' bs"
      "mgr_Network m' = mgr_Network m" "mgr_Verifier m' = mgr_Verifier m"
      "Suc i < length bs" "hdr_PrevHash (blk_Header b) = blk_Hash (bs ! i)" "mgr_Mempool m' = mgr_Mempool m"
proof -
  have h: "holds_chain (mgr_Store m) bs" "valid_chain (mgr_Network m) (mgr_Verifier m) bs"
    using assms(1) by (simp_all add: mgr_inv_def)
  from h assms(2,3) show thesis
  proof (cases rule: ValidateAndApplyBlock_chain [where now = now])
    case (rejected e)
    then show ?thesis using that(1) by blast
  next
    case (extended d)
    have "valid_chain (mgr_Network m) (mgr_Verifier m) (bs @ [b])" using h(2) extended(2) by (rule valid_snoc)
    then have "mgr_inv (m\<lparr>mgr_Store := d, mgr_Mempool := (if bs = [] then mgr_Mempool m
        else map_option (\<lambda>mp. RemoveMinedBlock mp b) (mgr_Mempool m))\<rparr>) (bs @ [b])"
      using assms(1) extended(3) by (auto simp: mgr_inv_def intro: mp_reachable.intros(4) split: if_splits)
    then show ?thesis using that(2) [OF extended(1)] extended(2) by simp
  next
    case (side d i)
    then have "mgr_inv (m\<lparr>mgr_Store := d\<rparr>) bs" using assms(1) by (simp add: mgr_inv_def)
    then show ?thesis using that(3) [OF side(1)] side(3,4) by simp
  qed
qed

lemma mgr_reachable_inv: "mgr_reachable m \<Longrightarrow> \<exists>bs. mgr_inv m bs"
proof (induction rule: mgr_reachable.induct)
  case (mgr_start path d net mp n verifier)
  then have "mgr_inv (mgr_New d net mp verifier) []"
    using holds_chain_empty by (auto simp: mgr_inv_def mgr_New_def intro: valid_empty mp_reachable.intros(1))
  then show ?case by blast
next
  case (mgr_genesis m ctx m' r)
  then obtain bs where inv: "mgr_inv m bs" by blast
  then have h: "holds_chain (mgr_Store m) bs" "net_ok (mgr_Network m)" by (simp_all add: mgr_inv_def)
  from h mgr_genesis(2) show ?case
  proof (cases rule: InitGenesis_chain)
    case same
    then show ?thesis using inv by blast
  next
    case (started d g)
    then have "mgr_inv m' [g]"
      using inv valid_snoc [OF valid_empty, of "mgr_Network m" "mgr_Verifier m" g] by (simp add: mgr_inv_def)
    then show ?thesis by blast
  qed
next
  case (mgr_block m b now m' r)
  then obtain bs where inv: "mgr_inv m bs" by blast
  then have "blk_Height b \<noteq> 0 \<or> bs = []"
    using mgr_block(3) by (auto simp: mgr_inv_def holds_chain_def split: if_splits)
  from inv mgr_block(2) this show ?case
    using mgr_block(4) inv by (cases rule: mgr_inv_block [where now = now]) auto
next
  case (mgr_pool m mp t ranks now)
  then obtain bs where "mgr_inv m bs" by blast
  then have "mgr_inv (m\<lparr>mgr_Mempool := Some (fst (mp_Add ranks now (Get (mgr_Store m)) (mgr_Verifier m) mp t))\<rparr>) bs"
    using mgr_pool(2,3) by (simp add: mgr_inv_def mp_reachable.intros(2))
  then show ?case by blast
qed


section \<open>Lemmas: supply\<close>

text \<open>The abstract ledger is a provider of the same contract as the store.\<close>

interpretation replayed: ledger_store "\<lambda>_. True" "\<lambda>m. m" ledger_view "\<lambda>m b. (connect_block b m, None)"
  by unfold_locales (auto simp: ledger_view_def split: option.splits)

lemma valid_chain_supply: "valid_chain net v bs \<Longrightarrow> total_supply (replay bs) \<le> (\<Sum>i < length bs. subsidy i)"
proof (induction rule: valid_chain.induct)
  case valid_empty
  show ?case by (simp add: replay_def total_supply_def entry_value_def)
next
  case (valid_snoc bs b)
  have "ValidateBlockTransactionsAt b (ledger_view (replay bs)) v (blk_Height b) = None"
    using valid_snoc(2) by (simp add: valid_next_def ValidateBlockTransactions_def blk_Height_def)
  from replayed.connect_supply [OF TrueI this refl]
  have "total_supply (replay (bs @ [b])) \<le> total_supply (replay bs) + subsidy (unat (blk_Height b))"
    by (simp add: unat_BlockReward blk_Height_def)
  then show ?case using valid_snoc by (simp add: valid_next_def)
qed

section \<open>Lemmas: rolling back\<close>

text \<open>The store after a rollback to index \<open>k\<close>: only the tip and the unspent outputs have moved.\<close>

definition rolled_back :: "DB \<Rightarrow> Block list \<Rightarrow> nat \<Rightarrow> bool" where
  "rolled_back d bs k \<longleftrightarrow>
     db_ok d \<and> dsk_faults (db_disk d) = [] \<and> k < length bs \<and> Tip d = Inr (blk_Hash (bs ! k))
     \<and> (\<forall>i < length bs. GetBlock d (blk_Hash (bs ! i)) = Inr (bs ! i)
          \<and> Undo d (blk_Hash (bs ! i)) = Inr (undo_log (replay (take i bs)) (blk_Transactions (bs ! i))))"

text \<open>No block creates an outpoint that its predecessors left unspent.\<close>

definition fresh_outputs :: "Block list \<Rightarrow> bool" where
  "fresh_outputs bs \<longleftrightarrow>
     (\<forall>i < length bs. \<forall>k \<in> set (concat (map output_keys (blk_Transactions (bs ! i)))).
        replay (take i bs) k = None)"

lemma holds_chain_rolled:
  assumes "holds_chain d bs" and "bs \<noteq> []"
  shows "rolled_back d bs (length bs - 1)"
proof -
  have "Tip d = Inr (blk_Hash (bs ! (length bs - 1)))"
    using assms by (simp add: holds_chain_def last_conv_nth)
  then show ?thesis
    using holds_chain_ok(1,3) [OF assms(1)] holds_chain_nth(3,4) [OF assms(1)] assms(2)
    unfolding rolled_back_def by simp
qed

lemma replay_keyed: "utxo_keyed (replay bs)"
proof (induction bs rule: rev_induct)
  case Nil
  show ?case by (simp add: replay_def utxo_keyed_def)
next
  case (snoc b bs)
  then show ?case by (simp add: connect_block_def utxo_keyed_connect)
qed

lemma tx_ok_inputs:
  assumes "tx_ok r v h t" and "inp \<in> set (tx_Inputs t)"
  shows "\<exists>u. r (in_PrevTxHash inp) (in_OutputIdx inp) = Inr u"
proof -
  obtain fee where "ValidateTransactionAt t r v {} h = (Inr fee, set (input_keys t))"
    using assms(1) unfolding tx_ok_def
    by (cases rule: ValidateTransactionAt_cases [of t r v "{}" h]) auto
  then have "\<forall>i < length (tx_Inputs t). input_ok t r v h i (tx_Inputs t ! i)"
    by (simp add: ValidateTransactionAt_Inr)
  then obtain i where "input_ok t r v h i inp" using assms(2) by (auto simp: in_set_conv_nth)
  then show ?thesis by (rule input_ok_Inr) blast
qed

lemma valid_next_spends:
  assumes "valid_next net v bs b"
  shows "\<forall>k \<in> set (concat (map spent_outpoints (blk_Transactions b))). replay bs k \<noteq> None"
proof
  fix k assume k: "k \<in> set (concat (map spent_outpoints (blk_Transactions b)))"
  have v: "ValidateBlockTransactionsAt b (ledger_view (replay bs)) v (hdr_Height (blk_Header b)) = None"
    using assms by (simp add: valid_next_def ValidateBlockTransactions_def)
  obtain coinbase txs where b: "blk_Transactions b = coinbase # txs" "IsCoinbase coinbase"
    and t: "\<forall>t \<in> set txs. tx_ok (ledger_view (replay bs)) v (hdr_Height (blk_Header b)) t"
    using v by (rule ValidateBlockTransactionsAt_None)
  obtain t inp where "t \<in> set txs" "inp \<in> set (tx_Inputs t)" "k = outpoint inp"
    using k b unfolding set_spent_outpoints by auto
  then show "replay bs k \<noteq> None"
    using tx_ok_inputs t by (fastforce simp: ledger_view_def outpoint_def split: option.splits)
qed

lemma disconnect_rolled:
  assumes "valid_chain net v bs" and "rolled_back d bs (Suc k)"
  shows "\<exists>d'. DisconnectTip d = (d', Inr (bs ! Suc k)) \<and> rolled_back d' bs k
    \<and> (fresh_outputs bs \<and> utxo_map d = replay (take (Suc (Suc k)) bs) \<longrightarrow> utxo_map d' = replay (take (Suc k) bs))"
proof -
  let ?b = "bs ! Suc k"
  let ?undo = "undo_log (replay (take (Suc k) bs)) (blk_Transactions ?b)"
  have k: "Suc k < length bs" and ok: "db_ok d" using assms(2) by (simp_all add: rolled_back_def)
  obtain d' where d': "peb_Commit (disconnect_batch ?b ?undo) d = (d', None)" "dsk_faults (db_disk d') = []"
    using peb_Commit_no_faults assms(2) unfolding rolled_back_def by blast
  have "DisconnectTip d = (d', Inr ?b)" using assms(2) d'(1) k by (simp add: rolled_back_def DisconnectTip_def)
  moreover have "hdr_Height (blk_Header ?b) \<noteq> 0"
    using valid_chain_height(1) [OF assms(1) k] by (metis blk_Height_def unat_0 nat.simps(3))
  then have "rolled_back d' bs k"
    using assms(2) d'(2) k valid_chain_prev(1) [OF assms(1) k]
    by (simp add: rolled_back_def disconnect_state [OF ok d'(1)])
  moreover have "utxo_map d' = replay (take (Suc k) bs)"
    if "fresh_outputs bs" "utxo_map d = replay (take (Suc (Suc k)) bs)"
  proof -
    have "take (Suc (Suc k)) bs = take (Suc k) bs @ [?b]" using k by (rule take_Suc_conv_app_nth)
    then have "utxo_map d' = disconnect_block ?b ?undo (connect_block ?b (replay (take (Suc k) bs)))"
      using that(2) by (simp add: disconnect_ledger [OF ok d'(1)])
    also have "\<dots> = replay (take (Suc k) bs)"
      using that(1) k valid_next_spends [OF valid_chain_nth [OF assms(1) k]]
      by (intro disconnect_connect replay_keyed) (auto simp: fresh_outputs_def)
    finally show ?thesis .
  qed
  ultimately show ?thesis by blast
qed

lemma RollbackToHeight_chain:
  assumes "valid_chain (mgr_Network m) (mgr_Verifier m) bs" and "rolled_back (mgr_Store m) bs k"
  shows "\<exists>d'. RollbackToHeight m h = Some (m\<lparr>mgr_Store := d'\<rparr>, None) \<and> rolled_back d' bs (min k (unat h))
    \<and> (fresh_outputs bs \<and> utxo_map (mgr_Store m) = replay (take (Suc k) bs)
         \<longrightarrow> utxo_map d' = replay (take (Suc (min k (unat h))) bs))"
  using assms
proof (induction k arbitrary: m)
  case 0
  then have "TipBlock m = Inr (bs ! 0)" "unat (hdr_Height (blk_Header (bs ! 0))) = 0"
    using valid_chain_height(1) [of _ _ bs 0] by (auto simp: TipBlock_def rolled_back_def blk_Height_def)
  then have "RollbackToHeight m h = Some (m, None)"
    by (simp add: RollbackToHeight.simps [of m] word_le_nat_alt)
  then show ?case using 0 by (intro exI [of _ "mgr_Store m"]) simp
next
  case (Suc k)
  have k: "Suc k < length bs" using Suc.prems(2) by (simp add: rolled_back_def)
  have t: "TipBlock m = Inr (bs ! Suc k)" "unat (hdr_Height (blk_Header (bs ! Suc k))) = Suc k"
    using Suc.prems(2) valid_chain_height(1) [OF Suc.prems(1) k]
    by (simp_all add: TipBlock_def rolled_back_def blk_Height_def)
  show ?case
  proof (cases "Suc k \<le> unat h")
    case True
    then have "RollbackToHeight m h = Some (m, None)"
      using t by (simp add: RollbackToHeight.simps [of m] word_le_nat_alt)
    moreover have "min (Suc k) (unat h) = Suc k" using True by simp
    ultimately show ?thesis using Suc.prems(2) by (intro exI [of _ "mgr_Store m"]) simp
  next
    case False
    obtain d where d: "DisconnectTip (mgr_Store m) = (d, Inr (bs ! Suc k))" "rolled_back d bs k"
      "fresh_outputs bs \<and> utxo_map (mgr_Store m) = replay (take (Suc (Suc k)) bs) \<longrightarrow> utxo_map d = replay (take (Suc k) bs)"
      using disconnect_rolled [OF Suc.prems] by blast
    have "RollbackToHeight m h = RollbackToHeight (m\<lparr>mgr_Store := d\<rparr>) h"
      using t False d(1) by (simp add: RollbackToHeight.simps [of m] word_le_nat_alt)
    moreover have "min (Suc k) (unat h) = min k (unat h)" using False by simp
    moreover obtain d' where "RollbackToHeight (m\<lparr>mgr_Store := d\<rparr>) h = Some (m\<lparr>mgr_Store := d'\<rparr>, None)"
      "rolled_back d' bs (min k (unat h))"
      "fresh_outputs bs \<and> utxo_map d = replay (take (Suc k) bs)
         \<longrightarrow> utxo_map d' = replay (take (Suc (min k (unat h))) bs)"
      using Suc.IH [of "m\<lparr>mgr_Store := d\<rparr>"] Suc.prems(1) d(2) by auto
    ultimately show ?thesis using d(3) by auto
  qed
qed


section \<open>Lemmas: every block gets an answer\<close>

lemma choose_fork_returns:
  assumes "mgr_inv m bs" and "find_prev (mgr_Store m) b = Inr p"
    and "ValidateBlockHeaderWithDifficulty now b p (mgr_Network m) (mgr_HeaderByHeight m) = None"
  shows "\<exists>r. choose_fork m b (chain_work (mgr_Store m) b) = Some r"
proof (cases "\<exists>tip. Tip (mgr_Store m) = Inr tip \<and> hdr_PrevHash (blk_Header b) \<noteq> tip")
  case False
  then show ?thesis by (auto simp: choose_fork_def Let_def split: sum.splits prod.splits option.splits)
next
  case True
  then obtain tip where tip: "Tip (mgr_Store m) = Inr tip" "hdr_PrevHash (blk_Header b) \<noteq> tip" by blast
  have inv: "holds_chain (mgr_Store m) bs" "valid_chain (mgr_Network m) (mgr_Verifier m) bs"
    using assms(1) by (simp_all add: mgr_inv_def)
  have bs: "bs \<noteq> []" "tip = blk_Hash (last bs)" using tip(1) inv(1) by (auto simp: holds_chain_def split: if_splits)
  show ?thesis
  proof (cases "blk_Height b = 0")
    case True
    then have "collect_side (mgr_Store m) [b] b = Some (Inr ([b], b))"
      by (simp add: collect_side.simps [of _ "[b]"] blk_Height_def)
    moreover obtain d where "RollbackToHeight m 0 = Some (m\<lparr>mgr_Store := d\<rparr>, None)"
      using RollbackToHeight_chain [OF inv(2) holds_chain_rolled [OF inv(1) bs(1)]] by blast
    ultimately have "\<exists>r. reorg m b = Some r"
      using True by (simp add: reorg_def blk_Height_def Let_def split: prod.splits option.splits)
    then show ?thesis using tip by (auto simp: choose_fork_def Let_def split: prod.splits)
  next
    case False
    then obtain q where q: "GetBlock (mgr_Store m) (hdr_PrevHash (blk_Header b)) = Inr q" "p = Some (blk_Header q)"
      using assms(2) by (auto simp: find_prev_def blk_Height_def word_neq_0_conv split: sum.splits)
    then obtain i where i: "i < length bs" "hdr_PrevHash (blk_Header b) = blk_Hash (bs ! i)" "q = bs ! i"
      using holds_chain_block [OF inv(1)] by (auto simp: in_set_conv_nth)
    have "Suc i \<noteq> length bs"
    proof
      assume "Suc i = length bs"
      then have "last bs = bs ! i" using bs(1) by (simp add: last_conv_nth flip: \<open>Suc i = length bs\<close>)
      then show False using tip(2) bs(2) i(2) by simp
    qed
    then have "Suc i < length bs" using i(1) by simp
    then obtain w where "TotalWork (mgr_Store m) tip = Inr w" "chain_work (mgr_Store m) b \<le> w"
      using side_branch_light(2) [OF inv, of i now b] assms(3) i(2,3) q(2) False bs(2) by auto
    then show ?thesis using tip by (auto simp: choose_fork_def Let_def split: prod.splits)
  qed
qed

section \<open>A manager to evaluate on\<close>

text \<open>A network so easy that every hash is below its target.\<close>

definition easy_net :: Network where
  "easy_net = Regtest\<lparr>net_GenesisBits := 0x2200ffff, net_PowLimit := CompactToBig 0x2200ffff\<rparr>"

definition demo_ctx :: context_t where
  "demo_ctx = \<lparr>ctx_Done = (\<lambda>_. False), ctx_Err = ContextCanceled\<rparr>"

definition demo_mgr :: Manager where
  "demo_mgr = fst (the (InitGenesis demo_ctx (mgr_New demo_db easy_net None None)))"

definition demo_first :: Block where
  "demo_first = CreateGenesisBlock easy_net"

lemma easy_target: "CompactToBig 0x2200ffff = 0xffff * 2 ^ 248"
  by (simp add: CompactToBig_def push_bit_eq_mult)

lemma easy_below: "int (unat h) < CompactToBig 0x2200ffff" for h :: hash
proof -
  have "uint h < 2 ^ 256" using unsigned_less [of h] by simp
  then show ?thesis by (simp add: easy_target)
qed

lemma demo_open: "Open ''data'' None (empty_disk []) = Inr demo_db"
  by (simp add: Open_def peb_Open_def demo_db_def filepath_Clean_def clean_elems_def is_rooted_def
      clean_step_def)

lemma demo_mgr:
  shows "mgr_reachable demo_mgr" and "mgr_inv demo_mgr [demo_first]"
    and "mgr_Network demo_mgr = easy_net" and "mgr_Mempool demo_mgr = None"
proof -
  let ?m = "mgr_New demo_db easy_net None None"
  have net: "net_ok easy_net" by (simp add: net_ok_def easy_net_def)
  have start: "mgr_reachable ?m" using demo_open net by (rule mgr_start) simp
  have hc: "holds_chain (mgr_Store ?m) []" using holds_chain_empty [OF demo_open] by (simp add: mgr_New_def)
  have "Tip demo_db = Inl ErrNotFound" by (simp add: Tip_def get_bytes_def)
  moreover have "Mine (\<lambda>_. False) 0 demo_first (net_PowLimit easy_net) = Some (True, demo_first)"
    using easy_below [of "blk_Hash demo_first"]
    by (subst Mine_step) (simp add: below_def easy_net_def)
  moreover obtain d where d: "ApplyBlock demo_db demo_first = (d, None)"
    using ApplyBlock_no_faults [OF demo_db_ok(2)] by blast
  ultimately obtain m where m: "InitGenesis demo_ctx ?m = Some (m, Inr demo_first)"
    by (simp add: InitGenesis_def mgr_New_def demo_ctx_def demo_first_def Let_def)
  then have dm: "demo_mgr = m" by (simp add: demo_mgr_def)
  show "mgr_reachable demo_mgr" using mgr_genesis [OF start m] by (simp add: dm)
  have nm: "net_ok (mgr_Network ?m)" using net by (simp add: mgr_New_def)
  from hc nm m show "mgr_inv demo_mgr [demo_first]" "mgr_Network demo_mgr = easy_net" "mgr_Mempool demo_mgr = None"
  proof (atomize(full), cases rule: InitGenesis_chain)
    case (started d g)
    have "valid_chain easy_net None [demo_first]"
      using valid_snoc [OF valid_empty, of easy_net None demo_first] started(3,4) by (simp add: mgr_New_def)
    then show "mgr_inv demo_mgr [demo_first] \<and> mgr_Network demo_mgr = easy_net \<and> mgr_Mempool demo_mgr = None"
      using started net by (simp add: dm mgr_inv_def mgr_New_def)
  qed simp
qed

section \<open>Lemmas: templates\<close>

lemma ExpectedBits_limit:
  assumes "ExpectedBits prev net f = Inr bits" and "0 \<le> CompactToBig (hdr_Bits prev)"
    and "CompactToBig (hdr_Bits prev) \<le> net_PowLimit net" and "net_PowLimit net < 256 ^ 254"
  shows "CompactToBig bits \<le> net_PowLimit net"
proof (cases "(hdr_Height prev + 1) mod DifficultyWindow \<noteq> 0 \<or> hdr_Height prev + 1 = 0")
  case True
  then have "bits = hdr_Bits prev" using assms(1) by (auto simp: ExpectedBits_def Let_def)
  then show ?thesis using assms(3) by simp
next
  case False
  then obtain first where "f (hdr_Height prev + 1 - DifficultyWindow) = Inr first"
    using assms(1) by (auto simp: ExpectedBits_def Let_def split: sum.splits)
  then have f: "bits = BigToCompact (min (net_PowLimit net)
      (Retarget (CompactToBig (hdr_Bits prev)) (hdr_Timestamp prev - hdr_Timestamp first) ExpectedRetargetSec))"
    (is "bits = BigToCompact ?n")
    using assms(1) False by (simp add: ExpectedBits_def Let_def min_def split: if_splits)
  have "0 \<le> CompactToBig (hdr_Bits prev) div 4" using assms(2) by (simp add: pos_imp_zdiv_nonneg_iff)
  then have "0 \<le> ?n" using order_trans [OF _ Retarget_bounds(1) [OF assms(2)]] assms(2,3) by simp
  moreover have "?n < 256 ^ 254" using assms(4) by (simp add: min_less_iff_disj)
  ultimately have "CompactToBig bits \<le> ?n" unfolding f by (rule compact_loss(1))
  then show ?thesis by simp
qed

lemma BuildTemplate_Inr:
  assumes "holds_chain (mgr_Store m) bs" and "bs \<noteq> []"
    and "BuildTemplate rank msgTime blockTime m script = Inr (b, tmpl)"
  obtains bits txs where "NextBits m (blk_Header (last bs)) = Inr bits"
    and "b = NewBlock blockTime (blk_Hash (last bs)) (blk_Height (last bs) + 1) bits
               (NewCoinbase (''NEVEL mined at '' @ big_String msgTime) (BlockReward (blk_Height (last bs) + 1)) script # txs)"
    and "txs = (case mgr_Mempool m of None \<Rightarrow> [] | Some mp \<Rightarrow> Snapshot rank mp)"
    and "tmpl_Height tmpl = blk_Height (last bs) + 1"
  using assms holds_chain_tip(1,2) [OF assms(1,2)]
  by (auto simp: BuildTemplate_def TipBlock_def Let_def blk_Height_def split: sum.splits)


lemma next_block_accepted:
  assumes "mgr_inv m bs" and "bs \<noteq> []" and "wf_Block b" and "blk_Hash b \<notin> blk_Hash ` set bs"
    and "blk_Height b \<noteq> 0" and "hdr_PrevHash (blk_Header b) = blk_Hash (last bs)"
    and "ValidateBlockHeaderWithDifficulty now b (Some (blk_Header (last bs))) (mgr_Network m) (mgr_HeaderByHeight m) = None"
    and "ValidateBlockTransactions b (Get (mgr_Store m)) (mgr_Verifier m) = None"
  shows "\<exists>m'. ValidateAndApplyBlock now m b = Some (m', None) \<and> mgr_inv m' (bs @ [b])"
proof -
  have inv: "holds_chain (mgr_Store m) bs" "valid_chain (mgr_Network m) (mgr_Verifier m) bs"
    using assms(1) by (simp_all add: mgr_inv_def)
  obtain e where new: "GetBlock (mgr_Store m) (blk_Hash b) = Inl e"
    using assms(4) holds_chain_block [OF inv(1)] by (cases "GetBlock (mgr_Store m) (blk_Hash b)") auto
  have "find_prev (mgr_Store m) b = Inr (Some (blk_Header (last bs)))"
    using assms(5,6) holds_chain_tip(2) [OF inv(1) assms(2)] by (simp add: find_prev_def blk_Height_def word_neq_0_conv)
  then have v: "ValidateAndApplyBlock now m b = choose_fork m b (chain_work (mgr_Store m) b)"
    using new assms(7,8) by (simp add: ValidateAndApplyBlock_def)
  from assms(1,3) disjI1 [OF assms(5)] show ?thesis
  proof (cases rule: mgr_inv_block [where now = now])
    case (rejected e)
    have vn: "valid_next (mgr_Network m) (mgr_Verifier m) bs b"
      using valid_nextI [OF inv assms(7,8,3)] assms(2,5) by simp
    have n: "length bs - 1 < length bs" "bs ! (length bs - 1) = last bs" "Suc (length bs - 1) = length bs"
      using assms(2) by (simp_all add: last_conv_nth)
    have "chain_work (mgr_Store m) b = work_upto bs (length bs) + WorkForBits (hdr_Bits (blk_Header b))"
      using chain_work_nth [OF inv(1) n(1) _ assms(5)] assms(6) unfolding n by simp
    then obtain d where "apply_direct m b (chain_work (mgr_Store m) b) = (m\<lparr>mgr_Store := d\<rparr>, None)"
      using apply_direct_extends [OF inv(1) vn assms(4)] by blast
    then show ?thesis
      using rejected v assms(6) holds_chain_tip(1) [OF inv(1) assms(2)] by (simp add: choose_fork_def)
  next
    case (side m' i)
    then show ?thesis using not_last_hash [OF inv, of i] assms(6) by simp
  qed blast
qed
end
