(* ===== verification/Sync.thy ===== *)
theory Sync
  imports Replay
begin

text \<open>
  Package \<open>sync\<close> (\<open>sync/sync.go\<close>): header-first synchronisation. The interface \<open>HeaderSource\<close>, which
  the program declares and nobody in it implements, is a record of its two methods and a parameter.
  The lemmas show what the chain becomes, whether or not the run ends with an error.
\<close>

record HeaderSource =
  src_Headers :: "hash list \<Rightarrow> hash \<Rightarrow> error + BlockHeader list"
  src_Block :: "hash \<Rightarrow> error + Block"

text \<open>The manager of a \<open>Synchronizer\<close>, a pointer that may be nil.\<close>

record Synchronizer =
  sync_Chain :: "Manager option"

record Result =
  res_Headers :: nat
  res_Blocks :: nat
  res_TipHeight :: u64

text \<open>The loop over the headers; \<open>clock\<close> is the time at which each block is validated.\<close>

fun sync_loop ::
  "HeaderSource \<Rightarrow> (nat \<Rightarrow> int) \<Rightarrow> BlockHeader list \<Rightarrow> hash \<Rightarrow> Manager \<Rightarrow> Result
     \<Rightarrow> (Manager \<times> Result \<times> error option) option" where
  "sync_loop source clock [] expectedPrev m result = Some (m, result, None)"
| "sync_loop source clock (header # headers) expectedPrev m result =
     (if hdr_PrevHash header \<noteq> expectedPrev then
        Some (m, result, Some (ErrText ''non-contiguous header chain''))
      else case src_Block source (hdr_Hash header) of
        Inl e \<Rightarrow> Some (m, result, Some e)
      | Inr block \<Rightarrow>
          if hdr_Hash (blk_Header block) \<noteq> hdr_Hash header then
            Some (m, result, Some (ErrText ''block/header hash mismatch''))
          else case ValidateAndApplyBlock (clock (res_Blocks result)) m block of
            None \<Rightarrow> None
          | Some (m, Some e) \<Rightarrow> Some (m, result, Some e)
          | Some (m, None) \<Rightarrow>
              sync_loop source clock headers (hdr_Hash header) m
                (result\<lparr>res_Blocks := res_Blocks result + 1, res_TipHeight := hdr_Height (blk_Header block)\<rparr>))"

definition HeaderFirstSync ::
  "HeaderSource \<Rightarrow> (nat \<Rightarrow> int) \<Rightarrow> Synchronizer \<Rightarrow> (Synchronizer \<times> Result \<times> error option) option" where
  "HeaderFirstSync source clock s =
     (let none = \<lparr>res_Headers = 0, res_Blocks = 0, res_TipHeight = 0\<rparr> in
      case sync_Chain s of
        None \<Rightarrow> Some (s, none, Some (ErrText ''chain manager required''))
      | Some m \<Rightarrow>
      case TipBlock m of
        Inl e \<Rightarrow> Some (s, none, Some e)
      | Inr tip \<Rightarrow>
      case src_Headers source [blk_Hash tip] 0 of
        Inl e \<Rightarrow> Some (s, none, Some e)
      | Inr headers \<Rightarrow>
          map_option (\<lambda>(m, result, e). (s\<lparr>sync_Chain := Some m\<rparr>, result, e))
            (sync_loop source clock headers (blk_Hash tip) m
               \<lparr>res_Headers = length headers, res_Blocks = 0, res_TipHeight = hdr_Height (blk_Header tip)\<rparr>))"

section \<open>Lemmas\<close>

text \<open>
  What a run needs of the source: the blocks it serves for the headers were read from bytes, no header
  claims height zero, and the hash of a header identifies it among what the source serves (no
  collision).
\<close>

definition source_ok :: "HeaderSource \<Rightarrow> BlockHeader list \<Rightarrow> bool" where
  "source_ok source headers \<longleftrightarrow>
     (\<forall>header \<in> set headers. hdr_Height header \<noteq> 0
        \<and> (\<forall>b. src_Block source (hdr_Hash header) = Inr b \<and> hdr_Hash (blk_Header b) = hdr_Hash header
              \<longrightarrow> wf_Block b \<and> blk_Header b = header))"

lemma sync_loop_chain:
  assumes "mgr_inv m bs" and "bs \<noteq> []" and "source_ok source headers"
    and "res_TipHeight result = blk_Height (last bs)"
  shows "\<exists>m' new r. sync_loop source clock headers (blk_Hash (last bs)) m result
        = Some (m', result\<lparr>res_Blocks := res_Blocks result + length new, res_TipHeight := blk_Height (last (bs @ new))\<rparr>, r)
    \<and> mgr_inv m' (bs @ new) \<and> map blk_Header new = take (length new) headers
    \<and> (r = None \<longrightarrow> map blk_Header new = headers)"
  using assms
proof (induction headers arbitrary: m bs result)
  case Nil
  then show ?case by (intro exI [of _ m] exI [of _ "[]"] exI [of _ None]) simp
next
  case (Cons header headers)
  let ?l = "blk_Hash (last bs)" and ?r = "res_Blocks result"
  have stop: ?case if "sync_loop source clock (header # headers) ?l m result = Some (m, result, Some e)" for e
    using that Cons.prems by (intro exI [of _ m] exI [of _ "[]"] exI [of _ "Some e"]) simp
  show ?case
  proof (cases "hdr_PrevHash header = ?l")
    case False
    then show ?thesis by (intro stop) simp
  next
    case prev: True
    show ?thesis
    proof (cases "src_Block source (hdr_Hash header)")
      case (Inl e)
      then show ?thesis using prev by (intro stop) simp
    next
      case (Inr b)
      show ?thesis
      proof (cases "hdr_Hash (blk_Header b) = hdr_Hash header")
        case False
        then show ?thesis using prev Inr by (intro stop) simp
      next
        case hash: True
        have b: "wf_Block b" "blk_Header b = header" "blk_Height b \<noteq> 0"
          using Cons.prems(3) Inr hash by (auto simp: source_ok_def blk_Height_def)
        have ok: "source_ok source headers" using Cons.prems(3) by (simp add: source_ok_def)
        from Cons.prems(1) b(1) disjI1 [OF b(3)] show ?thesis
        proof (cases rule: mgr_inv_block [where now = "clock ?r"])
          case (rejected e)
          then show ?thesis using prev Inr hash by (intro stop) simp
        next
          case (extended m')
          let ?res = "result\<lparr>res_Blocks := Suc ?r, res_TipHeight := blk_Height b\<rparr>"
          have "sync_loop source clock (header # headers) ?l m result
              = sync_loop source clock headers (blk_Hash (last (bs @ [b]))) m' ?res"
            using prev Inr hash extended(1) by (simp add: blk_Hash_def blk_Height_def)
          moreover obtain m'' new r where "sync_loop source clock headers (blk_Hash (last (bs @ [b]))) m' ?res
              = Some (m'', ?res\<lparr>res_Blocks := Suc ?r + length new, res_TipHeight := blk_Height (last ((bs @ [b]) @ new))\<rparr>, r)"
            "mgr_inv m'' ((bs @ [b]) @ new)" "map blk_Header new = take (length new) headers"
            "r = None \<longrightarrow> map blk_Header new = headers"
            using Cons.IH [OF extended(2) _ ok, of ?res] by fastforce
          ultimately show ?thesis
            using b(2) by (intro exI [of _ m''] exI [of _ "b # new"] exI [of _ r]) simp
        next
          case (side m' i)
          then have "hdr_PrevHash (blk_Header b) \<noteq> ?l"
            using not_last_hash [of "mgr_Store m" bs "mgr_Network m" "mgr_Verifier m" i] Cons.prems(1)
            by (simp add: mgr_inv_def)
          then show ?thesis using prev b(2) by simp
        qed
      qed
    qed
  qed
qed

section \<open>Properties\<close>


definition demo_block1 :: Block where
  "demo_block1 = demo_block\<lparr>blk_Header := (blk_Header demo_block)\<lparr>hdr_PrevHash := blk_Hash demo_first\<rparr>\<rparr>"

definition demo_source :: HeaderSource where
  "demo_source = \<lparr>src_Headers = (\<lambda>_ _. Inr [blk_Header demo_block1]), src_Block = (\<lambda>_. Inr demo_block1)\<rparr>"


end
