(* ===== verification/P2p.thy ===== *)
theory P2p
  imports Address "HOL-Library.AList"
begin

text \<open>
  Package \<open>p2p\<close> without its handler (\<open>p2p/p2p.go\<close>, \<open>p2p/hardening.go\<close>, \<open>p2p/node.go\<close>, \<open>p2p/seeds.go\<close>):
  the table of peers with its limits, scores, bans and rates, and the framing of messages. A
  connection is a handle; what the operating system answers to writes and dials is the record
  \<open>net_env\<close>, and what a method does to the network is the list of effects it returns. The clock counts
  nanoseconds. The text of a JSON message is a pair of functions. Maps of which the code takes the size
  are association lists, and Go's order of visiting one is a ranking of its keys. Every method that
  changes the node holds its mutex, so the methods are the atomic steps of all goroutines. Scores and
  message counters, 64 bits wide in Go, are integers, and of a failed write nothing is recorded.
\<close>

section \<open>Data\<close>

record Message =
  msg_Type :: string
  msg_Payload :: "byte list"

record PeerInfo =
  pi_ID :: string
  pi_Address :: string
  pi_LastSeen :: int

record Config =
  cfg_NetworkID :: string
  cfg_ListenAddrs :: "string list"
  cfg_Seeds :: "string list"
  cfg_MaxPeers :: int
  cfg_MaxMessageBytes :: int
  cfg_MaxPeersPerIP :: int
  cfg_PeerRateLimit :: int
  cfg_PeerRateWindow :: int
  cfg_BanScore :: int
  cfg_BanDuration :: int

type_synonym conn = nat

record peerStats =
  st_WindowStart :: int
  st_Messages :: int

text \<open>\<open>n.stats\<close> of an absent key is the zero value, whose window start \<open>IsZero\<close>.\<close>

record Node =
  n_cfg :: Config
  n_peers :: "(string \<times> conn) list"
  n_scores :: "string \<Rightarrow> int"
  n_banned :: "string \<Rightarrow> int option"
  n_stats :: "string \<Rightarrow> peerStats option"

datatype effect = Written conn "byte list" | Closed conn | Reading conn

record net_env =
  env_Write :: "conn \<Rightarrow> byte list \<Rightarrow> error option"
  env_Dial :: "string \<Rightarrow> error + conn"
  env_RemoteAddr :: "conn \<Rightarrow> string"

record message_json =
  mj_Marshal :: "Message \<Rightarrow> byte list"
  mj_Unmarshal :: "byte list \<Rightarrow> error + Message"

section \<open>Hardening\<close>

definition knownMessageTypes :: "string list" where
  "knownMessageTypes = [''version'', ''verack'', ''ping'', ''pong'', ''inv'', ''getdata'', ''tx'', ''block'',
     ''headers'', ''getheaders'', ''mempool'', ''reject'']"

definition validateMessage :: "Message \<Rightarrow> error option" where
  "validateMessage msg = (if msg_Type msg \<notin> set knownMessageTypes then Some ErrUnknownMessageType else None)"

text \<open>\<open>net.SplitHostPort\<close>: host and port, or nothing where it reports an error.\<close>

definition SplitHostPort :: "string \<Rightarrow> (string \<times> string) option" where
  "SplitHostPort hp =
     (case LastIndexByte hp (CHR '':'') of
        None \<Rightarrow> None
      | Some i \<Rightarrow>
          if hd hp = CHR ''['' then
            case IndexByte hp (CHR '']'') of
              None \<Rightarrow> None
            | Some e \<Rightarrow>
                if e + 1 \<noteq> i then None
                else if CHR ''['' \<in> set (drop 1 hp) \<or> CHR '']'' \<in> set (drop (e + 1) hp) then None
                else Some (drop 1 (take e hp), drop (i + 1) hp)
          else if CHR '':'' \<in> set (take i hp) \<or> CHR ''['' \<in> set hp \<or> CHR '']'' \<in> set hp then None
          else Some (take i hp, drop (i + 1) hp))"

definition peerHost :: "string \<Rightarrow> string" where
  "peerHost pid = (case SplitHostPort pid of Some (host, port) \<Rightarrow> host | None \<Rightarrow> pid)"

section \<open>The node\<close>

definition MaxMessageBytes :: int where
  "MaxMessageBytes = 4 * 1024 * 1024"

definition DefaultPeerRateLimit :: int where
  "DefaultPeerRateLimit = 120"

definition DefaultPeerRateWindow :: int where
  "DefaultPeerRateWindow = 60 * 10 ^ 9"

definition DefaultBanScore :: int where
  "DefaultBanScore = - 100"

definition DefaultBanDuration :: int where
  "DefaultBanDuration = 3600 * 10 ^ 9"

definition NewNode :: "Config \<Rightarrow> Node" where
  "NewNode cfg =
     (let cfg = (if cfg_MaxPeers cfg \<le> 0 then cfg\<lparr>cfg_MaxPeers := 32\<rparr> else cfg);
          cfg = (if cfg_MaxMessageBytes cfg \<le> 0 then cfg\<lparr>cfg_MaxMessageBytes := MaxMessageBytes\<rparr> else cfg);
          cfg = (if cfg_PeerRateLimit cfg \<le> 0 then cfg\<lparr>cfg_PeerRateLimit := DefaultPeerRateLimit\<rparr> else cfg);
          cfg = (if cfg_PeerRateWindow cfg \<le> 0 then cfg\<lparr>cfg_PeerRateWindow := DefaultPeerRateWindow\<rparr> else cfg);
          cfg = (if cfg_BanScore cfg = 0 then cfg\<lparr>cfg_BanScore := DefaultBanScore\<rparr> else cfg);
          cfg = (if cfg_BanDuration cfg \<le> 0 then cfg\<lparr>cfg_BanDuration := DefaultBanDuration\<rparr> else cfg)
      in \<lparr>n_cfg = cfg, n_peers = [], n_scores = (\<lambda>_. 0), n_banned = (\<lambda>_. None), n_stats = (\<lambda>_. None)\<rparr>)"

definition PeerCount :: "Node \<Rightarrow> int" where
  "PeerCount n = int (length (n_peers n))"

definition IsBanned :: "int \<Rightarrow> Node \<Rightarrow> string \<Rightarrow> bool" where
  "IsBanned now n peer = (case n_banned n peer of None \<Rightarrow> False | Some until \<Rightarrow> now < until)"

definition Score :: "Node \<Rightarrow> string \<Rightarrow> int" where
  "Score n peer = n_scores n peer"

definition host_count :: "Node \<Rightarrow> string \<Rightarrow> nat" where
  "host_count n host = length (filter (\<lambda>(peer, _). peerHost peer = host) (n_peers n))"

definition addPeer :: "int \<Rightarrow> Node \<Rightarrow> string \<Rightarrow> conn \<Rightarrow> Node \<times> bool" where
  "addPeer now n pid c =
     (if IsBanned now n pid then (n, False)
      else if PeerCount n \<ge> cfg_MaxPeers (n_cfg n) then (n, False)
      else if cfg_MaxPeersPerIP (n_cfg n) > 0
              \<and> int (host_count n (peerHost pid)) \<ge> cfg_MaxPeersPerIP (n_cfg n) then (n, False)
      else (n\<lparr>n_peers := AList.update pid c (n_peers n)\<rparr>, True))"

definition close_peer :: "Node \<Rightarrow> string \<Rightarrow> effect list" where
  "close_peer n pid = (case map_of (n_peers n) pid of None \<Rightarrow> [] | Some c \<Rightarrow> [Closed c])"

definition removePeer :: "Node \<Rightarrow> string \<Rightarrow> Node \<times> effect list" where
  "removePeer n pid = (n\<lparr>n_peers := AList.delete pid (n_peers n)\<rparr>, close_peer n pid)"

definition ReportPeer :: "int \<Rightarrow> Node \<Rightarrow> string \<Rightarrow> int \<Rightarrow> Node \<times> effect list" where
  "ReportPeer now n peer delta =
     (let score = n_scores n peer + delta;
          n1 = n\<lparr>n_scores := (n_scores n)(peer := score)\<rparr>
      in if score \<le> cfg_BanScore (n_cfg n) then
           (n1\<lparr>n_banned := (n_banned n)(peer \<mapsto> now + cfg_BanDuration (n_cfg n)),
               n_peers := AList.delete peer (n_peers n)\<rparr>, close_peer n peer)
         else (n1, []))"

definition allowPeerMessage :: "Node \<Rightarrow> string \<Rightarrow> int \<Rightarrow> Node \<times> bool" where
  "allowPeerMessage n pid now =
     (let st = (case n_stats n pid of
                  None \<Rightarrow> \<lparr>st_WindowStart = now, st_Messages = 0\<rparr>
                | Some st \<Rightarrow>
                    if now - st_WindowStart st \<ge> cfg_PeerRateWindow (n_cfg n)
                    then \<lparr>st_WindowStart = now, st_Messages = 0\<rparr> else st);
          st = st\<lparr>st_Messages := st_Messages st + 1\<rparr>
      in (n\<lparr>n_stats := (n_stats n)(pid \<mapsto> st)\<rparr>, st_Messages st \<le> cfg_PeerRateLimit (n_cfg n)))"

section \<open>Framing\<close>

definition write_frame :: "net_env \<Rightarrow> conn \<Rightarrow> byte list \<Rightarrow> effect list \<times> error option" where
  "write_frame env c payload =
     (let header = rev (PutUint32 (of_nat (length payload)))
      in case env_Write env c header of
           Some e \<Rightarrow> ([], Some e)
         | None \<Rightarrow>
             case env_Write env c payload of
               Some e \<Rightarrow> ([Written c header], Some e)
             | None \<Rightarrow> ([Written c header, Written c payload], None))"

definition writeMessage :: "net_env \<Rightarrow> message_json \<Rightarrow> conn \<Rightarrow> Message \<Rightarrow> effect list \<times> error option" where
  "writeMessage env J c msg =
     (let payload = mj_Marshal J msg
      in if int (length payload) > MaxMessageBytes then ([], Some (ErrText ''message too large''))
         else write_frame env c payload)"

definition readMessageLimit :: "message_json \<Rightarrow> byte list \<Rightarrow> int \<Rightarrow> error + (Message \<times> byte list)" where
  "readMessageLimit J stream maxBytes =
     and_then (ReadFull 4 stream) (\<lambda>header r.
       let size = of_nat (le_val (rev header)) :: u32;
           maxBytes = (if maxBytes \<le> 0 then MaxMessageBytes else maxBytes)
       in if size = 0 \<or> size > of_int maxBytes then Inl (ErrText ''invalid message size'')
          else and_then (ReadFull (unat size) r) (\<lambda>payload r'.
            case mj_Unmarshal J payload of
              Inl e \<Rightarrow> Inl e
            | Inr msg \<Rightarrow>
                case validateMessage msg of Some e \<Rightarrow> Inl e | None \<Rightarrow> Inr (msg, r')))"

definition readMessage :: "message_json \<Rightarrow> byte list \<Rightarrow> error + (Message \<times> byte list)" where
  "readMessage J stream =
     and_then (ReadFull 4 stream) (\<lambda>header r.
       let size = of_nat (le_val (rev header)) :: u32
       in if size = 0 \<or> size > of_int MaxMessageBytes then Inl (ErrText ''invalid message size'')
          else and_then (ReadFull (unat size) r) (\<lambda>payload r'.
            case mj_Unmarshal J payload of
              Inl e \<Rightarrow> Inl e
            | Inr msg \<Rightarrow>
                case validateMessage msg of Some e \<Rightarrow> Inl e | None \<Rightarrow> Inr (msg, r')))"

definition readPeerMessage ::
  "message_json \<Rightarrow> int \<Rightarrow> Node \<Rightarrow> string \<Rightarrow> byte list \<Rightarrow> Node \<times> (error + (Message \<times> byte list))" where
  "readPeerMessage J now n pid stream =
     (case allowPeerMessage n pid now of
        (n, False) \<Rightarrow> (n, Inl ErrPeerRateLimited)
      | (n, True) \<Rightarrow>
          (n, case readMessageLimit J stream (cfg_MaxMessageBytes (n_cfg n)) of
                Inl e \<Rightarrow> Inl e
              | Inr (msg, r) \<Rightarrow>
                  case validateMessage msg of Some e \<Rightarrow> Inl e | None \<Rightarrow> Inr (msg, r)))"

text \<open>
  The handler of a node works on the node and on a state of its own and may not return. The loop over
  the rest of a connection's bytes; \<open>clock\<close> gives the time by the bytes still to come.
\<close>

type_synonym 's handler = "PeerInfo \<Rightarrow> Message \<Rightarrow> Node \<Rightarrow> 's \<Rightarrow> (Node \<times> 's \<times> effect list \<times> error option) option"

definition handle_message ::
  "'s handler option \<Rightarrow> int \<Rightarrow> string \<Rightarrow> Message \<Rightarrow> Node \<Rightarrow> 's \<Rightarrow> (Node \<times> 's \<times> effect list) option" where
  "handle_message handler now pid msg n s =
     (case handler of
        None \<Rightarrow> Some (n, s, [])
      | Some f \<Rightarrow>
          case f \<lparr>pi_ID = pid, pi_Address = pid, pi_LastSeen = now\<rparr> msg n s of
            None \<Rightarrow> None
          | Some (n, s, w, None) \<Rightarrow> Some (n, s, w)
          | Some (n, s, w, Some e) \<Rightarrow> (case ReportPeer now n pid (- 10) of (n, w') \<Rightarrow> Some (n, s, w @ w')))"

function readLoop ::
  "message_json \<Rightarrow> 's handler option \<Rightarrow> (nat \<Rightarrow> int) \<Rightarrow> string \<Rightarrow> Node \<Rightarrow> 's \<Rightarrow> byte list
     \<Rightarrow> (Node \<times> 's \<times> effect list) option" where
  "readLoop J handler clock pid n s stream =
     (let now = clock (length stream) in
      case readPeerMessage J now n pid stream of
        (n, Inl e) \<Rightarrow>
          (case ReportPeer now n pid (- 25) of
             (n, w) \<Rightarrow> case removePeer n pid of (n, w') \<Rightarrow> Some (n, s, w @ w'))
      | (n, Inr (msg, rest)) \<Rightarrow>
          case handle_message handler now pid msg n s of
            None \<Rightarrow> None
          | Some (n, s, w) \<Rightarrow>
              map_option (\<lambda>(n, s, w'). (n, s, w @ w')) (readLoop J handler clock pid n s rest))"
  by pat_completeness auto

lemma readMessageLimit_shorter: "readMessageLimit J stream k = Inr (msg, rest) \<Longrightarrow> length rest < length stream"
  by (cases "4 \<le> length stream"; cases "stream = []")
    (auto simp: readMessageLimit_def ReadFull_def Let_def split: if_splits sum.splits option.splits)

lemma readPeerMessage_shorter:
  "readPeerMessage J now n pid stream = (n', Inr (msg, rest)) \<Longrightarrow> length rest < length stream"
  by (auto simp: readPeerMessage_def dest: readMessageLimit_shorter
      split: prod.splits bool.splits sum.splits option.splits)

termination readLoop
  by (relation "measure (\<lambda>(J, handler, clock, pid, n, s, stream). length stream)")
    (auto dest: sym [THEN readPeerMessage_shorter])

declare readLoop.simps [simp del]

section \<open>Sending and connecting\<close>

definition Send :: "net_env \<Rightarrow> message_json \<Rightarrow> Node \<Rightarrow> string \<Rightarrow> Message \<Rightarrow> effect list \<times> error option" where
  "Send env J n peer msg =
     (case map_of (n_peers n) peer of
        None \<Rightarrow> ([], Some (ErrText (''peer not connected: '' @ peer)))
      | Some c \<Rightarrow> writeMessage env J c msg)"

text \<open>The identifiers in the order in which Go happens to visit the map.\<close>

definition peer_ids :: "(string \<Rightarrow> nat) \<Rightarrow> Node \<Rightarrow> string list" where
  "peer_ids rank n = sort_key rank (map fst (n_peers n))"

definition Broadcast :: "net_env \<Rightarrow> message_json \<Rightarrow> (string \<Rightarrow> nat) \<Rightarrow> Node \<Rightarrow> Message \<Rightarrow> effect list" where
  "Broadcast env J rank n msg = concat (map (\<lambda>peer. fst (Send env J n peer msg)) (peer_ids rank n))"

definition BroadcastExcept ::
  "net_env \<Rightarrow> message_json \<Rightarrow> (string \<Rightarrow> nat) \<Rightarrow> Node \<Rightarrow> Message \<Rightarrow> string \<Rightarrow> effect list" where
  "BroadcastExcept env J rank n msg excludeID =
     concat (map (\<lambda>peer. fst (Send env J n peer msg)) (filter (\<lambda>pid. pid \<noteq> excludeID) (peer_ids rank n)))"

text \<open>One round of the loop of \<open>Listen\<close> after \<open>Accept\<close> has returned a connection.\<close>

definition listen_accept :: "net_env \<Rightarrow> int \<Rightarrow> Node \<Rightarrow> conn \<Rightarrow> Node \<times> effect list" where
  "listen_accept env now n c =
     (case addPeer now n (env_RemoteAddr env c) c of
        (n, False) \<Rightarrow> (n, [Closed c])
      | (n, True) \<Rightarrow> (n, [Reading c]))"

definition Connect ::
  "net_env \<Rightarrow> message_json \<Rightarrow> int \<Rightarrow> Node \<Rightarrow> string \<Rightarrow> Node \<times> effect list \<times> error option" where
  "Connect env J now n address =
     (if IsBanned now n address then (n, [], Some (ErrText ''peer is banned''))
      else case env_Dial env address of
        Inl e \<Rightarrow> (n, [], Some e)
      | Inr c \<Rightarrow>
          case addPeer now n address c of
            (n, False) \<Rightarrow> (n, [Closed c], Some (ErrText ''peer limit reached''))
          | (n, True) \<Rightarrow>
              case Send env J n address \<lparr>msg_Type = ''version'', msg_Payload = string_bytes (cfg_NetworkID (n_cfg n))\<rparr> of
                (w, e) \<Rightarrow> (n, Reading c # w, e))"

section \<open>Discovery\<close>

definition getaddr :: Message where
  "getaddr = \<lparr>msg_Type = ''getaddr'', msg_Payload = []\<rparr>"

definition MainnetSeeds :: "string list" where
  "MainnetSeeds = [''seed1.nevel.network:8333'', ''seed2.nevel.network:8333'', ''seed3.nevel.network:8333'']"

definition TestnetSeeds :: "string list" where
  "TestnetSeeds = [''seed1.testnet.nevel.network:18333'', ''seed2.testnet.nevel.network:18333'']"

text \<open>
  The loop of \<open>Bootstrap\<close> over the seeds; \<open>ctx_Err\<close> tells, by the number of seeds still to come, whether
  the context is cancelled.
\<close>

fun bootstrap_loop ::
  "net_env \<Rightarrow> message_json \<Rightarrow> int \<Rightarrow> (nat \<Rightarrow> bool) \<Rightarrow> Node \<Rightarrow> string list \<Rightarrow> Node \<times> effect list" where
  "bootstrap_loop env J now ctx_Err n [] = (n, [])"
| "bootstrap_loop env J now ctx_Err n (seed # seeds) =
     (if ctx_Err (length seeds) then (n, [])
      else case Connect env J now n seed of
        (n, w, Some e) \<Rightarrow> (case bootstrap_loop env J now ctx_Err n seeds of (n, w') \<Rightarrow> (n, w @ w'))
      | (n, w, None) \<Rightarrow>
          case bootstrap_loop env J now ctx_Err n seeds of
            (n', w') \<Rightarrow> (n', w @ fst (Send env J n seed getaddr) @ w'))"

definition Bootstrap :: "net_env \<Rightarrow> message_json \<Rightarrow> int \<Rightarrow> (nat \<Rightarrow> bool) \<Rightarrow> Node \<Rightarrow> Node \<times> effect list" where
  "Bootstrap env J now ctx_Err n = bootstrap_loop env J now ctx_Err n (cfg_Seeds (n_cfg n))"

text \<open>One tick of \<open>PeriodicDiscovery\<close>.\<close>

definition discovery_tick :: "net_env \<Rightarrow> message_json \<Rightarrow> (string \<Rightarrow> nat) \<Rightarrow> Node \<Rightarrow> effect list" where
  "discovery_tick env J rank n = Broadcast env J rank n getaddr"

fun connect_addrs ::
  "net_env \<Rightarrow> message_json \<Rightarrow> int \<Rightarrow> Node \<Rightarrow> string list \<Rightarrow> Node \<times> effect list" where
  "connect_addrs env J now n [] = (n, [])"
| "connect_addrs env J now n (addr # addrs) =
     (if PeerCount n \<ge> cfg_MaxPeers (n_cfg n) then (n, [])
      else if map_of (n_peers n) addr \<noteq> None then connect_addrs env J now n addrs
      else case Connect env J now n addr of
        (n, w, e) \<Rightarrow> (case connect_addrs env J now n addrs of (n, w') \<Rightarrow> (n, w @ w')))"

text \<open>\<open>addrs\<close> is the decoded payload.\<close>

definition HandleAddrMessage ::
  "net_env \<Rightarrow> message_json \<Rightarrow> int \<Rightarrow> Node \<Rightarrow> error + string list \<Rightarrow> Node \<times> effect list" where
  "HandleAddrMessage env J now n addrs =
     (case addrs of Inl e \<Rightarrow> (n, []) | Inr addrs \<Rightarrow> connect_addrs env J now n addrs)"


section \<open>Interleavings\<close>

text \<open>
  What the goroutines do to the node, in the order in which they take its mutex; \<open>Allow\<close> is the call of
  \<open>allowPeerMessage\<close> by a peer's read loop.
\<close>

datatype event = Add int string conn | Remove string | Report int string int | Allow string int

fun exec :: "Node \<Rightarrow> event \<Rightarrow> Node \<times> bool" where
  "exec n (Add now pid c) = addPeer now n pid c"
| "exec n (Remove pid) = (fst (removePeer n pid), True)"
| "exec n (Report now pid delta) = (fst (ReportPeer now n pid delta), True)"
| "exec n (Allow pid now) = allowPeerMessage n pid now"

fun node_after :: "Node \<Rightarrow> event list \<Rightarrow> Node" where
  "node_after n [] = n"
| "node_after n (e # es) = node_after (fst (exec n e)) es"

text \<open>When \<open>pid\<close>'s messages come, and how many of them are let through.\<close>

fun message_times :: "string \<Rightarrow> event list \<Rightarrow> int list" where
  "message_times pid [] = []"
| "message_times pid (Allow p now # es) = (if p = pid then now # message_times pid es else message_times pid es)"
| "message_times pid (_ # es) = message_times pid es"

fun let_through :: "Node \<Rightarrow> string \<Rightarrow> event list \<Rightarrow> nat" where
  "let_through n pid [] = 0"
| "let_through n pid (e # es) =
     (case e of Allow p now \<Rightarrow> if p = pid \<and> snd (exec n e) then 1 else 0 | _ \<Rightarrow> 0)
       + let_through (fst (exec n e)) pid es"

definition limits :: "Node \<Rightarrow> bool" where
  "limits n \<longleftrightarrow> distinct (map fst (n_peers n)) \<and> PeerCount n \<le> cfg_MaxPeers (n_cfg n)
     \<and> (cfg_MaxPeersPerIP (n_cfg n) > 0 \<longrightarrow> (\<forall>host. int (host_count n host) \<le> cfg_MaxPeersPerIP (n_cfg n)))
     \<and> (\<forall>pid st. n_stats n pid = Some st \<longrightarrow> 1 \<le> st_Messages st)"

section \<open>Lemmas\<close>

lemma addPeer_cfg [simp]: "n_cfg (fst (addPeer now n pid c)) = n_cfg n"
  and addPeer_stats [simp]: "n_stats (fst (addPeer now n pid c)) = n_stats n"
  by (simp_all add: addPeer_def)

lemma removePeer_cfg [simp]: "n_cfg (fst (removePeer n pid)) = n_cfg n"
  and removePeer_stats [simp]: "n_stats (fst (removePeer n pid)) = n_stats n"
  by (simp_all add: removePeer_def)

lemma ReportPeer_cfg [simp]: "n_cfg (fst (ReportPeer now n pid delta)) = n_cfg n"
  and ReportPeer_stats [simp]: "n_stats (fst (ReportPeer now n pid delta)) = n_stats n"
  by (simp_all add: ReportPeer_def Let_def)

lemma allowPeerMessage_cfg [simp]: "n_cfg (fst (allowPeerMessage n pid now)) = n_cfg n"
  and allowPeerMessage_peers [simp]: "n_peers (fst (allowPeerMessage n pid now)) = n_peers n"
  by (simp_all add: allowPeerMessage_def Let_def)

lemma exec_cfg [simp]: "n_cfg (fst (exec n e)) = n_cfg n"
  by (cases e) simp_all

lemma node_after_cfg [simp]: "n_cfg (node_after n es) = n_cfg n"
  by (induction es arbitrary: n) simp_all

lemma length_filter_update:
  "length (filter (\<lambda>(k, _). P k) (AList.update k v xs)) \<le> length (filter (\<lambda>(k, _). P k) xs) + (if P k then 1 else 0)"
  by (induction xs) auto

lemma length_filter_delete:
  "length (filter (\<lambda>(k, _). P k) (AList.delete k xs)) \<le> length (filter (\<lambda>(k, _). P k) xs)"
  by (induction xs) auto

lemma limits_delete: "limits n \<Longrightarrow> limits (n\<lparr>n_peers := AList.delete pid (n_peers n)\<rparr>)"
  using length_filter_delete [where P = "\<lambda>_. True" and k = pid and xs = "n_peers n"]
  by (auto simp: limits_def PeerCount_def host_count_def distinct_delete
      intro: order_trans [OF of_nat_mono [OF length_filter_delete]])

lemma limits_add: "limits n \<Longrightarrow> limits (fst (addPeer now n pid c))"
proof (cases "snd (addPeer now n pid c)")
  case True
  let ?n = "n\<lparr>n_peers := AList.update pid c (n_peers n)\<rparr>"
  assume l: "limits n"
  have n: "fst (addPeer now n pid c) = ?n" "PeerCount n < cfg_MaxPeers (n_cfg n)"
    "cfg_MaxPeersPerIP (n_cfg n) > 0 \<Longrightarrow> int (host_count n (peerHost pid)) < cfg_MaxPeersPerIP (n_cfg n)"
    using True by (auto simp: addPeer_def split: if_splits)
  have "PeerCount ?n \<le> cfg_MaxPeers (n_cfg n)"
    using n(2) length_filter_update [where P = "\<lambda>_. True" and k = pid and v = c and xs = "n_peers n"]
    by (simp add: PeerCount_def)
  moreover have "int (host_count ?n host) \<le> cfg_MaxPeersPerIP (n_cfg n)" if "cfg_MaxPeersPerIP (n_cfg n) > 0" for host
  proof -
    have "host_count ?n host \<le> host_count n host + (if peerHost pid = host then 1 else 0)"
      using length_filter_update [where P = "\<lambda>p. peerHost p = host" and k = pid and v = c and xs = "n_peers n"]
      by (simp add: host_count_def)
    moreover have "int (host_count n host) \<le> cfg_MaxPeersPerIP (n_cfg n)"
      using l that by (simp add: limits_def)
    ultimately show ?thesis using n(3) [OF that] by (auto split: if_splits)
  qed
  ultimately show ?thesis using l by (simp add: n(1) limits_def distinct_update)
qed (auto simp: addPeer_def split: if_splits)

lemma limits_report: "limits n \<Longrightarrow> limits (fst (ReportPeer now n pid delta))"
  using limits_delete [of n pid] by (auto simp: ReportPeer_def Let_def limits_def PeerCount_def host_count_def)

lemma limits_allow: "limits n \<Longrightarrow> limits (fst (allowPeerMessage n pid now))"
  by (force simp: allowPeerMessage_def Let_def limits_def PeerCount_def host_count_def split: option.splits)

lemma limits_exec: "limits n \<Longrightarrow> limits (fst (exec n e))"
  by (cases e) (simp_all add: limits_add limits_report limits_allow limits_delete removePeer_def)

lemma limits_after: "limits n \<Longrightarrow> limits (node_after n es)"
  by (induction es arbitrary: n) (simp_all add: limits_exec)

lemma limits_New: "limits (NewNode cfg)"
  by (auto simp: limits_def NewNode_def Let_def PeerCount_def host_count_def)

lemma NewNode_positive:
  "0 < cfg_MaxPeers (n_cfg (NewNode cfg))" "0 < cfg_PeerRateLimit (n_cfg (NewNode cfg))"
  "0 < cfg_PeerRateWindow (n_cfg (NewNode cfg))" "0 < cfg_MaxMessageBytes (n_cfg (NewNode cfg))"
  by (auto simp: NewNode_def Let_def DefaultPeerRateLimit_def DefaultPeerRateWindow_def MaxMessageBytes_def)

text \<open>The rate limit only looks at the times of the peer's messages.\<close>

definition next_stat :: "int \<Rightarrow> peerStats option \<Rightarrow> int \<Rightarrow> peerStats" where
  "next_stat window st now =
     (case st of
        None \<Rightarrow> \<lparr>st_WindowStart = now, st_Messages = 1\<rparr>
      | Some st \<Rightarrow>
          if now - st_WindowStart st \<ge> window then \<lparr>st_WindowStart = now, st_Messages = 1\<rparr>
          else st\<lparr>st_Messages := st_Messages st + 1\<rparr>)"

fun passing :: "int \<Rightarrow> int \<Rightarrow> peerStats option \<Rightarrow> int list \<Rightarrow> nat" where
  "passing limit window st [] = 0"
| "passing limit window st (t # ts) =
     (if st_Messages (next_stat window st t) \<le> limit then 1 else 0)
       + passing limit window (Some (next_stat window st t)) ts"

lemma allowPeerMessage_next:
  "allowPeerMessage n pid now =
     (n\<lparr>n_stats := (n_stats n)(pid \<mapsto> next_stat (cfg_PeerRateWindow (n_cfg n)) (n_stats n pid) now)\<rparr>,
      st_Messages (next_stat (cfg_PeerRateWindow (n_cfg n)) (n_stats n pid) now) \<le> cfg_PeerRateLimit (n_cfg n))"
  by (auto simp: allowPeerMessage_def next_stat_def Let_def split: option.splits)

lemma let_through_passing:
  "let_through n pid es
     = passing (cfg_PeerRateLimit (n_cfg n)) (cfg_PeerRateWindow (n_cfg n)) (n_stats n pid) (message_times pid es)"
proof (induction es arbitrary: n)
  case (Cons e es)
  then show ?case by (cases e) (simp_all add: allowPeerMessage_next)
qed simp

lemma passing_window:
  assumes "\<forall>t\<in>set ts. t < st_WindowStart st + window"
  shows "passing limit window (Some st) ts \<le> nat (limit - st_Messages st)"
  using assms
proof (induction ts arbitrary: st)
  case (Cons t ts)
  then show ?case using Cons.IH [of "st\<lparr>st_Messages := st_Messages st + 1\<rparr>"] by (auto simp: next_stat_def)
qed simp

lemma passing_span:
  assumes "\<forall>t\<in>set ts. lo \<le> t \<and> t < lo + window"
  shows "passing limit window None ts \<le> nat limit"
    and "passing limit window (Some st) ts \<le> nat (limit - st_Messages st) + nat limit"
proof -
  have reset: "(if 1 \<le> limit then 1 else 0) + passing limit window (Some \<lparr>st_WindowStart = t, st_Messages = 1\<rparr>) ts \<le> nat limit"
    if "\<forall>u\<in>set ts. u < t + window" for t ts
    using passing_window [of ts "\<lparr>st_WindowStart = t, st_Messages = 1\<rparr>" window limit] that by auto
  have later: "\<forall>u\<in>set ts'. u < t + window" if "t # ts' = ts" for t ts'
    using that assms by fastforce
  show "passing limit window None ts \<le> nat limit"
    using reset later by (cases ts) (simp_all add: next_stat_def)
  show "passing limit window (Some st) ts \<le> nat (limit - st_Messages st) + nat limit"
    using assms
  proof (induction ts arbitrary: st)
    case (Cons t ts)
    then have "\<forall>u\<in>set ts. u < t + window" by fastforce
    then show ?case
      using Cons.IH [of "st\<lparr>st_Messages := st_Messages st + 1\<rparr>"] Cons.prems reset [of ts t]
      by (auto simp: next_stat_def)
  qed simp
qed

section \<open>Properties\<close>

text \<open>
  C27. Whatever the goroutines do and in whatever order, a node never holds more connections than
  \<open>MaxPeers\<close>, and, where a limit per host is set, never more of one host than \<open>MaxPeersPerIP\<close>.
\<close>

theorem peers_bounded:
  "PeerCount (node_after (NewNode cfg) events) \<le> cfg_MaxPeers (n_cfg (NewNode cfg))
   \<and> (cfg_MaxPeersPerIP cfg > 0 \<longrightarrow> int (host_count (node_after (NewNode cfg) events) host) \<le> cfg_MaxPeersPerIP cfg)"
proof -
  have "limits (node_after (NewNode cfg) events)" by (rule limits_after [OF limits_New])
  moreover have "cfg_MaxPeersPerIP (n_cfg (NewNode cfg)) = cfg_MaxPeersPerIP cfg" by (simp add: NewNode_def Let_def)
  ultimately show ?thesis by (simp add: limits_def)
qed

definition demo_cfg :: Config where
  "demo_cfg = \<lparr>cfg_NetworkID = ''nevel'', cfg_ListenAddrs = [], cfg_Seeds = MainnetSeeds, cfg_MaxPeers = 2,
     cfg_MaxMessageBytes = 0, cfg_MaxPeersPerIP = 1, cfg_PeerRateLimit = 2, cfg_PeerRateWindow = 100,
     cfg_BanScore = 0, cfg_BanDuration = 0\<rparr>"

theorem peers_bounded_witness:
  "cfg_MaxPeersPerIP demo_cfg > 0
   \<and> int (host_count (node_after (NewNode demo_cfg) [Add 0 ''10.0.0.1:1'' 1, Add 0 ''10.0.0.1:2'' 2]) ''10.0.0.1'') \<le> 1"
  using peers_bounded [of demo_cfg "[Add 0 ''10.0.0.1:1'' 1, Add 0 ''10.0.0.1:2'' 2]" "''10.0.0.1''"]
  by (simp add: demo_cfg_def)

text \<open>
  C28. The rate limit holds over any interleaving: in any stretch of events in which a peer's messages
  fall within one window's length of time, fewer than twice \<open>PeerRateLimit\<close> of them are let through (a
  window opens with its first message, so a burst can straddle two of them), and at most
  \<open>PeerRateLimit\<close> where the stretch begins with the peer's first message.
\<close>

theorem rate_bounded:
  assumes "n = node_after (NewNode cfg) before"
    and "\<forall>t\<in>set (message_times pid events). lo \<le> t \<and> t < lo + cfg_PeerRateWindow (n_cfg n)"
  shows "int (let_through n pid events) < 2 * cfg_PeerRateLimit (n_cfg n)
     \<and> (n_stats n pid = None \<longrightarrow> int (let_through n pid events) \<le> cfg_PeerRateLimit (n_cfg n))"
proof (cases "n_stats n pid")
  case None
  then show ?thesis
    using passing_span(1) [OF assms(2), of "cfg_PeerRateLimit (n_cfg n)"] NewNode_positive(2) [of cfg] assms(1)
    by (auto simp: let_through_passing le_nat_iff)
next
  case (Some st)
  have "limits n" unfolding assms(1) by (rule limits_after [OF limits_New])
  then have "1 \<le> st_Messages st" using Some by (simp add: limits_def)
  then show ?thesis
    using passing_span(2) [OF assms(2), of "cfg_PeerRateLimit (n_cfg n)" st] NewNode_positive(2) [of cfg] assms(1) Some
    by (auto simp: let_through_passing)
qed

text \<open>The bound is tight: three messages pass where the limit is two.\<close>

theorem rate_bounded_witness:
  "let n = node_after (NewNode demo_cfg) [Allow ''p'' 0, Report 3 ''p'' (- 1)]
   in int (let_through n ''p'' [Allow ''p'' 99, Add 99 ''q'' 1, Allow ''p'' 100, Allow ''p'' 101, Allow ''p'' 102]) = 3
     \<and> int (let_through n ''p'' [Allow ''p'' 99, Add 99 ''q'' 1, Allow ''p'' 100, Allow ''p'' 101, Allow ''p'' 102])
         < 2 * cfg_PeerRateLimit (n_cfg n)"
  using rate_bounded [of "node_after (NewNode demo_cfg) [Allow ''p'' 0, Report 3 ''p'' (- 1)]" demo_cfg
      "[Allow ''p'' 0, Report 3 ''p'' (- 1)]" "''p''"
      "[Allow ''p'' 99, Add 99 ''q'' 1, Allow ''p'' 100, Allow ''p'' 101, Allow ''p'' 102]" 99]
  by (simp add: demo_cfg_def NewNode_def Let_def let_through_passing allowPeerMessage_next next_stat_def)


section \<open>Lemmas: frames and read loops\<close>

fun written :: "conn \<Rightarrow> effect list \<Rightarrow> byte list" where
  "written c [] = []"
| "written c (Written d bs # w) = (if d = c then bs else []) @ written c w"
| "written c (_ # w) = written c w"

lemma writeMessage_None:
  assumes "writeMessage env J c msg = (w, None)"
  shows "written c w = rev (PutUint32 (of_nat (length (mj_Marshal J msg)))) @ mj_Marshal J msg"
    and "int (length (mj_Marshal J msg)) \<le> MaxMessageBytes"
  using assms by (auto simp: writeMessage_def write_frame_def Let_def split: if_splits option.splits)

lemma read_frame:
  assumes "p \<noteq> []" and "int (length p) \<le> maxBytes" and "maxBytes < 2 ^ 32" and "mj_Unmarshal J p = Inr msg"
  shows "readMessageLimit J (rev (PutUint32 (of_nat (length p))) @ p @ rest) maxBytes
     = (case validateMessage msg of Some e \<Rightarrow> Inl e | None \<Rightarrow> Inr (msg, rest))"
proof -
  let ?l = "of_nat (length p) :: u32"
  have p: "0 < length p" "length p < 2 ^ 32" using assms(1-3) by auto
  then have u: "unat ?l = length p" by (simp add: unat_of_nat take_bit_nat_eq_self)
  then have "?l \<noteq> 0" using p(1) by (metis unat_0 less_irrefl)
  moreover have m: "0 < maxBytes" using assms(1,2) p(1) by linarith
  then have "unat (of_int maxBytes :: u32) = nat maxBytes"
    using assms(3) by (simp add: unsigned_of_int take_bit_int_eq_self)
  then have "\<not> of_int maxBytes < ?l" using u assms(2) by (simp add: word_less_nat_alt)
  moreover have "of_nat (le_val (PutUint32 ?l)) = ?l" by (simp add: PutUint32_def of_nat_le_val_le_bytes)
  moreover have "length (rev (PutUint32 ?l)) = 4" by (simp add: PutUint32_def)
  ultimately show ?thesis
    using u m assms(4) by (simp add: readMessageLimit_def Let_def)
qed

lemma ReportPeer_other:
  "peer \<noteq> pid \<Longrightarrow> map_of (n_peers (fst (ReportPeer now n pid delta))) peer = map_of (n_peers n) peer"
  by (simp add: ReportPeer_def Let_def delete_conv)

lemma removePeer_other:
  "peer \<noteq> pid \<Longrightarrow> map_of (n_peers (fst (removePeer n pid))) peer = map_of (n_peers n) peer"
  by (simp add: removePeer_def delete_conv)

lemma removePeer_self: "map_of (n_peers (fst (removePeer n pid))) pid = None"
  by (simp add: removePeer_def delete_conv)

lemma readPeerMessage_peers: "readPeerMessage J now n pid stream = (n', r) \<Longrightarrow> n_peers n' = n_peers n"
  using allowPeerMessage_peers [of n pid now]
  by (cases "allowPeerMessage n pid now") (auto simp: readPeerMessage_def split: bool.splits)

definition keeps_slot :: "string \<Rightarrow> 's handler option \<Rightarrow> bool" where
  "keeps_slot peer handler \<longleftrightarrow>
     (\<forall>f info msg n s n' s' w e. handler = Some f \<longrightarrow> f info msg n s = Some (n', s', w, e)
        \<longrightarrow> map_of (n_peers n') peer = map_of (n_peers n) peer)"

lemma handle_message_other:
  assumes "handle_message handler now pid msg n s = Some (n', s', w)" and "peer \<noteq> pid" and "keeps_slot peer handler"
  shows "map_of (n_peers n') peer = map_of (n_peers n) peer"
proof (cases handler)
  case None
  then show ?thesis using assms(1) by (simp add: handle_message_def)
next
  case (Some f)
  then obtain n1 s1 w1 e where f: "f \<lparr>pi_ID = pid, pi_Address = pid, pi_LastSeen = now\<rparr> msg n s = Some (n1, s1, w1, e)"
    and n': "n' = n1 \<or> n' = fst (ReportPeer now n1 pid (- 10))"
    using assms(1) by (force simp: handle_message_def split: option.splits prod.splits)
  have "map_of (n_peers n1) peer = map_of (n_peers n) peer"
    using assms(3) Some f unfolding keeps_slot_def by blast
  then show ?thesis using n' ReportPeer_other [OF assms(2)] by auto
qed

lemma readLoop_slots:
  assumes "readLoop J handler clock pid n s stream = Some (n', s', w)"
  shows "map_of (n_peers n') pid = None"
    and "peer \<noteq> pid \<Longrightarrow> keeps_slot peer handler \<Longrightarrow> map_of (n_peers n') peer = map_of (n_peers n) peer"
proof -
  have "map_of (n_peers n') pid = None
    \<and> (peer \<noteq> pid \<longrightarrow> keeps_slot peer handler \<longrightarrow> map_of (n_peers n') peer = map_of (n_peers n) peer)"
    using assms
  proof (induction J handler clock pid n s stream arbitrary: n' s' w rule: readLoop.induct)
    case (1 J handler clock pid n s stream)
    let ?now = "clock (length stream)"
    obtain n1 r where r: "readPeerMessage J ?now n pid stream = (n1, r)" by fastforce
    note n1 = readPeerMessage_peers [OF r]
    show ?case
    proof (cases r)
      case (Inl e)
      then have "n' = fst (removePeer (fst (ReportPeer ?now n1 pid (- 25))) pid)"
        using "1.prems" r by (subst (asm) readLoop.simps) (auto simp: Let_def split: prod.splits)
      then show ?thesis using n1 by (simp add: removePeer_self removePeer_other ReportPeer_other)
    next
      case (Inr x)
      obtain msg rest where x: "x = (msg, rest)" by fastforce
      obtain n2 s2 w2 where h: "handle_message handler ?now pid msg n1 s = Some (n2, s2, w2)"
        using "1.prems" r Inr x by (subst (asm) readLoop.simps) (auto simp: Let_def split: option.splits)
      obtain w' where l: "readLoop J handler clock pid n2 s2 rest = Some (n', s', w')"
        using "1.prems" r Inr x h by (subst (asm) readLoop.simps) (auto simp: Let_def)
      show ?thesis
        using "1.IH" [OF refl r [symmetric] Inr x [symmetric] h refl refl l] handle_message_other [OF h, of peer] n1 by auto
    qed
  qed
  then show "map_of (n_peers n') pid = None"
    "peer \<noteq> pid \<Longrightarrow> keeps_slot peer handler \<Longrightarrow> map_of (n_peers n') peer = map_of (n_peers n) peer" by auto
qed

text \<open>
  What a read loop relies on: the handler returns, keeps the node within its limits, and moves its own
  state, as long as that is safe, to a safe state that has only grown. Then the whole loop does, on
  whatever bytes the peer sends.
\<close>

locale message_handler =
  fixes handler :: "'s handler" and safe :: "'s \<Rightarrow> bool" and grows :: "'s \<Rightarrow> 's \<Rightarrow> bool"
  assumes handles: "safe s \<Longrightarrow> limits n
      \<Longrightarrow> \<exists>n' s' w e. handler info msg n s = Some (n', s', w, e) \<and> limits n' \<and> safe s' \<and> grows s s'"
    and grows_refl: "grows s s"
    and grows_trans: "grows r s \<Longrightarrow> grows s t \<Longrightarrow> grows r t"
begin

lemma handle_message_safe:
  assumes "safe s" and "limits n"
  shows "\<exists>n' s' w. handle_message (Some handler) now pid msg n s = Some (n', s', w) \<and> limits n' \<and> safe s' \<and> grows s s'"
proof -
  obtain n' s' w e where h: "handler \<lparr>pi_ID = pid, pi_Address = pid, pi_LastSeen = now\<rparr> msg n s = Some (n', s', w, e)"
    "limits n'" "safe s'" "grows s s'" using handles [OF assms] by blast
  then show ?thesis
    using limits_report [of n' now pid "- 10"] by (cases e) (auto simp: handle_message_def split: prod.splits)
qed

lemma readLoop_safe:
  assumes "safe s" and "limits n"
  shows "\<exists>n' s' w. readLoop J (Some handler) clock pid n s stream = Some (n', s', w)
     \<and> limits n' \<and> safe s' \<and> grows s s' \<and> map_of (n_peers n') pid = None"
proof -
  have "\<exists>n' s' w. readLoop J (Some handler) clock pid n s stream = Some (n', s', w) \<and> limits n' \<and> safe s' \<and> grows s s'"
    using assms
  proof (induction "length stream" arbitrary: n s stream rule: less_induct)
    case less
    let ?now = "clock (length stream)"
    obtain n1 r where r: "readPeerMessage J ?now n pid stream = (n1, r)" by fastforce
    then have "n1 = fst (allowPeerMessage n pid ?now)"
      by (cases "allowPeerMessage n pid ?now") (auto simp: readPeerMessage_def split: bool.splits)
    then have n1: "limits n1" using limits_allow [OF less.prems(2)] by simp
    show ?case
    proof (cases r)
      case (Inl e)
      have "limits (fst (removePeer (fst (ReportPeer ?now n1 pid (- 25))) pid))"
        using limits_exec [of "fst (ReportPeer ?now n1 pid (- 25))" "Remove pid"] limits_report [OF n1] by simp
      then show ?thesis
        using Inl r less.prems(1) grows_refl by (subst readLoop.simps) (auto simp: Let_def split: prod.splits)
    next
      case (Inr x)
      obtain msg rest where x: "x = (msg, rest)" by fastforce
      obtain n2 s2 w2 where h: "handle_message (Some handler) ?now pid msg n1 s = Some (n2, s2, w2)"
        "limits n2" "safe s2" "grows s s2" using handle_message_safe [OF less.prems(1) n1] by blast
      have "length rest < length stream" using r Inr x readPeerMessage_shorter by blast
      from less.hyps [OF this h(3,2)] obtain n' s' w where
        "readLoop J (Some handler) clock pid n2 s2 rest = Some (n', s', w)" "limits n'" "safe s'" "grows s2 s'" by blast
      then show ?thesis
        using r Inr x h grows_trans [OF h(4)] by (subst readLoop.simps) (simp add: Let_def)
    qed
  qed
  then obtain n' s' w where l: "readLoop J (Some handler) clock pid n s stream = Some (n', s', w)"
    "limits n'" "safe s'" "grows s s'" by blast
  then show ?thesis using readLoop_slots(1) [OF l(1)] by blast
qed

end

section \<open>Properties: frames and read loops\<close>

text \<open>
  C29. Framing: what \<open>writeMessage\<close> puts on a connection is read back by \<open>readMessageLimit\<close> as the same
  message, with whatever follows left in the stream, when its type is one of \<open>knownMessageTypes\<close>, and is
  refused otherwise. The JSON text is assumed to be non-empty and to decode to the message it encodes;
  the limit of the reader is at least the text's length and fits 32 bits.
\<close>

theorem frame_roundtrip:
  assumes "writeMessage env J c msg = (w, None)"
    and "mj_Marshal J msg \<noteq> []" and "mj_Unmarshal J (mj_Marshal J msg) = Inr msg"
    and "int (length (mj_Marshal J msg)) \<le> maxBytes" and "maxBytes < 2 ^ 32"
  shows "readMessageLimit J (written c w @ rest) maxBytes
     = (if msg_Type msg \<in> set knownMessageTypes then Inr (msg, rest) else Inl ErrUnknownMessageType)"
  using read_frame [OF assms(2,4,5,3), of rest] writeMessage_None(1) [OF assms(1)]
  by (simp add: validateMessage_def)

text \<open>A text of messages to evaluate on: the length of the type, the type, the payload.\<close>

definition demo_wire :: message_json where
  "demo_wire = \<lparr>mj_Marshal = (\<lambda>m. of_nat (length (msg_Type m)) # string_bytes (msg_Type m) @ msg_Payload m),
     mj_Unmarshal = (\<lambda>bs. case bs of [] \<Rightarrow> Inl EOF
        | k # r \<Rightarrow> Inr \<lparr>msg_Type = map (\<lambda>b. char_of (unat b)) (take (unat k) r), msg_Payload = drop (unat k) r\<rparr>)\<rparr>"

lemma demo_wire:
  assumes "length (msg_Type m) < 256"
  shows "mj_Unmarshal demo_wire (mj_Marshal demo_wire m) = Inr m" and "mj_Marshal demo_wire m \<noteq> []"
    and "length (mj_Marshal demo_wire m) = 1 + length (msg_Type m) + length (msg_Payload m)"
proof -
  have "char_of (unat (of_nat (of_char ch) :: byte)) = ch" for ch :: char
  proof -
    have "of_char ch < (256 :: nat)" by simp
    then show ?thesis by (simp add: unat_of_nat take_bit_nat_eq_self)
  qed
  moreover have "unat (of_nat (length (msg_Type m)) :: byte) = length (msg_Type m)"
    using assms by (simp add: unat_of_nat take_bit_nat_eq_self)
  ultimately show "mj_Unmarshal demo_wire (mj_Marshal demo_wire m) = Inr m" "mj_Marshal demo_wire m \<noteq> []"
    "length (mj_Marshal demo_wire m) = 1 + length (msg_Type m) + length (msg_Payload m)"
    by (simp_all add: demo_wire_def string_bytes_def comp_def)
qed

definition demo_env :: net_env where
  "demo_env = \<lparr>env_Write = (\<lambda>c bs. None), env_Dial = (\<lambda>address. Inr 7), env_RemoteAddr = (\<lambda>c. ''203.0.113.5:8333'')\<rparr>"

theorem frame_roundtrip_witness:
  "readMessageLimit demo_wire
     (written 7 (fst (writeMessage demo_env demo_wire 7 \<lparr>msg_Type = ''ping'', msg_Payload = [1, 2]\<rparr>)) @ [9]) 100
   = Inr (\<lparr>msg_Type = ''ping'', msg_Payload = [1, 2]\<rparr>, [9])"
  using frame_roundtrip [of demo_env demo_wire 7 "\<lparr>msg_Type = ''ping'', msg_Payload = [1, 2]\<rparr>"
      "fst (writeMessage demo_env demo_wire 7 \<lparr>msg_Type = ''ping'', msg_Payload = [1, 2]\<rparr>)" 100 "[9]"]
  by (simp add: demo_wire demo_env_def writeMessage_def write_frame_def MaxMessageBytes_def Let_def
      knownMessageTypes_def)

text \<open>
  C30. Discovery cannot work: the message \<open>getaddr\<close> that \<open>Bootstrap\<close> and \<open>PeriodicDiscovery\<close> send is not
  among \<open>knownMessageTypes\<close>, so the receiving node's read loop ends on it before any handler sees it,
  drops the sender and lowers its score by 25.
\<close>

theorem getaddr_drops_peer:
  assumes "writeMessage env J c getaddr = (w, None)"
    and "mj_Marshal J getaddr \<noteq> []" and "mj_Unmarshal J (mj_Marshal J getaddr) = Inr getaddr"
    and "int (length (mj_Marshal J getaddr)) \<le> cfg_MaxMessageBytes (n_cfg n)"
    and "cfg_MaxMessageBytes (n_cfg n) < 2 ^ 32"
  shows "\<exists>n' w'. readLoop J handler clock pid n s (written c w @ rest) = Some (n', s, w')
     \<and> map_of (n_peers n') pid = None \<and> Score n' pid = Score n pid - 25"
proof -
  let ?stream = "written c w @ rest"
  obtain n1 where n1: "readPeerMessage J (clock (length ?stream)) n pid ?stream = (n1, Inl ErrPeerRateLimited)
      \<or> readPeerMessage J (clock (length ?stream)) n pid ?stream = (n1, Inl ErrUnknownMessageType)"
    and sc: "n_scores n1 = n_scores n"
    using read_frame [OF assms(2,4,5,3), of rest] writeMessage_None(1) [OF assms(1)]
    by (auto simp: readPeerMessage_def allowPeerMessage_next validateMessage_def getaddr_def knownMessageTypes_def
        split: bool.splits)
  then show ?thesis
    by (subst readLoop.simps) (auto simp: Let_def ReportPeer_def removePeer_def Score_def delete_conv)
qed

theorem getaddr_drops_peer_witness:
  "\<exists>n' w'. readLoop demo_wire (None :: unit handler option) (\<lambda>_. 0) ''p'' (NewNode demo_cfg) ()
       (written 7 (fst (writeMessage demo_env demo_wire 7 getaddr)) @ []) = Some (n', (), w')
     \<and> map_of (n_peers n') ''p'' = None \<and> Score n' ''p'' = - 25"
  using getaddr_drops_peer [of demo_env demo_wire 7 "fst (writeMessage demo_env demo_wire 7 getaddr)"
      "NewNode demo_cfg" "None :: unit handler option" "\<lambda>_. 0" "''p''" "()" "[]"]
  by (simp add: demo_wire demo_env_def writeMessage_def write_frame_def MaxMessageBytes_def
      getaddr_def NewNode_def demo_cfg_def Score_def Let_def)



end
