(* ===== verification/Adapter.thy ===== *)
theory Adapter
  imports Sync P2p
begin

text \<open>
  The chain adapter (\<open>p2p/handler.go\<close>): the handler that joins the network to the chain manager. The
  manager is the state of the handler; a handler that panics or never ends returns nothing. The JSON
  of the payloads is a record of functions. The interpretation at the end discharges what a read loop
  relies on, so the properties speak of whatever bytes a peer sends.
\<close>

section \<open>Definitions\<close>

record GetHeadersRequest =
  ghr_Locator :: "hash list"
  ghr_Stop :: hash

record payload_json =
  pj_Block :: "byte list \<Rightarrow> error + Block"
  pj_Transaction :: "byte list \<Rightarrow> error + Transaction"
  pj_GetHeaders :: "byte list \<Rightarrow> error + GetHeadersRequest"
  pj_Addrs :: "byte list \<Rightarrow> error + string list"
  pj_MarshalAddrs :: "string list \<Rightarrow> byte list"
  pj_MarshalHeaders :: "BlockHeader list \<Rightarrow> byte list"

text \<open>
  What surrounds one call of the handler: network, texts, orders of map visits, and the time, in
  nanoseconds since the Unix epoch.
\<close>

record adapter_env =
  ae_Net :: net_env
  ae_Json :: message_json
  ae_Payload :: payload_json
  ae_Rank :: "string \<Rightarrow> nat"
  ae_Ranks :: "nat \<Rightarrow> ranking"
  ae_Clock :: "PeerInfo \<Rightarrow> Message \<Rightarrow> int"

definition AddrPayload :: "payload_json \<Rightarrow> (string \<Rightarrow> nat) \<Rightarrow> Node \<Rightarrow> byte list" where
  "AddrPayload P rank n = pj_MarshalAddrs P (peer_ids rank n)"

fun locator_start :: "DB \<Rightarrow> hash list \<Rightarrow> u64" where
  "locator_start d [] = 0"
| "locator_start d (h # locator) =
     (case GetBlock d h of Inl _ \<Rightarrow> locator_start d locator | Inr b \<Rightarrow> hdr_Height (blk_Header b) + 1)"

definition maxHeaders :: nat where
  "maxHeaders = 2000"

text \<open>The loop of \<open>gatherHeaders\<close> from height \<open>h\<close>, with room for \<open>k\<close> headers.\<close>

fun gather_loop :: "Manager \<Rightarrow> u64 \<Rightarrow> hash \<Rightarrow> u64 \<Rightarrow> nat \<Rightarrow> BlockHeader list" where
  "gather_loop m tipHeight stop h 0 = []"
| "gather_loop m tipHeight stop h (Suc k) =
     (if h \<le> tipHeight then
        case mgr_HeaderByHeight m h of
          Inl _ \<Rightarrow> []
        | Inr bh \<Rightarrow> bh # (if hdr_Hash bh = stop then [] else gather_loop m tipHeight stop (h + 1) k)
      else [])"

definition gatherHeaders :: "Manager \<Rightarrow> hash list \<Rightarrow> hash \<Rightarrow> error + BlockHeader list" where
  "gatherHeaders m locator stop =
     (case TipBlock m of
        Inl e \<Rightarrow> Inl e
      | Inr tip \<Rightarrow>
          Inr (gather_loop m (hdr_Height (blk_Header tip)) stop (locator_start (mgr_Store m) locator) maxHeaders))"

definition reply ::
  "adapter_env \<Rightarrow> PeerInfo \<Rightarrow> Message \<Rightarrow> Node \<Rightarrow> Manager \<Rightarrow> (Node \<times> Manager \<times> effect list \<times> error option) option" where
  "reply ae peer msg n m = (case Send (ae_Net ae) (ae_Json ae) n (pi_ID peer) msg of (w, e) \<Rightarrow> Some (n, m, w, e))"

definition handle_block :: "adapter_env \<Rightarrow> Manager handler" where
  "handle_block ae peer msg n m =
     (let now = ae_Clock ae peer msg in
      case pj_Block (ae_Payload ae) (msg_Payload msg) of
        Inl e \<Rightarrow> (case ReportPeer now n (pi_ID peer) (- 10) of (n, w) \<Rightarrow> Some (n, m, w, Some e))
      | Inr b \<Rightarrow>
          case ValidateAndApplyBlock (now div 10 ^ 9) m b of
            None \<Rightarrow> None
          | Some (m, Some e) \<Rightarrow> Some (n, m, [], None)
          | Some (m, None) \<Rightarrow>
              Some (n, m, BroadcastExcept (ae_Net ae) (ae_Json ae) (ae_Rank ae) n msg (pi_ID peer), None))"

definition handle_tx :: "adapter_env \<Rightarrow> Manager handler" where
  "handle_tx ae peer msg n m =
     (let now = ae_Clock ae peer msg in
      case pj_Transaction (ae_Payload ae) (msg_Payload msg) of
        Inl e \<Rightarrow> (case ReportPeer now n (pi_ID peer) (- 10) of (n, w) \<Rightarrow> Some (n, m, w, Some e))
      | Inr t \<Rightarrow>
          case mgr_Mempool m of
            None \<Rightarrow> None
          | Some mp \<Rightarrow>
              case mp_Add (ae_Ranks ae) now (Get (mgr_Store m)) (mgr_Verifier m) mp t of
                (mp, Some e) \<Rightarrow> Some (n, m\<lparr>mgr_Mempool := Some mp\<rparr>, [], None)
              | (mp, None) \<Rightarrow>
                  Some (n, m\<lparr>mgr_Mempool := Some mp\<rparr>,
                    BroadcastExcept (ae_Net ae) (ae_Json ae) (ae_Rank ae) n msg (pi_ID peer), None))"

definition handle_getheaders :: "adapter_env \<Rightarrow> Manager handler" where
  "handle_getheaders ae peer msg n m =
     (case pj_GetHeaders (ae_Payload ae) (msg_Payload msg) of
        Inl e \<Rightarrow> Some (n, m, [], Some e)
      | Inr req \<Rightarrow>
          case gatherHeaders m (ghr_Locator req) (ghr_Stop req) of
            Inl e \<Rightarrow> Some (n, m, [], Some e)
          | Inr headers \<Rightarrow>
              reply ae peer \<lparr>msg_Type = ''headers'', msg_Payload = pj_MarshalHeaders (ae_Payload ae) headers\<rparr> n m)"

definition Handler :: "adapter_env \<Rightarrow> Manager handler" where
  "Handler ae peer msg n m =
     (if msg_Type msg = ''version'' then reply ae peer \<lparr>msg_Type = ''verack'', msg_Payload = []\<rparr> n m
      else if msg_Type msg = ''getaddr'' then
        reply ae peer \<lparr>msg_Type = ''addr'', msg_Payload = AddrPayload (ae_Payload ae) (ae_Rank ae) n\<rparr> n m
      else if msg_Type msg = ''addr'' then
        (case HandleAddrMessage (ae_Net ae) (ae_Json ae) (ae_Clock ae peer msg) n
                (pj_Addrs (ae_Payload ae) (msg_Payload msg)) of
           (n, w) \<Rightarrow> Some (n, m, w, None))
      else if msg_Type msg = ''block'' then handle_block ae peer msg n m
      else if msg_Type msg = ''tx'' then handle_tx ae peer msg n m
      else if msg_Type msg = ''getheaders'' then handle_getheaders ae peer msg n m
      else if msg_Type msg = ''ping'' then reply ae peer \<lparr>msg_Type = ''pong'', msg_Payload = msg_Payload msg\<rparr> n m
      else Some (n, m, [], None))"

section \<open>Lemmas: the handler\<close>

text \<open>
  What is asked of the decoders: a block is one that could have been read from its binary form and does
  not claim height zero, and the transactions come from a set in which hashes do not collide.
\<close>

definition decodes_ok :: "adapter_env \<Rightarrow> Transaction set \<Rightarrow> bool" where
  "decodes_ok ae T \<longleftrightarrow> inj_on tx_Hash T
     \<and> (\<forall>p b. pj_Block (ae_Payload ae) p = Inr b \<longrightarrow> wf_Block b \<and> blk_Height b \<noteq> 0)
     \<and> (\<forall>p t. pj_Transaction (ae_Payload ae) p = Inr t \<longrightarrow> t \<in> T)"

text \<open>A manager that holds a chain and has a pool of such transactions.\<close>

definition chain_safe :: "Transaction set \<Rightarrow> Manager \<Rightarrow> bool" where
  "chain_safe T m \<longleftrightarrow> (\<exists>bs. mgr_inv m bs) \<and> (\<exists>mp. mgr_Mempool m = Some mp \<and> pool_txs mp \<subseteq> T)"

definition chain_grows :: "Manager \<Rightarrow> Manager \<Rightarrow> bool" where
  "chain_grows m m' \<longleftrightarrow> (\<forall>bs. mgr_inv m bs \<longrightarrow> (\<exists>new. mgr_inv m' (bs @ new)))"

lemma chain_growsI: "(\<And>bs. mgr_inv m bs \<Longrightarrow> mgr_inv m' (bs @ new bs)) \<Longrightarrow> chain_grows m m'"
  unfolding chain_grows_def by blast

lemma chain_grows_refl: "chain_grows m m"
  by (rule chain_growsI [of _ _ "\<lambda>_. []"]) simp

lemma chain_grows_trans:
  assumes "chain_grows m1 m2" and "chain_grows m2 m3"
  shows "chain_grows m1 m3"
  unfolding chain_grows_def
proof (intro allI impI)
  fix bs assume "mgr_inv m1 bs"
  then obtain new where "mgr_inv m2 (bs @ new)" using assms(1) unfolding chain_grows_def by blast
  then obtain new' where "mgr_inv m3 ((bs @ new) @ new')" using assms(2) unfolding chain_grows_def by blast
  then show "\<exists>new. mgr_inv m3 (bs @ new)" by (intro exI [of _ "new @ new'"]) simp
qed

lemma limits_Connect: "limits n \<Longrightarrow> limits (fst (Connect env J now n address))"
  using limits_add [of n now address]
  by (auto simp: Connect_def split: sum.splits prod.splits bool.splits) (metis fst_conv)+

lemma limits_connect_addrs: "limits n \<Longrightarrow> limits (fst (connect_addrs env J now n addrs))"
proof (induction addrs arbitrary: n)
  case (Cons addr addrs)
  then show ?case
    using limits_Connect [OF Cons.prems, of env J now addr] by (auto split: prod.splits) (metis fst_conv)+
qed simp

lemma limits_HandleAddrMessage: "limits n \<Longrightarrow> limits (fst (HandleAddrMessage env J now n addrs))"
  by (simp add: HandleAddrMessage_def limits_connect_addrs split: sum.splits)

lemma pool_hash_identifies:
  assumes "mp_inv mp" and "pool_txs mp \<subseteq> T" and "t \<in> T" and "inj_on tx_Hash T"
  shows "hash_identifies t mp"
  unfolding hash_identifies_def
proof (clarify)
  fix h e assume e: "(tx_Hash t, e) \<in> set (mp_txs mp)"
  then have "tx_Hash (ent_Tx e) = tx_Hash t" using mp_inv_entry [OF assms(1)] by metis
  moreover have "ent_Tx e \<in> T" using e assms(2) by (force simp: pool_txs_def)
  ultimately show "ent_Tx e = t" using assms(3,4) by (auto dest: inj_onD)
qed

lemma RemoveMinedBlock_pool: "mp_inv mp \<Longrightarrow> pool_txs (RemoveMinedBlock mp b) \<subseteq> pool_txs mp"
  using mempool.mined_pool by blast

text \<open>The chain that a store holds is determined by it.\<close>

lemma mgr_inv_prefix:
  assumes "mgr_inv m bs" and "mgr_inv m bs'" and "length bs \<le> length bs'"
  shows "bs = bs'"
proof -
  have h: "holds_chain (mgr_Store m) bs" "holds_chain (mgr_Store m) bs'"
    and v: "valid_chain (mgr_Network m) (mgr_Verifier m) bs" "valid_chain (mgr_Network m) (mgr_Verifier m) bs'"
    using assms(1,2) by (simp_all add: mgr_inv_def)
  have nth: "bs ! i = bs' ! i" if i: "i < length bs" for i
  proof -
    have i': "i < length bs'" using i assms(3) by (rule less_le_trans)
    have "Inr (blk_Hash (bs ! i)) = (Inr (blk_Hash (bs' ! i)) :: error + hash)"
      using holds_chain_nth(1) [OF h(1) i] holds_chain_nth(1) [OF h(2) i'] by (rule trans [OF sym])
    then have "blk_Hash (bs ! i) = blk_Hash (bs' ! i)" by (rule sum.inject(2) [THEN iffD1])
    then have "Inr (bs ! i) = (Inr (bs' ! i) :: error + Block)"
      using holds_chain_nth(4) [OF h(1) i] holds_chain_nth(4) [OF h(2) i'] by (simp only:)
    then show ?thesis by (rule sum.inject(2) [THEN iffD1])
  qed
  have "length bs = length bs'"
  proof (rule ccontr)
    assume "length bs \<noteq> length bs'"
    then have l: "length bs < length bs'" using assms(3) by (rule le_neq_implies_less [rotated])
    have "bs' ! length bs \<in> set bs"
      using holds_chain_block [OF h(1), THEN iffD1, OF holds_chain_nth(4) [OF h(2) l]] by (rule conjunct1)
    then obtain j where j: "j < length bs" "bs ! j = bs' ! length bs" unfolding in_set_conv_nth by blast
    have "unat (blk_Height (bs ! j)) = j" "unat (blk_Height (bs' ! length bs)) = length bs"
      using valid_chain_height(1) [OF v(1) j(1)] valid_chain_height(1) [OF v(2) l] .
    then show False using j by (simp only: less_irrefl)
  qed
  then show ?thesis using nth by (rule nth_equalityI)
qed

lemma mgr_inv_unique:
  assumes "mgr_inv m bs" and "mgr_inv m bs'"
  shows "bs = bs'"
proof (rule linorder_le_cases)
  show "bs = bs'" if "length bs \<le> length bs'" using assms that by (rule mgr_inv_prefix)
  show "bs = bs'" if "length bs' \<le> length bs" using mgr_inv_prefix [OF assms(2,1) that] by (rule sym)
qed

text \<open>The two steps by which peers and clients change the manager.\<close>

lemma chain_safe_block:
  assumes "chain_safe T m" and "wf_Block b" and "blk_Height b \<noteq> 0"
  shows "\<exists>m' r. ValidateAndApplyBlock now m b = Some (m', r) \<and> chain_safe T m' \<and> chain_grows m m'"
proof -
  obtain bs mp where inv: "mgr_inv m bs" and mp: "mgr_Mempool m = Some mp" "pool_txs mp \<subseteq> T"
    using assms(1) by (auto simp: chain_safe_def)
  have mi: "mp_inv mp" using inv mp(1) by (simp add: mgr_inv_def mp_reachable_inv)
  have grown: "chain_grows m m'" if "mgr_inv m' (bs @ new)" for m' new
  proof -
    have "bs' = bs" if "mgr_inv m bs'" for bs' using mgr_inv_unique [OF that inv] .
    then show ?thesis using \<open>mgr_inv m' (bs @ new)\<close> by (auto simp: chain_grows_def)
  qed
  from inv assms(2) disjI1 [OF assms(3)] show ?thesis
  proof (cases rule: mgr_inv_block [where now = now])
    case (rejected e)
    then show ?thesis using assms(1) chain_grows_refl by blast
  next
    case (extended m')
    then have "chain_safe T m'"
      using mp RemoveMinedBlock_pool [OF mi, of b] by (auto simp: chain_safe_def)
    then show ?thesis using extended(1) grown [OF extended(2)] by blast
  next
    case (side m' i)
    then have "chain_safe T m'" using mp by (auto simp: chain_safe_def)
    then show ?thesis using side(1,2) grown [of m' "[]"] by simp
  qed
qed

lemma chain_safe_pool:
  fixes ranks :: "nat \<Rightarrow> ranking" and now :: int
  assumes "chain_safe T m" and "mgr_Mempool m = Some mp" and "t \<in> T" and "inj_on tx_Hash T"
  defines "m' \<equiv> m\<lparr>mgr_Mempool := Some (fst (mp_Add ranks now (Get (mgr_Store m)) (mgr_Verifier m) mp t))\<rparr>"
  shows "chain_safe T m' \<and> chain_grows m m'"
proof -
  let ?A = "mp_Add ranks now (Get (mgr_Store m)) (mgr_Verifier m) mp t"
  obtain bs where inv: "mgr_inv m bs" and mp: "pool_txs mp \<subseteq> T"
    using assms(1,2) by (auto simp: chain_safe_def)
  have r: "mp_reachable mp" using inv assms(2) by (simp add: mgr_inv_def)
  note mi = mp_reachable_inv [OF r]
  have "mp_reachable (fst ?A)"
    by (rule mp_reachable.intros(2) [OF r pool_hash_identifies [OF mi mp assms(3,4)]])
  then have keep: "mgr_inv m' bs'" if "mgr_inv m bs'" for bs' using that by (simp add: mgr_inv_def m'_def)
  then have "chain_grows m m'" by (intro chain_growsI [of _ _ "\<lambda>_. []"]) simp
  moreover have "pool_txs (fst ?A) \<subseteq> T"
    using mp_Add_pool [OF mi, of ranks now "Get (mgr_Store m)" "mgr_Verifier m" t] mp assms(3) by blast
  then have "chain_safe T m'" using keep [OF inv] by (auto simp: chain_safe_def m'_def)
  ultimately show ?thesis by blast
qed

lemma handle_block_safe:
  assumes "decodes_ok ae T" and "chain_safe T m" and "limits n"
  shows "\<exists>n' m' w e. handle_block ae peer msg n m = Some (n', m', w, e) \<and> limits n' \<and> chain_safe T m' \<and> chain_grows m m'"
proof (cases "pj_Block (ae_Payload ae) (msg_Payload msg)")
  case (Inl e)
  then show ?thesis
    using assms(2) limits_report [OF assms(3), of "ae_Clock ae peer msg" "pi_ID peer" "- 10"] chain_grows_refl
    by (auto simp: handle_block_def Let_def split: prod.splits)
next
  case (Inr b)
  then have "wf_Block b" "blk_Height b \<noteq> 0" using assms(1) by (auto simp: decodes_ok_def)
  from chain_safe_block [OF assms(2) this, of "ae_Clock ae peer msg div 10 ^ 9"] obtain m' r
    where "ValidateAndApplyBlock (ae_Clock ae peer msg div 10 ^ 9) m b = Some (m', r)" "chain_safe T m'" "chain_grows m m'"
    by blast
  then show ?thesis using Inr assms(3) by (cases r) (auto simp: handle_block_def Let_def)
qed

lemma handle_tx_safe:
  assumes "decodes_ok ae T" and "chain_safe T m" and "limits n"
  shows "\<exists>n' m' w e. handle_tx ae peer msg n m = Some (n', m', w, e) \<and> limits n' \<and> chain_safe T m' \<and> chain_grows m m'"
proof (cases "pj_Transaction (ae_Payload ae) (msg_Payload msg)")
  case (Inl e)
  then show ?thesis
    using assms(2) limits_report [OF assms(3), of "ae_Clock ae peer msg" "pi_ID peer" "- 10"] chain_grows_refl
    by (auto simp: handle_tx_def Let_def split: prod.splits)
next
  case (Inr t)
  obtain mp where mp: "mgr_Mempool m = Some mp" using assms(2) by (auto simp: chain_safe_def)
  have "t \<in> T" "inj_on tx_Hash T" using assms(1) Inr by (auto simp: decodes_ok_def)
  from chain_safe_pool [OF assms(2) mp this, of "ae_Ranks ae" "ae_Clock ae peer msg"] show ?thesis
    using Inr mp assms(3) by (auto simp: handle_tx_def Let_def split: prod.splits option.splits)
qed

lemma reply_safe: "\<exists>w e. reply ae peer msg n m = Some (n, m, w, e)"
  by (simp add: reply_def split: prod.splits)

lemma handle_getheaders_safe: "\<exists>w e. handle_getheaders ae peer msg n m = Some (n, m, w, e)"
  using reply_safe by (auto simp: handle_getheaders_def split: sum.splits)

lemma Handler_safe:
  assumes "decodes_ok ae T" and "chain_safe T m" and "limits n"
  shows "\<exists>n' m' w e. Handler ae peer msg n m = Some (n', m', w, e) \<and> limits n' \<and> chain_safe T m' \<and> chain_grows m m'"
proof -
  define good :: "(Node \<times> Manager \<times> effect list \<times> error option) option \<Rightarrow> bool" where
    "good r \<longleftrightarrow> (\<exists>n' m' w e. r = Some (n', m', w, e) \<and> limits n' \<and> chain_safe T m' \<and> chain_grows m m')" for r
  have same: "good r" if "\<exists>w e. r = Some (n, m, w, e)" for r
    using that assms(2,3) chain_grows_refl unfolding good_def by blast
  have "good (case HandleAddrMessage (ae_Net ae) (ae_Json ae) (ae_Clock ae peer msg) n addrs of
      (n, w) \<Rightarrow> Some (n, m, w, None))" for addrs
    using limits_HandleAddrMessage [OF assms(3)] assms(2) chain_grows_refl unfolding good_def case_prod_unfold by blast
  moreover have "good (handle_block ae peer msg n m)" "good (handle_tx ae peer msg n m)"
    using handle_block_safe [OF assms] handle_tx_safe [OF assms] by (simp_all only: good_def)
  moreover have "good (handle_getheaders ae peer msg n m)" "good (reply ae peer msg' n m)" for msg'
    by (rule same [OF handle_getheaders_safe]) (rule same [OF reply_safe])
  moreover have "good (Some (n, m, [], None))" by (rule same) blast
  ultimately have "good (Handler ae peer msg n m)" by (simp add: Handler_def)
  then show ?thesis by (simp only: good_def)
qed

interpretation adapter: message_handler "Handler ae" "\<lambda>m. decodes_ok ae T \<and> chain_safe T m" chain_grows for ae T
proof
  show "\<exists>n' m' w e. Handler ae peer msg n m = Some (n', m', w, e) \<and> limits n'
      \<and> (decodes_ok ae T \<and> chain_safe T m') \<and> chain_grows m m'"
    if "decodes_ok ae T \<and> chain_safe T m" "limits n" for m n peer msg
    using Handler_safe that by blast
qed (fact chain_grows_refl, rule chain_grows_trans)

section \<open>Lemmas: serving headers\<close>

text \<open>What \<open>gatherHeaders\<close> means on the list of blocks: where to start and where to stop.\<close>

definition fork_index :: "Block list \<Rightarrow> hash list \<Rightarrow> nat" where
  "fork_index bs locator =
     (case find (\<lambda>h. h \<in> blk_Hash ` set bs) locator of
        None \<Rightarrow> 0
      | Some h \<Rightarrow> Suc (length (takeWhile (\<lambda>b. blk_Hash b \<noteq> h) bs)))"

definition until_stop :: "hash \<Rightarrow> BlockHeader list \<Rightarrow> BlockHeader list" where
  "until_stop stop hs = take (Suc (length (takeWhile (\<lambda>h. hdr_Hash h \<noteq> stop) hs))) hs"

lemma until_stop_simps [simp]:
  "until_stop stop [] = []"
  "until_stop stop (h # hs) = h # (if hdr_Hash h = stop then [] else until_stop stop hs)"
  by (simp_all add: until_stop_def)

lemma takeWhile_nth:
  assumes "distinct (map f xs)" and "i < length xs"
  shows "length (takeWhile (\<lambda>x. f x \<noteq> f (xs ! i)) xs) = i"
  using assms
proof (induction xs arbitrary: i)
  case (Cons x xs)
  then show ?case by (cases i) auto
qed simp

lemma mgr_inv_distinct:
  assumes "mgr_inv m bs"
  shows "distinct (map blk_Hash bs)"
proof -
  have h: "holds_chain (mgr_Store m) bs" and v: "valid_chain (mgr_Network m) (mgr_Verifier m) bs"
    using assms by (simp_all add: mgr_inv_def)
  have "i = j" if ij: "i < length bs" "j < length bs" "blk_Hash (bs ! i) = blk_Hash (bs ! j)" for i j
  proof -
    have "bs ! i = bs ! j"
      using h nth_mem [OF ij(1)] nth_mem [OF ij(2)] ij(3) by (rule holds_chain_inj)
    then have "unat (blk_Height (bs ! i)) = unat (blk_Height (bs ! j))" by (rule arg_cong)
    then show ?thesis unfolding valid_chain_height(1) [OF v ij(1)] valid_chain_height(1) [OF v ij(2)] .
  qed
  then show ?thesis by (auto simp: distinct_conv_nth)
qed

lemma locator_start_index:
  assumes "mgr_inv m bs"
  shows "locator_start (mgr_Store m) locator = of_nat (fork_index bs locator)" and "fork_index bs locator \<le> length bs"
proof -
  have h: "holds_chain (mgr_Store m) bs" and v: "valid_chain (mgr_Network m) (mgr_Verifier m) bs"
    using assms by (simp_all add: mgr_inv_def)
  have "locator_start (mgr_Store m) locator = of_nat (fork_index bs locator) \<and> fork_index bs locator \<le> length bs"
  proof (induction locator)
    case Nil
    then show ?case by (simp add: fork_index_def)
  next
    case (Cons x locator)
    show ?case
    proof (cases "x \<in> blk_Hash ` set bs")
      case True
      then obtain i where i: "i < length bs" "x = blk_Hash (bs ! i)" by (auto simp: in_set_conv_nth)
      have "fork_index bs (x # locator) = Suc i"
        using takeWhile_nth [OF mgr_inv_distinct [OF assms] i(1)] True by (simp add: fork_index_def i(2))
      moreover have "hdr_Height (blk_Header (bs ! i)) = of_nat i"
        using valid_chain_height(2) [OF v i(1)] by (simp only: blk_Height_def)
      ultimately show ?thesis using holds_chain_nth(4) [OF h i(1)] i by (simp add: add.commute)
    next
      case False
      then obtain e where "GetBlock (mgr_Store m) x = Inl e"
        using holds_chain_block [OF h, of x] by (cases "GetBlock (mgr_Store m) x") auto
      moreover have "fork_index bs (x # locator) = fork_index bs locator" using False by (simp add: fork_index_def)
      ultimately show ?thesis using Cons by simp
    qed
  qed
  then show "locator_start (mgr_Store m) locator = of_nat (fork_index bs locator)" "fork_index bs locator \<le> length bs"
    by simp_all
qed

lemma gather_loop_headers:
  assumes "mgr_inv m bs" and "length bs < 2 ^ 64" and "bs \<noteq> []" and "i \<le> length bs"
  shows "gather_loop m (blk_Height (last bs)) stop (of_nat i) k = until_stop stop (take k (drop i (map blk_Header bs)))"
  using assms(4)
proof (induction k arbitrary: i)
  case (Suc k)
  have h: "holds_chain (mgr_Store m) bs" and v: "valid_chain (mgr_Network m) (mgr_Verifier m) bs"
    using assms(1) by (simp_all add: mgr_inv_def)
  have n: "length bs - 1 < length bs" "bs ! (length bs - 1) = last bs" using assms(3) by (simp_all add: last_conv_nth)
  have "unat (of_nat i :: u64) = i" using Suc.prems assms(2) by (intro unat_of_nat_small) simp
  moreover have "unat (blk_Height (last bs)) = length bs - 1" using valid_chain_height(1) [OF v n(1)] n(2) by simp
  ultimately have le: "of_nat i \<le> blk_Height (last bs) \<longleftrightarrow> i < length bs"
    using n(1) by (simp only: word_le_nat_alt) linarith
  show ?case
  proof (cases "i < length bs")
    case True
    have "mgr_HeaderByHeight m (of_nat i) = Inr (blk_Header (bs ! i))"
      using holds_chain_nth(1,4) [OF h True] by (simp add: mgr_HeaderByHeight_def)
    moreover have "drop i (map blk_Header bs) = blk_Header (bs ! i) # drop (Suc i) (map blk_Header bs)"
      using True by (simp add: Cons_nth_drop_Suc [symmetric])
    moreover have "(of_nat i :: u64) + 1 = of_nat (Suc i)" by (simp add: add.commute)
    ultimately show ?thesis using True le Suc.IH [of "Suc i"] by (simp add: add.commute)
  next
    case False
    then show ?thesis using le by simp
  qed
qed simp

section \<open>Properties\<close>


definition demo_ae :: adapter_env where
  "demo_ae = \<lparr>ae_Net = demo_env, ae_Json = demo_wire,
     ae_Payload = \<lparr>pj_Block = (\<lambda>p. case ReadBlock p of Inl e \<Rightarrow> Inl e
           | Inr (b, r) \<Rightarrow> if blk_Height b = 0 then Inl EOF else Inr b),
         pj_Transaction = (\<lambda>p. if p = [1] then Inr demo_tx else Inl EOF), pj_GetHeaders = (\<lambda>_. Inl EOF),
         pj_Addrs = (\<lambda>_. Inl EOF), pj_MarshalAddrs = (\<lambda>_. []), pj_MarshalHeaders = (\<lambda>_. [])\<rparr>,
     ae_Rank = (\<lambda>_. 0), ae_Ranks = (\<lambda>_ _. 0), ae_Clock = (\<lambda>_ _. 0)\<rparr>"

lemma demo_decodes: "decodes_ok demo_ae {demo_tx}"
  by (auto simp: decodes_ok_def demo_ae_def block_codec.dec_iff split: sum.splits if_splits)

lemma demo_served: "mgr_inv (demo_mgr\<lparr>mgr_Mempool := Some (mp_New 1000)\<rparr>) [demo_first]"
  using demo_mgr(2) mp_reachable.intros(1) [of 1000] by (simp add: mgr_inv_def)


text \<open>
  C32. Serving headers: on a node that holds the chain \<open>bs\<close>, \<open>gatherHeaders\<close> returns the headers after the
  first block of the locator that the chain contains (from the start if there is none), at most 2000
  of them, up to and including the one whose hash is \<open>stop\<close>.
\<close>

theorem gatherHeaders_serves:
  assumes "mgr_inv m bs" and "bs \<noteq> []" and "length bs < 2 ^ 64"
  shows "gatherHeaders m locator stop
     = Inr (until_stop stop (take 2000 (drop (fork_index bs locator) (map blk_Header bs))))"
proof -
  have h: "holds_chain (mgr_Store m) bs" using assms(1) by (simp add: mgr_inv_def)
  have "TipBlock m = Inr (last bs)" using holds_chain_tip(1,2) [OF h assms(2)] by (simp add: TipBlock_def)
  then show ?thesis
    using locator_start_index [OF assms(1), of locator] gather_loop_headers [OF assms(1,3,2), of "fork_index bs locator"]
    by (simp add: gatherHeaders_def blk_Height_def maxHeaders_def)
qed

theorem gatherHeaders_serves_witness:
  "gatherHeaders demo_mgr [1, 2] 0 = Inr (until_stop 0 (take 2000 (drop (fork_index [demo_first] [1, 2]) [blk_Header demo_first])))"
  using gatherHeaders_serves [OF demo_mgr(2), of "[1, 2]" 0] by simp

end
