(* ===== verification/Curve.thy ===== *)
theory Curve
  imports Ripemd
begin

text \<open>
  \<open>wallet/secp256k1.go\<close> and the point encoding of \<open>wallet/wallet.go\<close>, with the parts of \<open>math/big\<close> and
  \<open>crypto/ecdsa\<close> they rest on. A point is an optional pair of coordinates; \<open>None\<close> is the pair of nil
  pointers the code uses for the point at infinity. A nil pointer that is dereferenced panics, which
  is a value of the type \<open>go\<close>. \<open>crypto/ecdsa\<close> verifies on a curve of its caller by the generic
  algorithm written out here. The lemmas show that addition and doubling stay on the curve, that the
  compressed encoding is canonical, that negation commutes with all operations, and from it that a
  signature exists on which verification panics.
\<close>

section \<open>Panics and \<open>math/big\<close>\<close>

datatype 'a go = Panics | Returns 'a

fun go_bind :: "'a go \<Rightarrow> ('a \<Rightarrow> 'b go) \<Rightarrow> 'b go" where
  "go_bind Panics f = Panics"
| "go_bind (Returns x) f = f x"

definition big_SetBytes :: "byte list \<Rightarrow> int" where
  "big_SetBytes bs = int (le_val (rev bs))"

text \<open>\<open>Bytes\<close>: the absolute value, big-endian, without leading zeros.\<close>

fun min_le_bytes :: "nat \<Rightarrow> byte list" where
  "min_le_bytes n = (if n = 0 then [] else of_nat n # min_le_bytes (n div 256))"

declare min_le_bytes.simps [simp del]

definition big_Bytes :: "int \<Rightarrow> byte list" where
  "big_Bytes z = rev (min_le_bytes (nat \<bar>z\<bar>))"

text \<open>\<open>FillBytes\<close> of a buffer of \<open>k\<close> bytes panics when the value does not fit.\<close>

definition big_FillBytes :: "nat \<Rightarrow> int \<Rightarrow> byte list go" where
  "big_FillBytes k z =
     (if nat \<bar>z\<bar> < 256 ^ k then Returns (rev (le_bytes k (nat \<bar>z\<bar>))) else Panics)"

text \<open>\<open>Exp(x, e, m)\<close> for \<open>e \<ge> 0\<close>, \<open>m > 0\<close>, by squaring.\<close>

fun big_Exp :: "int \<Rightarrow> nat \<Rightarrow> int \<Rightarrow> int" where
  "big_Exp x e m =
     (if e = 0 then 1 mod m
      else let h = big_Exp x (e div 2) m; s = h * h mod m
           in if even e then s else s * x mod m)"

declare big_Exp.simps [simp del]

text \<open>The extended Euclidean algorithm on non-negative numbers: \<open>(g, u, v)\<close> with \<open>g = u * a + v * b\<close>.\<close>

function egcd :: "int \<Rightarrow> int \<Rightarrow> int \<times> int \<times> int" where
  "egcd a b =
     (if b \<le> 0 then (a, 1, 0)
      else case egcd b (a mod b) of (g, u, v) \<Rightarrow> (g, v, u - (a div b) * v))"
  by auto

termination
  by (relation "measure (\<lambda>(a, b). nat b)") auto

declare egcd.simps [simp del]

text \<open>\<open>ModInverse(a, n)\<close>; Go returns nil, and leaves its receiver alone, when there is none.\<close>

definition big_ModInverse :: "int \<Rightarrow> int \<Rightarrow> int option" where
  "big_ModInverse a n =
     (case egcd (a mod n) n of (g, u, v) \<Rightarrow> if g = 1 then Some (u mod n) else None)"

section \<open>The curve\<close>

definition curve_P :: int where
  "curve_P = 0xFFFFFFFFFFFFFFFFFFFFFFFFFFFFFFFFFFFFFFFFFFFFFFFFFFFFFFFEFFFFFC2F"

definition curve_N :: int where
  "curve_N = 0xFFFFFFFFFFFFFFFFFFFFFFFFFFFFFFFEBAAEDCE6AF48A03BBFD25E8CD0364141"

definition curve_B :: int where
  "curve_B = 7"

definition curve_Gx :: int where
  "curve_Gx = 0x79BE667EF9DCBBAC55A06295CE870B07029BFCDB2DCE28D959F2815B16F81798"

definition curve_Gy :: int where
  "curve_Gy = 0x483ADA7726A3C4655DA4FBFC0E1108A8FD17B448A68554199C47D08FFB10D4B8"

type_synonym point = "(int \<times> int) option"

fun IsOnCurve :: "point \<Rightarrow> bool" where
  "IsOnCurve None = False"
| "IsOnCurve (Some (x, y)) \<longleftrightarrow>
     \<not> (x < 0 \<or> y < 0 \<or> x \<ge> curve_P \<or> y \<ge> curve_P)
     \<and> y * y mod curve_P = (x * x * x + curve_B) mod curve_P"

text \<open>\<open>den.ModInverse(den.Mod(den, p), p)\<close>: the inverse, or \<open>den\<close> reduced when there is none.\<close>

definition slope_inverse :: "int \<Rightarrow> int" where
  "slope_inverse den =
     (case big_ModInverse (den mod curve_P) curve_P of None \<Rightarrow> den mod curve_P | Some i \<Rightarrow> i)"

text \<open>The third intersection of a line of slope \<open>lam\<close>, which addition and doubling share.\<close>

definition chord_point :: "int \<Rightarrow> int \<times> int \<Rightarrow> int \<Rightarrow> int \<times> int" where
  "chord_point lam P1 x2 =
     (case P1 of (x1, y1) \<Rightarrow>
        let x3 = (lam * lam - x1 - x2) mod curve_P;
            y3 = (lam * (x1 - x3) - y1) mod curve_P
        in (x3, y3))"

fun curve_Double :: "point \<Rightarrow> point" where
  "curve_Double None = None"
| "curve_Double (Some (x1, y1)) =
     (if y1 = 0 then None
      else
        let lam = 3 * (x1 * x1) * slope_inverse (2 * y1) mod curve_P
        in Some (chord_point lam (x1, y1) x1))"

fun curve_Add :: "point \<Rightarrow> point \<Rightarrow> point go" where
  "curve_Add None None = Panics"
| "curve_Add None (Some Q) = Returns (Some Q)"
| "curve_Add (Some P) None = Returns (Some P)"
| "curve_Add (Some (x1, y1)) (Some (x2, y2)) = Returns
     (if x1 = x2 then
        (if (y1 + y2) mod curve_P = 0 then None else curve_Double (Some (x1, y1)))
      else
        let lam = (y2 - y1) * slope_inverse (x2 - x1) mod curve_P
        in Some (chord_point lam (x1, y1) x2))"

text \<open>The loop over the bits of \<open>k\<close>, most significant first; doubling is skipped while \<open>x\<close> is nil.\<close>

definition byte_bits :: "byte \<Rightarrow> bool list" where
  "byte_bits b = map (\<lambda>i. b AND push_bit i 1 \<noteq> 0) [7, 6, 5, 4, 3, 2, 1, 0]"

fun scalar_loop :: "int \<times> int \<Rightarrow> bool list \<Rightarrow> point \<Rightarrow> point go" where
  "scalar_loop B [] X = Returns X"
| "scalar_loop B (b # bs) X =
     (let X = (if X \<noteq> None then curve_Double X else X)
      in if b then go_bind (curve_Add X (Some B)) (scalar_loop B bs) else scalar_loop B bs X)"

definition ScalarMult :: "int \<times> int \<Rightarrow> byte list \<Rightarrow> point go" where
  "ScalarMult B k = scalar_loop B (concat (map byte_bits k)) None"

definition ScalarBaseMult :: "byte list \<Rightarrow> point go" where
  "ScalarBaseMult k = ScalarMult (curve_Gx, curve_Gy) k"

section \<open>Compressed points\<close>

text \<open>Reading a bit of a nil coordinate panics.\<close>

fun marshalCompressed :: "point \<Rightarrow> byte list go" where
  "marshalCompressed None = Panics"
| "marshalCompressed (Some (x, y)) =
     go_bind (big_FillBytes 32 x) (\<lambda>out. Returns ((if even y then 2 else 3) # out))"

fun unmarshalCompressed :: "byte list \<Rightarrow> point" where
  "unmarshalCompressed [] = None"
| "unmarshalCompressed (b # bs) =
     (if length (b # bs) \<noteq> 33 \<or> (b \<noteq> 2 \<and> b \<noteq> 3) then None
      else
        let x = big_SetBytes bs
        in if x \<ge> curve_P then None
           else
             let y2 = (x * x * x + 7) mod curve_P;
                 exponent = drop_bit 2 (curve_P + 1);
                 y = big_Exp y2 (nat exponent) curve_P;
                 y = (if y mod 2 \<noteq> uint (b AND 1) then curve_P - y else y)
             in if IsOnCurve (Some (x, y)) then Some (x, y) else None)"

section \<open>\<open>crypto/ecdsa\<close>\<close>

text \<open>
  \<open>Verify\<close> on a curve outside the standard library. The hash has as many bits as the order, so it is
  taken whole. \<open>x.Sign()\<close> of a nil coordinate panics, as does multiplying by a missing inverse.
\<close>

definition ecdsa_Verify :: "int \<times> int \<Rightarrow> hash \<Rightarrow> int \<Rightarrow> int \<Rightarrow> bool go" where
  "ecdsa_Verify pub h r s =
     (if r \<le> 0 \<or> s \<le> 0 \<or> r \<ge> curve_N \<or> s \<ge> curve_N then Returns False
      else case big_ModInverse s curve_N of
        None \<Rightarrow> Panics
      | Some w \<Rightarrow>
          let u1 = uint h * w mod curve_N;
              u2 = r * w mod curve_N
          in go_bind (ScalarBaseMult (big_Bytes u1)) (\<lambda>P1.
             go_bind (ScalarMult pub (big_Bytes u2)) (\<lambda>P2.
             go_bind (curve_Add P1 P2) (\<lambda>P.
             case P of
               None \<Rightarrow> Panics
             | Some (x, y) \<Rightarrow>
                 if x = 0 \<and> y = 0 then Returns False else Returns (x mod curve_N = r)))))"

section \<open>Lemmas: \<open>math/big\<close>\<close>

lemma egcd_gcd:
  "0 \<le> a \<Longrightarrow> 0 \<le> b \<Longrightarrow> egcd a b = (g, u, v) \<Longrightarrow> g = gcd a b \<and> u * a + v * b = g"
proof (induction a b arbitrary: g u v rule: egcd.induct)
  case (1 a b)
  show ?case
  proof (cases "b \<le> 0")
    case True
    then have "b = 0" using "1.prems"(2) by simp
    then show ?thesis using "1.prems"(1,3) by (auto simp: egcd.simps [of a 0])
  next
    case False
    obtain g' u' v' where e: "egcd b (a mod b) = (g', u', v')" by (cases "egcd b (a mod b)")
    have "g' = gcd b (a mod b)" and b: "u' * b + v' * (a mod b) = g'"
      using "1.IH" [OF False _ _ e] False by simp_all
    then have g: "g' = gcd a b" by (metis gcd.commute gcd_red_int)
    have "g = g'" "u = v'" "v = u' - a div b * v'"
      using "1.prems"(3) e False by (auto simp: egcd.simps [of a b])
    moreover have "v' * (a mod b) = v' * a - a div b * v' * b"
      by (simp add: algebra_simps flip: minus_div_mult_eq_mod)
    ultimately have "u * a + v * b = u' * b + v' * (a mod b)"
      by (simp only: left_diff_distrib)
    then show ?thesis using b g \<open>g = g'\<close> by simp
  qed
qed

lemma big_ModInverse_Some:
  assumes "1 < n" and "big_ModInverse a n = Some i"
  shows "0 \<le> i" and "i < n" and "a * i mod n = 1"
proof -
  obtain g u v where e: "egcd (a mod n) n = (g, u, v)" by (cases "egcd (a mod n) n")
  then have g: "g = 1" and i: "i = u mod n" using assms(2) by (auto simp: big_ModInverse_def split: if_splits)
  have "u * (a mod n) + v * n = 1" using egcd_gcd [OF _ _ e] assms(1) g by simp
  then have "(u * (a mod n) + v * n) mod n = 1 mod n" by simp
  then show "a * i mod n = 1" using assms(1) i by (simp add: mod_simps mult.commute)
  show "0 \<le> i" "i < n" using assms(1) i by simp_all
qed

lemma big_ModInverse_None_iff:
  assumes "1 < n"
  shows "big_ModInverse a n = None \<longleftrightarrow> gcd a n \<noteq> 1"
proof -
  obtain g u v where e: "egcd (a mod n) n = (g, u, v)" by (cases "egcd (a mod n) n")
  have "g = gcd (a mod n) n" using egcd_gcd [OF _ _ e] assms by simp
  then have "g = gcd a n" by (metis gcd.commute gcd_red_int)
  then show ?thesis using e by (simp add: big_ModInverse_def)
qed

text \<open>The inverse is determined by its two properties.\<close>

lemma big_ModInverse_unique:
  assumes n: "1 < n" and j: "0 \<le> j" "j < n" "a * j mod n = 1"
  shows "big_ModInverse a n = Some j"
proof -
  have "gcd a n = 1"
  proof -
    have "gcd a n dvd a * j mod n" by (simp add: dvd_mod)
    then show ?thesis using j(3) by simp
  qed
  then obtain i where i: "big_ModInverse a n = Some i"
    using big_ModInverse_None_iff [OF n, of a] by (cases "big_ModInverse a n") auto
  have "i = i * 1 mod n" using big_ModInverse_Some [OF n i] by simp
  also have "\<dots> = i * (a * j mod n) mod n" using j(3) by simp
  also have "\<dots> = (a * i mod n) * j mod n" by (simp add: mod_simps ac_simps)
  also have "\<dots> = j" using big_ModInverse_Some(3) [OF n i] j by simp
  finally show ?thesis using i by simp
qed

lemma big_ModInverse_mod: "big_ModInverse (a mod n) n = big_ModInverse a n"
  by (simp add: big_ModInverse_def)

section \<open>Lemmas: negation\<close>

text \<open>
  Only that the modulus is greater than one is used of it here; whether it is prime does not matter.
\<close>

lemma curve_P_gt: "1 < curve_P"
  by (simp add: curve_P_def)

lemma slope_inverse_neg: "slope_inverse (- d) = (- slope_inverse d) mod curve_P"
proof (cases "big_ModInverse d curve_P")
  case None
  then have "big_ModInverse (- d) curve_P = None"
    using big_ModInverse_None_iff [OF curve_P_gt, of d] big_ModInverse_None_iff [OF curve_P_gt, of "- d"]
    by simp
  then show ?thesis using None by (simp add: slope_inverse_def big_ModInverse_mod mod_minus_eq)
next
  case (Some i)
  note i = big_ModInverse_Some [OF curve_P_gt Some]
  have "(- d) * ((- i) mod curve_P) mod curve_P = d * i mod curve_P"
    using mod_mult_right_eq [of "- d" "- i" curve_P] by simp
  then have "big_ModInverse (- d) curve_P = Some ((- i) mod curve_P)"
    using i(3) curve_P_gt by (intro big_ModInverse_unique) simp_all
  then show ?thesis using Some by (simp add: slope_inverse_def big_ModInverse_mod)
qed

lemma slope_inverse_mod: "slope_inverse (d mod curve_P) = slope_inverse d"
  by (simp add: slope_inverse_def split: option.splits)

definition neg_point :: "int \<times> int \<Rightarrow> int \<times> int" where
  "neg_point Q = (fst Q, (- snd Q) mod curve_P)"

text \<open>Congruence modulo the prime of the curve, with rules that remove inner reductions.\<close>

definition eqP :: "int \<Rightarrow> int \<Rightarrow> bool" where
  "eqP a b \<longleftrightarrow> a mod curve_P = b mod curve_P"

named_theorems eqP_intros \<open>congruence rules of \<open>eqP\<close>\<close>

lemma eqP_mod [eqP_intros]: "eqP a b \<Longrightarrow> eqP (a mod curve_P) b"
  by (simp add: eqP_def)

lemma eqP_add [eqP_intros]: "eqP a b \<Longrightarrow> eqP c d \<Longrightarrow> eqP (a + c) (b + d)"
  unfolding eqP_def by (rule mod_add_cong)

lemma eqP_diff [eqP_intros]: "eqP a b \<Longrightarrow> eqP c d \<Longrightarrow> eqP (a - c) (b - d)"
  unfolding eqP_def by (rule mod_diff_cong)

lemma eqP_mult [eqP_intros]: "eqP a b \<Longrightarrow> eqP c d \<Longrightarrow> eqP (a * c) (b * d)"
  unfolding eqP_def by (rule mod_mult_cong)

lemma eqP_minus [eqP_intros]: "eqP a b \<Longrightarrow> eqP (- a) (- b)"
  unfolding eqP_def by (metis mod_minus_eq)

lemma eqP_refl [eqP_intros]: "eqP a a"
  by (simp add: eqP_def)

lemma eqP_trans_eq: "eqP a b \<Longrightarrow> b = b' \<Longrightarrow> eqP c b' \<Longrightarrow> a mod curve_P = c mod curve_P"
  by (simp add: eqP_def)

lemma chord_point_neg:
  "chord_point ((- lam) mod curve_P) (neg_point (x1, y1)) x2 = neg_point (chord_point lam (x1, y1) x2)"
proof -
  let ?n = "(- lam) mod curve_P"
  have x: "(?n * ?n - x1 - x2) mod curve_P = (lam * lam - x1 - x2) mod curve_P"
    by (rule eqP_trans_eq [of _ "(- lam) * (- lam) - x1 - x2"]) (intro eqP_intros | simp)+
  have y: "(?n * (x1 - x3) - (- y1) mod curve_P) mod curve_P
      = (- ((lam * (x1 - x3) - y1) mod curve_P)) mod curve_P" for x3
    by (rule eqP_trans_eq [of _ "(- lam) * (x1 - x3) - (- y1)" "- (lam * (x1 - x3) - y1)"])
      (intro eqP_intros | simp)+
  show ?thesis unfolding chord_point_def neg_point_def Let_def by (simp only: prod.case fst_conv snd_conv x y)
qed

definition y_reduced :: "point \<Rightarrow> bool" where
  "y_reduced X \<longleftrightarrow> (case X of None \<Rightarrow> True | Some (x, y) \<Rightarrow> 0 \<le> y \<and> y < curve_P)"

lemma y_reduced_chord: "y_reduced (Some (chord_point lam Q x2))"
  using curve_P_gt by (simp add: y_reduced_def chord_point_def Let_def split: prod.splits)

lemma y_reduced_Double: "y_reduced (curve_Double X)"
  by (cases X rule: curve_Double.cases) (simp_all add: y_reduced_chord y_reduced_def [of None] Let_def)

lemma y_reduced_Add: "y_reduced X \<Longrightarrow> y_reduced Y \<Longrightarrow> curve_Add X Y = Returns Z \<Longrightarrow> y_reduced Z"
  by (cases "(X, Y)" rule: curve_Add.cases)
    (auto simp: y_reduced_chord y_reduced_Double y_reduced_def [of None] Let_def
      simp del: curve_Double.simps split: if_splits)

lemma curve_Double_neg:
  assumes "y_reduced X"
  shows "curve_Double (map_option neg_point X) = map_option neg_point (curve_Double X)"
proof (cases X)
  case (Some Q)
  obtain x y where Q: "Q = (x, y)" by (cases Q)
  have y: "0 \<le> y" "y < curve_P" using assms Some Q by (simp_all add: y_reduced_def)
  then have zero: "(- y) mod curve_P = 0 \<longleftrightarrow> y = 0" by (simp add: zmod_zminus1_eq_if)
  have "slope_inverse (2 * ((- y) mod curve_P)) = slope_inverse (2 * ((- y) mod curve_P) mod curve_P)"
    by (simp only: slope_inverse_mod)
  also have "2 * ((- y) mod curve_P) mod curve_P = (- (2 * y)) mod curve_P" by (simp add: mod_simps)
  finally have inv: "slope_inverse (2 * ((- y) mod curve_P)) = (- slope_inverse (2 * y)) mod curve_P"
    by (simp only: slope_inverse_mod slope_inverse_neg)
  have lam: "3 * (x * x) * slope_inverse (2 * ((- y) mod curve_P)) mod curve_P
      = (- (3 * (x * x) * slope_inverse (2 * y) mod curve_P)) mod curve_P"
    unfolding inv by (simp add: mod_simps)
  show ?thesis
    using lam chord_point_neg [of "3 * (x * x) * slope_inverse (2 * y) mod curve_P" x y x]
    by (simp add: Some Q neg_point_def zero Let_def)
qed simp

lemma curve_Add_neg:
  assumes "y_reduced X" and "y_reduced (Some B)" and "curve_Add X (Some B) = Returns Z"
  shows "curve_Add (map_option neg_point X) (Some (neg_point B)) = Returns (map_option neg_point Z)"
proof (cases X)
  case None
  then show ?thesis using assms(3) by auto
next
  case (Some Q)
  obtain x y where Q: "Q = (x, y)" by (cases Q)
  obtain bx b where B: "B = (bx, b)" by (cases B)
  have sum: "((- y) mod curve_P + (- b) mod curve_P) mod curve_P = 0 \<longleftrightarrow> (y + b) mod curve_P = 0"
  proof -
    have "((- y) mod curve_P + (- b) mod curve_P) mod curve_P = (- (y + b)) mod curve_P"
      by (simp add: mod_simps)
    also have "\<dots> = 0 \<longleftrightarrow> (y + b) mod curve_P = 0"
      by (simp only: mod_eq_0_iff_dvd dvd_minus_iff)
    finally show ?thesis .
  qed
  have lam: "((- b) mod curve_P - (- y) mod curve_P) * i mod curve_P
      = (- ((b - y) * i mod curve_P)) mod curve_P" for i
    by (rule eqP_trans_eq [of _ "((- b) - (- y)) * i" "- ((b - y) * i)"])
      ((intro eqP_intros)+ | simp add: algebra_simps)+
  have dbl: "curve_Double (Some (neg_point (x, y))) = map_option neg_point (curve_Double (Some (x, y)))"
    using curve_Double_neg [OF assms(1)] by (simp only: Some Q option.map)
  show ?thesis
    using assms(3) dbl chord_point_neg [of "(b - y) * slope_inverse (bx - x) mod curve_P" x y bx]
    by (auto simp: Some Q B neg_point_def sum lam Let_def simp del: curve_Double.simps)
qed

lemma scalar_loop_Returns: "\<exists>Z. scalar_loop B bs X = Returns Z"
proof (induction bs arbitrary: X)
  case (Cons b bs)
  have "\<exists>Z. curve_Add Y (Some B) = Returns Z" for Y
    by (cases "(Y, Some B)" rule: curve_Add.cases) auto
  then obtain Z where "curve_Add (if X \<noteq> None then curve_Double X else X) (Some B) = Returns Z" by blast
  then show ?case using Cons.IH by (auto simp: Let_def simp del: not_None_eq)
qed simp

lemma scalar_loop_neg:
  assumes "y_reduced (Some B)"
  shows "y_reduced X \<Longrightarrow> scalar_loop B bs X = Returns Z \<Longrightarrow>
    scalar_loop (neg_point B) bs (map_option neg_point X) = Returns (map_option neg_point Z)"
proof (induction bs arbitrary: X)
  case Nil
  then show ?case by simp
next
  case (Cons b bs)
  define D where "D = (if X \<noteq> None then curve_Double X else X)"
  have D: "y_reduced D" using Cons.prems(1) y_reduced_Double by (simp add: D_def)
  have negD: "(if map_option neg_point X \<noteq> None then curve_Double (map_option neg_point X)
      else map_option neg_point X) = map_option neg_point D"
    using curve_Double_neg [OF Cons.prems(1)] by (simp add: D_def)
  show ?case
  proof (cases b)
    case True
    then obtain E where E: "curve_Add D (Some B) = Returns E" "scalar_loop B bs E = Returns Z"
      using Cons.prems(2) by (cases "curve_Add D (Some B)") (auto simp: Let_def D_def simp del: not_None_eq)
    have "scalar_loop (neg_point B) bs (map_option neg_point E) = Returns (map_option neg_point Z)"
      using Cons.IH [OF y_reduced_Add [OF D assms E(1)] E(2)] .
    then show ?thesis using True negD curve_Add_neg [OF D assms E(1)] by (simp add: Let_def)
  next
    case False
    then have "scalar_loop B bs D = Returns Z" using Cons.prems(2) by (simp add: Let_def D_def del: not_None_eq)
    then show ?thesis using False negD Cons.IH [OF D] by (simp add: Let_def)
  qed
qed

lemma ScalarMult_neg:
  "y_reduced (Some B) \<Longrightarrow> ScalarMult B k = Returns Z \<Longrightarrow>
     ScalarMult (neg_point B) k = Returns (map_option neg_point Z)"
  using scalar_loop_neg [of B None "concat (map byte_bits k)" Z] by (simp add: ScalarMult_def y_reduced_def)

lemma curve_Add_inverse:
  "curve_Add Z (map_option neg_point Z) = (if Z = None then Panics else Returns None)"
  by (cases Z) (auto simp: neg_point_def mod_simps split: prod.splits)

definition neg_G :: "int \<times> int" where
  "neg_G = (curve_Gx, curve_P - curve_Gy)"

lemma neg_G_eq: "neg_point (curve_Gx, curve_Gy) = neg_G"
  by (simp add: neg_point_def neg_G_def curve_P_def curve_Gy_def)

text \<open>
  C35. Verification can be made to panic. For the public key \<open>-G\<close> (private key \<open>n - 1\<close>) and any message
  hash that is not a multiple of the order, the signature whose \<open>r\<close> is the hash reduced and whose \<open>s\<close>
  is any number in range makes the two scalar products cancel; the curve answers with nil
  coordinates and the verifier dereferences them.
\<close>

theorem ecdsa_Verify_panics:
  assumes "r = uint h mod curve_N" and "r \<noteq> 0" and "0 < s" and "s < curve_N"
  shows "ecdsa_Verify neg_G h r s = Panics"
proof -
  have N: "0 < curve_N" by (simp add: curve_N_def)
  then have r: "0 < r" "r < curve_N" using assms(1,2) by (simp_all add: order.not_eq_order_implies_strict)
  show ?thesis
  proof (cases "big_ModInverse s curve_N")
    case None
    then show ?thesis using r assms(3,4) by (simp add: ecdsa_Verify_def)
  next
    case (Some w)
    define k where "k = big_Bytes (uint h * w mod curve_N)"
    have k: "big_Bytes (r * w mod curve_N) = k" by (simp add: k_def assms(1) mod_mult_left_eq)
    obtain Z where Z: "ScalarBaseMult k = Returns Z"
      using scalar_loop_Returns unfolding ScalarBaseMult_def ScalarMult_def by blast
    have "y_reduced (Some (curve_Gx, curve_Gy))" by (simp add: y_reduced_def curve_Gy_def curve_P_def)
    then have "ScalarMult neg_G k = Returns (map_option neg_point Z)"
      using Z ScalarMult_neg by (simp add: ScalarBaseMult_def flip: neg_G_eq)
    then show ?thesis
      using Z Some r assms(3,4) by (simp add: ecdsa_Verify_def k k_def [symmetric] curve_Add_inverse)
  qed
qed

theorem ecdsa_Verify_panics_witness: "ecdsa_Verify neg_G 5 5 1 = Panics"
  by (rule ecdsa_Verify_panics) (simp_all add: curve_N_def)

section \<open>Lemmas: compressed points\<close>

lemma curve_P_odd: "odd curve_P"
  by (simp add: curve_P_def)

lemma curve_P_less: "curve_P < 256 ^ 32"
  by (simp add: curve_P_def)

lemma big_FillBytes_SetBytes: "length bs = k \<Longrightarrow> big_FillBytes k (big_SetBytes bs) = Returns bs"
  using le_val_bound [of "rev bs"] le_bytes_le_val [of "rev bs"] by (simp add: big_FillBytes_def big_SetBytes_def)

lemma big_SetBytes_FillBytes: "big_FillBytes k z = Returns bs \<Longrightarrow> big_SetBytes bs = \<bar>z\<bar> \<and> length bs = k"
  by (auto simp: big_FillBytes_def big_SetBytes_def le_val_le_bytes split: if_splits)

text \<open>
  The compressed encoding is canonical: a byte string that decodes at all decodes to a point of
  the curve, and encoding that point gives the byte string back. So no point has two encodings that
  the verifier accepts, and a hash of the encoding determines the key.
\<close>

theorem unmarshalCompressed_canonical:
  assumes "unmarshalCompressed pub = Some Q"
  shows "IsOnCurve (Some Q) \<and> marshalCompressed (Some Q) = Returns pub"
proof -
  obtain b bs where pub: "pub = b # bs" using assms by (cases pub) auto
  obtain x y where Q: "Q = (x, y)" by (cases Q)
  have guards: "length bs = 32" "b = 2 \<or> b = 3" "x = big_SetBytes bs" and on: "IsOnCurve (Some (x, y))"
    using assms by (auto simp: pub Q Let_def simp del: IsOnCurve.simps split: if_splits)
  have bit: "uint (b AND 1) = (if b = 2 then 0 else 1)" using guards(2) by auto
  define z where "z = big_Exp ((x * x * x + 7) mod curve_P) (nat (drop_bit 2 (curve_P + 1))) curve_P"
  have "y = (if z mod 2 \<noteq> uint (b AND 1) then curve_P - z else z)"
    using assms unfolding z_def
    by (auto simp: pub Q Let_def simp del: IsOnCurve.simps split: if_splits)
  then have "even y \<longleftrightarrow> b = 2"
    using curve_P_odd by (cases "b = 2"; cases "even z") (simp_all add: bit odd_iff_mod_2_eq_one [THEN iffD1])
  then have "(if even y then 2 else 3) = b" using guards(2) by auto
  then show ?thesis
    using on guards(1,3) big_FillBytes_SetBytes [of bs 32] by (simp add: pub Q del: IsOnCurve.simps)
qed

text \<open>A point whose ordinate is one, so that its square root needs no computation.\<close>

definition demo_x :: int where
  "demo_x = 14420825845716772930243294451304383010336953996540286189290595400563546912007"

lemma demo_x_curve: "eqP (demo_x * demo_x * demo_x + 7) 1"
proof -
  have "demo_x * demo_x = 1795979496028246438875851590964490038264600962447959965899362204385004674604 * curve_P
      + 50643055239449741553649878699577277448582115977271122792075977120178906221597"
    by (simp add: demo_x_def curve_P_def)
  then have "eqP (demo_x * demo_x) 50643055239449741553649878699577277448582115977271122792075977120178906221597"
    by (simp add: eqP_def)
  then have "eqP (demo_x * demo_x * demo_x + 7)
      (50643055239449741553649878699577277448582115977271122792075977120178906221597 * demo_x + 7)"
    by (intro eqP_intros)
  moreover have "50643055239449741553649878699577277448582115977271122792075977120178906221597 * demo_x + 6
      = 6307120673903181635041111155480799400392242013997528714046338780452981034495 * curve_P"
    by (simp add: demo_x_def curve_P_def)
  then have "50643055239449741553649878699577277448582115977271122792075977120178906221597 * demo_x + 7
      = 6307120673903181635041111155480799400392242013997528714046338780452981034495 * curve_P + 1" by simp
  then have "eqP (50643055239449741553649878699577277448582115977271122792075977120178906221597 * demo_x + 7) 1"
    by (simp only: eqP_def mod_mult_self3)
  ultimately show ?thesis by (simp add: eqP_def)
qed

lemma big_Exp_power: "big_Exp x e m = x ^ e mod m"
proof (induction x e m rule: big_Exp.induct)
  case (1 x e m)
  show ?case
  proof (cases "e = 0")
    case False
    define h where "h = x ^ (e div 2) mod m"
    have half: "h * h mod m = x ^ (e div 2 + e div 2) mod m" by (simp add: h_def mod_mult_eq power_add)
    have "big_Exp x e m = (if even e then h * h mod m else h * h mod m * x mod m)"
      using 1 False by (simp add: big_Exp.simps [of x e m] Let_def h_def)
    also have "\<dots> = x ^ (e div 2 + e div 2 + e mod 2) mod m"
      unfolding half by (cases "even e") (simp_all add: mod_mult_right_eq mod_2_eq_odd mult.commute [of _ x])
    also have "e div 2 + e div 2 + e mod 2 = e" by presburger
    finally show ?thesis .
  qed (simp add: big_Exp.simps)
qed

definition demo_key :: "byte list" where
  "demo_key = 3 # hash_bytes 14420825845716772930243294451304383010336953996540286189290595400563546912007"

lemma big_SetBytes_hash: "big_SetBytes (hash_bytes h) = uint h"
proof -
  have "unat h < 256 ^ 32" using unsigned_less [of h, where 'a = nat] by simp
  then show ?thesis by (simp add: big_SetBytes_def hash_bytes_def le_val_le_bytes)
qed

lemma demo_range: "\<not> curve_P \<le> demo_x" "\<not> demo_x < 0" "\<not> curve_P \<le> 1"
  by (simp_all add: demo_x_def curve_P_def)

lemma demo_x_cube: "(demo_x * demo_x * demo_x + 7) mod curve_P = 1" "1 mod curve_P = 1"
  using demo_x_curve curve_P_gt by (simp_all add: eqP_def)

lemma demo_on_curve: "IsOnCurve (Some (demo_x, 1))"
  using demo_range demo_x_cube by (simp add: curve_B_def)

lemma unmarshalCompressed_demo_key: "unmarshalCompressed demo_key = Some (demo_x, 1)"
proof -
  have x: "big_SetBytes (hash_bytes 14420825845716772930243294451304383010336953996540286189290595400563546912007) = demo_x"
    by (simp add: big_SetBytes_hash demo_x_def)
  show ?thesis
    using demo_range demo_x_cube demo_on_curve
    by (simp add: demo_key_def x big_Exp_power del: IsOnCurve.simps)
qed

theorem unmarshalCompressed_canonical_witness:
  "unmarshalCompressed demo_key = Some (demo_x, 1) \<and> marshalCompressed (Some (demo_x, 1)) = Returns demo_key"
  using unmarshalCompressed_canonical [OF unmarshalCompressed_demo_key] unmarshalCompressed_demo_key by simp

section \<open>Lemmas: addition stays on the curve\<close>

text \<open>
  The line through two points meets the curve in a third. \<open>line_residue\<close> is the linear remainder of
  the curve equation on the line by the product of its three roots; it vanishes at the second root.
\<close>

definition line_residue :: "int \<Rightarrow> int \<Rightarrow> int \<Rightarrow> int \<Rightarrow> int" where
  "line_residue lam x1 y1 x2 =
     - 2 * lam * (y1 - lam * x1) - (x1 * x2 + (lam * lam - x1 - x2) * (x1 + x2))"

lemma line_third_root:
  fixes lam x1 x2 :: int
  defines "s \<equiv> lam * lam - x1 - x2"
  shows "s * s * s + c - (lam * (x1 - s) - y1) * (lam * (x1 - s) - y1)
    = (x1 * x1 * x1 + c - y1 * y1) + line_residue lam x1 y1 x2 * (s - x1)"
  unfolding s_def line_residue_def by (simp add: algebra_simps)

lemma IsOnCurve_dvd:
  "IsOnCurve (Some (x, y)) \<longleftrightarrow> 0 \<le> x \<and> 0 \<le> y \<and> x < curve_P \<and> y < curve_P
     \<and> curve_P dvd x * x * x + curve_B - y * y"
  by (auto simp: not_le not_less mod_eq_dvd_iff [symmetric])

lemma chord_on_curve:
  assumes on: "IsOnCurve (Some (x1, y1))" and dvd: "curve_P dvd line_residue lam x1 y1 x2"
  shows "IsOnCurve (Some (chord_point lam (x1, y1) x2))"
proof -
  define s where "s = lam * lam - x1 - x2"
  define x3 where "x3 = s mod curve_P"
  define y3 where "y3 = (lam * (x1 - x3) - y1) mod curve_P"
  have "curve_P dvd s * s * s + curve_B - (lam * (x1 - s) - y1) * (lam * (x1 - s) - y1)"
    unfolding s_def line_third_root using on dvd by (intro dvd_add dvd_mult2) (simp_all only: IsOnCurve_dvd)
  moreover have "eqP (x3 * x3 * x3 + curve_B - y3 * y3)
      (s * s * s + curve_B - (lam * (x1 - s) - y1) * (lam * (x1 - s) - y1))"
    unfolding x3_def y3_def by (intro eqP_intros)
  ultimately have "curve_P dvd x3 * x3 * x3 + curve_B - y3 * y3"
    by (simp add: eqP_def mod_eq_0_iff_dvd [symmetric])
  then have "IsOnCurve (Some (x3, y3))"
    using curve_P_gt by (simp add: IsOnCurve_dvd x3_def y3_def del: IsOnCurve.simps)
  then show ?thesis by (simp add: chord_point_def Let_def x3_def y3_def s_def del: IsOnCurve.simps)
qed

text \<open>A factor with an inverse can be cancelled.\<close>

lemma slope_inverse_works: "gcd d curve_P = 1 \<Longrightarrow> eqP (d * slope_inverse d) 1"
proof -
  assume "gcd d curve_P = 1"
  then obtain i where i: "big_ModInverse d curve_P = Some i"
    using big_ModInverse_None_iff [OF curve_P_gt, of d] by (cases "big_ModInverse d curve_P") auto
  then show ?thesis
    using big_ModInverse_Some(3) [OF curve_P_gt i] curve_P_gt
    by (simp add: slope_inverse_def big_ModInverse_mod eqP_def)
qed

lemma curve_P_dvd_cancel: "gcd d curve_P = 1 \<Longrightarrow> curve_P dvd a * d \<Longrightarrow> curve_P dvd a"
  by (simp add: coprime_iff_gcd_eq_1 [symmetric] coprime_dvd_mult_left_iff coprime_commute)

lemma eqP_dvd: "eqP a b \<longleftrightarrow> curve_P dvd a - b"
  by (simp add: eqP_def mod_eq_dvd_iff)

lemma slope_times: "gcd d curve_P = 1 \<Longrightarrow> curve_P dvd (n * slope_inverse d mod curve_P) * d - n"
proof -
  assume "gcd d curve_P = 1"
  then have "eqP (n * (d * slope_inverse d)) (n * 1)" by (intro eqP_intros slope_inverse_works)
  moreover have "eqP ((n * slope_inverse d mod curve_P) * d) (n * slope_inverse d * d)" by (intro eqP_intros)
  ultimately show ?thesis by (simp add: eqP_dvd [symmetric] eqP_def ac_simps)
qed

lemma curve_Double_on_curve:
  assumes on: "IsOnCurve (Some (x, y))" and "gcd (2 * y) curve_P = 1" and "curve_Double (Some (x, y)) = Some Q"
  shows "IsOnCurve (Some Q)"
proof -
  define lam where "lam = 3 * (x * x) * slope_inverse (2 * y) mod curve_P"
  have "curve_P dvd lam * (2 * y) - 3 * (x * x)" unfolding lam_def using assms(2) by (rule slope_times)
  moreover have "line_residue lam x y x = - (lam * (2 * y) - 3 * (x * x))"
    by (simp add: line_residue_def algebra_simps)
  ultimately have "curve_P dvd line_residue lam x y x" by (simp only: dvd_minus_iff)
  then show ?thesis
    using chord_on_curve [OF on] assms(3) by (auto simp: Let_def lam_def simp del: IsOnCurve.simps split: if_splits)
qed

text \<open>
  C36. Addition stays on the curve: whenever the code's sum of two curve points is a point, it is on
  the curve, provided the denominator of the slope has an inverse (which it has for every two
  different abscissas, the modulus being prime).
\<close>

theorem curve_Add_on_curve:
  assumes "IsOnCurve (Some (x1, y1))" and "IsOnCurve (Some (x2, y2))"
    and "gcd (if x1 = x2 then 2 * y1 else x2 - x1) curve_P = 1"
    and "curve_Add (Some (x1, y1)) (Some (x2, y2)) = Returns (Some Q)"
  shows "IsOnCurve (Some Q)"
proof (cases "x1 = x2")
  case True
  then have "curve_Double (Some (x1, y1)) = Some Q"
    using assms(4) by (simp del: curve_Double.simps split: if_splits)
  then show ?thesis using curve_Double_on_curve [OF assms(1)] assms(3) True by simp
next
  case False
  define lam where "lam = (y2 - y1) * slope_inverse (x2 - x1) mod curve_P"
  define t where "t = lam * (x2 - x1) - (y2 - y1)"
  have t: "curve_P dvd t" unfolding t_def lam_def using assms(3) False by (intro slope_times) simp
  have "line_residue lam x1 y1 x2 * (x2 - x1)
      = (x2 * x2 * x2 + curve_B - y2 * y2) - (x1 * x1 * x1 + curve_B - y1 * y1) - t * (2 * y2 + t)"
    unfolding line_residue_def t_def by (simp add: algebra_simps)
  also have "curve_P dvd \<dots>"
    using assms(1,2) by (intro dvd_diff [OF dvd_diff dvd_mult2] t) (simp_all only: IsOnCurve_dvd)
  finally have "curve_P dvd line_residue lam x1 y1 x2"
    by (rule curve_P_dvd_cancel [rotated]) (use assms(3) False in simp)
  then have "IsOnCurve (Some (chord_point lam (x1, y1) x2))" by (rule chord_on_curve [OF assms(1)])
  then show ?thesis using False assms(4) by (simp add: Let_def lam_def del: IsOnCurve.simps)
qed

theorem curve_Add_on_curve_witness:
  "\<exists>Q. curve_Add (Some (demo_x, 1)) (Some (demo_x, 1)) = Returns (Some Q) \<and> IsOnCurve (Some Q)"
proof -
  have "coprime 2 curve_P" using curve_P_odd by simp
  then have g: "gcd (if demo_x = demo_x then 2 * 1 else demo_x - demo_x) curve_P = 1" by simp
  have "2 mod curve_P \<noteq> 0" by (simp add: curve_P_def)
  then obtain Q where "curve_Add (Some (demo_x, 1)) (Some (demo_x, 1)) = Returns (Some Q)"
    by (simp add: Let_def)
  then show ?thesis using curve_Add_on_curve [OF demo_on_curve demo_on_curve g] by blast
qed

end
