(* ===== verification/Wallet.thy ===== *)
theory Wallet
  imports Address Curve Ledger
begin

text \<open>
  \<open>wallet/wallet.go\<close>, \<open>wallet/builder.go\<close> and \<open>wallet/hardware.go\<close>: keys and addresses, the hash a
  signature covers, signing, the verifier the consensus rules call, and the construction of a
  transaction. \<open>ecdsa.GenerateKey\<close> and \<open>ecdsa.Sign\<close> draw random numbers, so their results are
  arguments; \<open>ecdsa.Verify\<close> is the function of theory \<open>Curve\<close>. An operation that dereferences nil
  coordinates or fills a buffer that is too small panics. The lemmas show what a signature covers,
  that a built transaction is signed for the transaction it is part of and conserves value, and that
  a key whose scalar is zero makes the import panic.
\<close>

section \<open>Keys\<close>

record PrivateKey =
  priv_D :: int
  priv_XY :: point

record Wallet =
  wal_PrivateKey :: PrivateKey
  wal_PublicKey :: "byte list"
  wal_Address :: string
  wal_Prefix :: string

definition Hash160 :: "byte list \<Rightarrow> byte list" where
  "Hash160 b = ripemd160Digest (hash_bytes (Sum256 b))"

definition AddressFromPublicKey :: "unicode \<Rightarrow> byte list \<Rightarrow> string \<Rightarrow> error + string" where
  "AddressFromPublicKey U pub prefix =
     (case convertBits (Hash160 pub) 8 5 True of
        Inl e \<Rightarrow> Inl e
      | Inr fiveBit \<Rightarrow> bech32Encode U prefix fiveBit)"

definition FromPrivateKey :: "unicode \<Rightarrow> PrivateKey \<Rightarrow> string \<Rightarrow> (error + Wallet) go" where
  "FromPrivateKey U priv prefix =
     go_bind (marshalCompressed (priv_XY priv)) (\<lambda>pub. Returns
       (case AddressFromPublicKey U pub prefix of
          Inl e \<Rightarrow> Inl e
        | Inr addr \<Rightarrow>
            Inr \<lparr>wal_PrivateKey = priv, wal_PublicKey = pub, wal_Address = addr, wal_Prefix = prefix\<rparr>))"

text \<open>The result of \<open>ecdsa.GenerateKey\<close> is the first argument.\<close>

definition wallet_New :: "error + PrivateKey \<Rightarrow> unicode \<Rightarrow> string \<Rightarrow> (error + Wallet) go" where
  "wallet_New generated U prefix =
     (case generated of Inl e \<Rightarrow> Returns (Inl e) | Inr priv \<Rightarrow> FromPrivateKey U priv prefix)"

definition FromHexPrivateKey :: "unicode \<Rightarrow> string \<Rightarrow> string \<Rightarrow> (error + Wallet) go" where
  "FromHexPrivateKey U h prefix =
     (case hex_DecodeString h of
        Inl e \<Rightarrow> Returns (Inl e)
      | Inr b \<Rightarrow>
          go_bind (ScalarBaseMult b) (\<lambda>XY.
            FromPrivateKey U \<lparr>priv_D = big_SetBytes b, priv_XY = XY\<rparr> prefix))"

definition PrivateKeyHex :: "PrivateKey \<Rightarrow> string" where
  "PrivateKeyHex priv = hex_EncodeToString (big_Bytes (priv_D priv))"

section \<open>Signatures\<close>

definition strip_input :: "Input \<Rightarrow> Input" where
  "strip_input inp = inp\<lparr>in_Signature := [], in_PublicKey := []\<rparr>"

definition SignatureHash :: "Transaction \<Rightarrow> nat \<Rightarrow> byte list \<Rightarrow> hash" where
  "SignatureHash t inputIndex script =
     (let ins = map strip_input (tx_Inputs t);
          ins = (if inputIndex < length ins
                 then ins[inputIndex := (ins ! inputIndex)\<lparr>in_Signature := script\<rparr>] else ins)
      in Sum256d (SerializeTransaction (t\<lparr>tx_Inputs := ins\<rparr>)))"

text \<open>What \<open>ecdsa.Sign\<close> answers for a key and a hash.\<close>

type_synonym signer = "PrivateKey \<Rightarrow> hash \<Rightarrow> error + (int \<times> int)"

definition put_signature :: "Transaction \<Rightarrow> nat \<Rightarrow> byte list \<Rightarrow> byte list \<Rightarrow> Transaction" where
  "put_signature t i sig pub =
     t\<lparr>tx_Inputs := (tx_Inputs t)[i := (tx_Inputs t ! i)\<lparr>in_Signature := sig, in_PublicKey := pub\<rparr>]\<rparr>"

definition SignInput ::
  "signer \<Rightarrow> Wallet \<Rightarrow> Transaction \<Rightarrow> nat \<Rightarrow> byte list \<Rightarrow> (error + Transaction) go" where
  "SignInput ecdsa_Sign w t inputIndex script =
     (if inputIndex \<ge> length (tx_Inputs t) then Returns (Inl (ErrText ''input out of range''))
      else case ecdsa_Sign (wal_PrivateKey w) (SignatureHash t inputIndex script) of
        Inl e \<Rightarrow> Returns (Inl e)
      | Inr (r, s) \<Rightarrow>
          go_bind (big_FillBytes 32 r) (\<lambda>rb.
          go_bind (big_FillBytes 32 s) (\<lambda>sb.
          Returns (Inr (put_signature t inputIndex (rb @ sb) (wal_PublicKey w))))))"

definition VerifyTransactionInput :: "Transaction \<Rightarrow> nat \<Rightarrow> byte list \<Rightarrow> bool go" where
  "VerifyTransactionInput t inputIndex script =
     (if inputIndex \<ge> length (tx_Inputs t) then Returns False
      else case ExtractPubKeyHash script of
        None \<Rightarrow> Returns False
      | Some want \<Rightarrow>
          let inp = tx_Inputs t ! inputIndex
          in if Hash160 (in_PublicKey inp) \<noteq> want then Returns False
             else case unmarshalCompressed (in_PublicKey inp) of
               None \<Rightarrow> Returns False
             | Some Q \<Rightarrow>
                 if length (in_Signature inp) \<noteq> 64 then Returns False
                 else
                   let r = big_SetBytes (take 32 (in_Signature inp));
                       s = big_SetBytes (drop 32 (in_Signature inp))
                   in ecdsa_Verify Q (SignatureHash t inputIndex script) r s)"

section \<open>Hardware wallets\<close>

record HardwareSigner =
  hws_PublicKey :: "byte list"
  hws_Address :: "string \<Rightarrow> error + string"
  hws_SignInput :: "Transaction \<Rightarrow> nat \<Rightarrow> byte list \<Rightarrow> error + byte list"

record HardwareWallet =
  hw_Signer :: "HardwareSigner option"
  hw_Prefix :: string

definition hw_Address :: "HardwareWallet \<Rightarrow> error + string" where
  "hw_Address h =
     (case hw_Signer h of
        None \<Rightarrow> Inl (ErrText ''hardware signer unavailable'')
      | Some S \<Rightarrow> hws_Address S (hw_Prefix h))"

text \<open>Indexing beyond the inputs panics; the signer is asked first.\<close>

definition hw_Sign :: "HardwareWallet \<Rightarrow> Transaction \<Rightarrow> nat \<Rightarrow> byte list \<Rightarrow> (error + Transaction) go" where
  "hw_Sign h t inputIndex script =
     (case hw_Signer h of
        None \<Rightarrow> Returns (Inl (ErrText ''hardware signer unavailable''))
      | Some S \<Rightarrow>
          case hws_SignInput S t inputIndex script of
            Inl e \<Rightarrow> Returns (Inl e)
          | Inr sig \<Rightarrow>
              if inputIndex \<ge> length (tx_Inputs t) then Panics
              else Returns (Inr (put_signature t inputIndex sig (hws_PublicKey S))))"

section \<open>Building a transaction\<close>

text \<open>The loop over the unspent outputs: those selected and their total.\<close>

fun select_utxos :: "u64 \<Rightarrow> UTXO list \<Rightarrow> UTXO list \<Rightarrow> u64 \<Rightarrow> error + (UTXO list \<times> u64)" where
  "select_utxos need [] selected tot = Inr (selected, tot)"
| "select_utxos need (u # us) selected tot =
     (if add_overflows tot (utxo_Amount u) then Inl ErrInflation
      else if tot + utxo_Amount u \<ge> need then Inr (selected @ [u], tot + utxo_Amount u)
      else select_utxos need us (selected @ [u]) (tot + utxo_Amount u))"

text \<open>\<open>for i := range tr.Inputs { w.SignInput(&tr, i, fromScript) }\<close>\<close>

fun sign_inputs :: "signer \<Rightarrow> Wallet \<Rightarrow> byte list \<Rightarrow> nat list \<Rightarrow> Transaction \<Rightarrow> (error + Transaction) go" where
  "sign_inputs ecdsa_Sign w script [] t = Returns (Inr t)"
| "sign_inputs ecdsa_Sign w script (i # is) t =
     go_bind (SignInput ecdsa_Sign w t i script) (\<lambda>res.
       case res of Inl e \<Rightarrow> Returns (Inl e) | Inr t' \<Rightarrow> sign_inputs ecdsa_Sign w script is t')"

definition utxo_input :: "UTXO \<Rightarrow> Input" where
  "utxo_input u = \<lparr>in_PrevTxHash = utxo_TxHash u, in_OutputIdx = utxo_OutputIdx u,
                   in_Signature = [], in_PublicKey = []\<rparr>"

definition BuildTransaction ::
  "unicode \<Rightarrow> signer \<Rightarrow> Wallet \<Rightarrow> (byte list \<Rightarrow> error + UTXO list) \<Rightarrow> string \<Rightarrow> u64 \<Rightarrow> u64
     \<Rightarrow> (error + Transaction) go" where
  "BuildTransaction U ecdsa_Sign w provider toAddress amount fee =
     (if amount = 0 then Returns (Inl (ErrText ''amount must be greater than zero''))
      else if add_overflows amount fee then Returns (Inl ErrInflation)
      else case LockingScriptForAddress U (wal_Address w) (wal_Prefix w) of
        Inl e \<Rightarrow> Returns (Inl e)
      | Inr fromScript \<Rightarrow>
      case LockingScriptForAddress U toAddress (wal_Prefix w) of
        Inl e \<Rightarrow> Returns (Inl e)
      | Inr toScript \<Rightarrow>
      case provider fromScript of
        Inl e \<Rightarrow> Returns (Inl e)
      | Inr utxos \<Rightarrow>
      let need = amount + fee in
      case select_utxos need utxos [] 0 of
        Inl e \<Rightarrow> Returns (Inl e)
      | Inr (selected, tot) \<Rightarrow>
      if tot < need then Returns (Inl (ErrText ''insufficient funds''))
      else
        let change = tot - need;
            outs = [\<lparr>out_Amount = amount, out_LockingScript = toScript\<rparr>]
                   @ (if change > 0 then [\<lparr>out_Amount = change, out_LockingScript = fromScript\<rparr>] else []);
            tr = \<lparr>tx_Version = 1, tx_Inputs = map utxo_input selected, tx_Outputs = outs, tx_LockTime = 0\<rparr>
        in sign_inputs ecdsa_Sign w fromScript [0..<length selected] tr)"

section \<open>What a signature covers\<close>

lemma strip_input_put [simp]: "strip_input (inp\<lparr>in_Signature := sig, in_PublicKey := pub\<rparr>) = strip_input inp"
  by (simp add: strip_input_def)

lemma put_signature_fields [simp]:
  "length (tx_Inputs (put_signature t i sig pub)) = length (tx_Inputs t)"
  "tx_Outputs (put_signature t i sig pub) = tx_Outputs t"
  "tx_Version (put_signature t i sig pub) = tx_Version t"
  "tx_LockTime (put_signature t i sig pub) = tx_LockTime t"
  by (simp_all add: put_signature_def)

lemma put_signature_strip [simp]:
  "map strip_input (tx_Inputs (put_signature t i sig pub)) = map strip_input (tx_Inputs t)"
proof (rule nth_equalityI)
  fix k assume "k < length (map strip_input (tx_Inputs (put_signature t i sig pub)))"
  then show "map strip_input (tx_Inputs (put_signature t i sig pub)) ! k = map strip_input (tx_Inputs t) ! k"
    by (cases "k = i") (simp_all add: put_signature_def)
qed simp

text \<open>Signing an input changes neither its own hash nor that of any other input.\<close>

lemma SignatureHash_stable:
  "SignatureHash (put_signature t j sig pub) i script = SignatureHash t i script"
proof -
  have "(put_signature t j sig pub)\<lparr>tx_Inputs := ins\<rparr> = t\<lparr>tx_Inputs := ins\<rparr>" for ins
    by (simp add: put_signature_def)
  then show ?thesis unfolding SignatureHash_def put_signature_strip Let_def by (simp only:)
qed

lemma SignInput_Inr:
  "SignInput S w t i script = Returns (Inr t') \<longleftrightarrow>
     i < length (tx_Inputs t) \<and>
     (\<exists>r s rb sb. S (wal_PrivateKey w) (SignatureHash t i script) = Inr (r, s)
        \<and> big_FillBytes 32 r = Returns rb \<and> big_FillBytes 32 s = Returns sb
        \<and> t' = put_signature t i (rb @ sb) (wal_PublicKey w))"
proof -
  have bind: "go_bind m f = Returns y \<longleftrightarrow> (\<exists>x. m = Returns x \<and> f x = Returns y)" for m f y
    by (cases m) auto
  show ?thesis by (auto simp: SignInput_def bind split: sum.splits prod.splits)
qed

text \<open>
  What a signed input holds: the encoded answer of the signer for the hash of this very transaction,
  and the wallet's public key.
\<close>

definition signed_input :: "signer \<Rightarrow> Wallet \<Rightarrow> byte list \<Rightarrow> Transaction \<Rightarrow> nat \<Rightarrow> bool" where
  "signed_input S w script t i \<longleftrightarrow>
     (\<exists>r s rb sb. S (wal_PrivateKey w) (SignatureHash t i script) = Inr (r, s)
        \<and> big_FillBytes 32 r = Returns rb \<and> big_FillBytes 32 s = Returns sb
        \<and> in_Signature (tx_Inputs t ! i) = rb @ sb \<and> in_PublicKey (tx_Inputs t ! i) = wal_PublicKey w)"

lemma signed_input_put_other:
  "i \<noteq> j \<Longrightarrow> signed_input S w script (put_signature t j sig pub) i \<longleftrightarrow> signed_input S w script t i"
  by (simp add: signed_input_def SignatureHash_stable) (simp add: put_signature_def)

lemma sign_inputs_Inr:
  assumes "sign_inputs S w script is t = Returns (Inr t')" and "distinct is"
  shows "map strip_input (tx_Inputs t') = map strip_input (tx_Inputs t)
    \<and> tx_Outputs t' = tx_Outputs t
    \<and> (\<forall>i \<in> set is. i < length (tx_Inputs t) \<and> signed_input S w script t' i)
    \<and> (\<forall>i. i \<notin> set is \<longrightarrow> signed_input S w script t' i = signed_input S w script t i)"
  using assms
proof (induction "is" arbitrary: t)
  case (Cons i js)
  obtain t1 where t1: "SignInput S w t i script = Returns (Inr t1)" "sign_inputs S w script js t1 = Returns (Inr t')"
    using Cons.prems(1) by (cases "SignInput S w t i script") (auto split: sum.splits)
  obtain r s rb sb where i: "i < length (tx_Inputs t)" and sgn: "S (wal_PrivateKey w) (SignatureHash t i script) = Inr (r, s)"
    "big_FillBytes 32 r = Returns rb" "big_FillBytes 32 s = Returns sb"
    and eq: "t1 = put_signature t i (rb @ sb) (wal_PublicKey w)"
    using t1(1) by (auto simp: SignInput_Inr)
  have IH: "map strip_input (tx_Inputs t') = map strip_input (tx_Inputs t1)" "tx_Outputs t' = tx_Outputs t1"
    "\<forall>k \<in> set js. k < length (tx_Inputs t1) \<and> signed_input S w script t' k"
    "\<forall>k. k \<notin> set js \<longrightarrow> signed_input S w script t' k = signed_input S w script t1 k"
    using Cons.IH [OF t1(2)] Cons.prems(2) by simp_all
  have "signed_input S w script t1 i"
    using i sgn unfolding signed_input_def eq SignatureHash_stable by (auto simp: put_signature_def)
  then show ?case
    using IH i Cons.prems(2) by (auto simp: eq signed_input_put_other)
qed simp

section \<open>What a built transaction is\<close>

text \<open>The selection is the shortest prefix of the list that covers the need, or the whole list.\<close>

lemma select_utxos_Inr:
  assumes "select_utxos need us sel tot = Inr (sel', tot')"
  shows "\<exists>k \<le> length us. sel' = sel @ take k us
    \<and> unat tot' = unat tot + sum_list (map (\<lambda>u. unat (utxo_Amount u)) (take k us))
    \<and> (\<forall>j < k. 0 < j \<longrightarrow> unat tot + sum_list (map (\<lambda>u. unat (utxo_Amount u)) (take j us)) < unat need)"
  using assms
proof (induction us arbitrary: sel tot)
  case Nil
  then show ?case by simp
next
  case (Cons u us)
  have no: "\<not> add_overflows tot (utxo_Amount u)" using Cons.prems by (auto split: if_splits)
  then have sum: "unat (tot + utxo_Amount u) = unat tot + unat (utxo_Amount u)" by (rule unat_add_no_overflow)
  show ?case
  proof (cases "need \<le> tot + utxo_Amount u")
    case True
    then show ?thesis using Cons.prems no sum by (intro exI [of _ 1]) auto
  next
    case False
    then have less: "unat tot + unat (utxo_Amount u) < unat need" using sum by (simp add: word_le_nat_alt)
    obtain k where k: "k \<le> length us" "sel' = (sel @ [u]) @ take k us"
      "unat tot' = unat tot + unat (utxo_Amount u) + sum_list (map (\<lambda>u. unat (utxo_Amount u)) (take k us))"
      "\<forall>j < k. 0 < j \<longrightarrow> unat tot + unat (utxo_Amount u)
         + sum_list (map (\<lambda>u. unat (utxo_Amount u)) (take j us)) < unat need"
      using Cons.IH [of "sel @ [u]" "tot + utxo_Amount u"] Cons.prems no False sum by auto
    have "unat tot + sum_list (map (\<lambda>u. unat (utxo_Amount u)) (take j (u # us))) < unat need"
      if "j < Suc k" "0 < j" for j
      using that k(4) less by (cases j; cases "j = 1") auto
    then show ?thesis using k(1-3) by (intro exI [of _ "Suc k"]) simp
  qed
qed

lemma add_overflows_need: "\<not> add_overflows amount fee \<Longrightarrow> unat (amount + fee) = unat amount + unat fee"
  by (rule unat_add_no_overflow)

lemma BuildTransaction_Inr:
  assumes "BuildTransaction U S w provider toAddress amount fee = Returns (Inr t)"
  obtains fromScript toScript utxos k change where
    "amount \<noteq> 0" and "LockingScriptForAddress U (wal_Address w) (wal_Prefix w) = Inr fromScript"
    and "LockingScriptForAddress U toAddress (wal_Prefix w) = Inr toScript"
    and "provider fromScript = Inr utxos" and "k \<le> length utxos"
    and "sum_list (map (\<lambda>u. unat (utxo_Amount u)) (take k utxos)) = unat amount + unat fee + unat change"
    and "map strip_input (tx_Inputs t) = map utxo_input (take k utxos)"
    and "tx_Outputs t = \<lparr>out_Amount = amount, out_LockingScript = toScript\<rparr>
           # (if change > 0 then [\<lparr>out_Amount = change, out_LockingScript = fromScript\<rparr>] else [])"
    and "\<forall>i < length (tx_Inputs t). signed_input S w fromScript t i"
    and "\<forall>j < k. sum_list (map (\<lambda>u. unat (utxo_Amount u)) (take j utxos)) < unat amount + unat fee"
    and "sum_list (map (\<lambda>u. unat (utxo_Amount u)) (take k utxos)) < 2 ^ 64"
proof -
  have a: "amount \<noteq> 0" "\<not> add_overflows amount fee"
    using assms by (auto simp: BuildTransaction_def split: if_splits)
  obtain fromScript toScript utxos where scripts:
    "LockingScriptForAddress U (wal_Address w) (wal_Prefix w) = Inr fromScript"
    "LockingScriptForAddress U toAddress (wal_Prefix w) = Inr toScript"
    "provider fromScript = Inr utxos"
    using assms a by (auto simp: BuildTransaction_def split: sum.splits)
  obtain selected tot where sel: "select_utxos (amount + fee) utxos [] 0 = Inr (selected, tot)"
    using assms a scripts by (auto simp: BuildTransaction_def Let_def split: sum.splits)
  have enough: "amount + fee \<le> tot"
    using assms a scripts sel by (auto simp: BuildTransaction_def Let_def not_less split: if_splits)
  define change where "change = tot - (amount + fee)"
  define outs where "outs = \<lparr>out_Amount = amount, out_LockingScript = toScript\<rparr>
    # (if change > 0 then [\<lparr>out_Amount = change, out_LockingScript = fromScript\<rparr>] else [])"
  have sgn: "sign_inputs S w fromScript [0..<length selected]
      \<lparr>tx_Version = 1, tx_Inputs = map utxo_input selected, tx_Outputs = outs, tx_LockTime = 0\<rparr> = Returns (Inr t)"
    using assms a scripts sel enough by (auto simp: BuildTransaction_def Let_def not_less outs_def change_def split: if_splits)
  obtain k where k: "k \<le> length utxos" "selected = take k utxos"
    "unat tot = sum_list (map (\<lambda>u. unat (utxo_Amount u)) (take k utxos))"
    "\<forall>j < k. 0 < j \<longrightarrow> sum_list (map (\<lambda>u. unat (utxo_Amount u)) (take j utxos)) < unat (amount + fee)"
    using select_utxos_Inr [OF sel] by auto
  note need = add_overflows_need [OF a(2)]
  have pos: "0 < unat amount" using a(1) by (simp add: unat_gt_0)
  have low: "\<forall>j < k. sum_list (map (\<lambda>u. unat (utxo_Amount u)) (take j utxos)) < unat amount + unat fee"
    using k(4) pos need by (metis gr0I sum_list.Nil list.map(1) take_0 add_gr_0)
  have sgn': "map strip_input (tx_Inputs t) = map strip_input (map utxo_input selected)" "tx_Outputs t = outs"
    "\<forall>i \<in> set [0..<length selected]. i < length selected \<and> signed_input S w fromScript t i"
    using sign_inputs_Inr [OF sgn] by simp_all
  have ins: "map strip_input (tx_Inputs t) = map utxo_input (take k utxos)"
    using sgn'(1) by (simp add: k(2) strip_input_def utxo_input_def o_def)
  then have "length (tx_Inputs t) = length selected" using k(2) by (metis length_map)
  then have all: "\<forall>i < length (tx_Inputs t). signed_input S w fromScript t i" using sgn'(3) by simp
  have chg: "unat tot = unat amount + unat fee + unat change"
    using enough need by (simp add: change_def unat_sub word_le_nat_alt)
  have "unat tot < 2 ^ 64" by (rule unat_u64_less)
  then show thesis
    using that [OF a(1) scripts k(1) _ ins _ all low, of change] chg k(3) sgn'(2) by (simp add: outs_def)
qed

lemma outpoint_simps [simp]:
  "in_PrevTxHash (strip_input inp) = in_PrevTxHash inp" "in_OutputIdx (strip_input inp) = in_OutputIdx inp"
  "in_PrevTxHash (utxo_input u) = utxo_TxHash u" "in_OutputIdx (utxo_input u) = utxo_OutputIdx u"
  by (simp_all add: strip_input_def utxo_input_def)

text \<open>What a transaction reads and spends whose inputs are made from coins of the store.\<close>

lemma spent_coins:
  assumes "map strip_input (tx_Inputs t) = map utxo_input cs" and "distinct (map utxo_key cs)"
    and "\<forall>u \<in> set cs. Get d (utxo_TxHash u) (utxo_OutputIdx u) = Inr u \<and> utxo_Script u = script"
  shows "distinct (input_keys t)" and "input_total (Get d) t = sum_list (map (\<lambda>u. unat (utxo_Amount u)) cs)"
    and "i < length (tx_Inputs t) \<Longrightarrow> Get d (in_PrevTxHash (tx_Inputs t ! i)) (in_OutputIdx (tx_Inputs t ! i)) = Inr (cs ! i)
      \<and> utxo_Script (cs ! i) = script"
proof -
  have len: "length (tx_Inputs t) = length cs" using assms(1) by (metis length_map)
  have inp: "in_PrevTxHash (tx_Inputs t ! i) = utxo_TxHash (cs ! i)
      \<and> in_OutputIdx (tx_Inputs t ! i) = utxo_OutputIdx (cs ! i)" if "i < length (tx_Inputs t)" for i
  proof -
    have "strip_input (tx_Inputs t ! i) = utxo_input (cs ! i)"
      using arg_cong [OF assms(1), of "\<lambda>l. l ! i"] that len by (simp only: nth_map)
    then show ?thesis by (metis outpoint_simps)
  qed
  have keys: "input_keys t = map (\<lambda>u. OutpointKey (utxo_TxHash u) (utxo_OutputIdx u)) cs"
    unfolding input_keys_def map_equality_iff using len by (simp add: input_key_def inp)
  show "distinct (input_keys t)" using assms(2) by (simp add: keys distinct_map inj_on_def utxo_key_def)
  show read: "Get d (in_PrevTxHash (tx_Inputs t ! i)) (in_OutputIdx (tx_Inputs t ! i)) = Inr (cs ! i)
      \<and> utxo_Script (cs ! i) = script" if "i < length (tx_Inputs t)" for i
    using bspec [OF assms(3) nth_mem, of i] that len inp [OF that] by (simp only: simp_thms)
  show "input_total (Get d) t = sum_list (map (\<lambda>u. unat (utxo_Amount u)) cs)"
    unfolding input_total_def
    by (intro arg_cong [of _ _ sum_list] map_equality_iff [THEN iffD2] conjI allI impI len)
      (simp only: input_value_def read len sum.case)
qed

text \<open>
  C33. A transaction the wallet builds is one the rules accept. Built from the node's own store, it
  passes \<open>ValidateTransaction\<close> against that store with exactly the requested fee, provided the
  verifier accepts its signatures, the fee covers the relay minimum of its size, and it does not
  happen to have the shape of a coinbase. It pays the amount to the address and the rest back.
\<close>

theorem BuildTransaction_accepted:
  assumes "db_ok d" and "store_typed d"
    and "BuildTransaction U S w (ListUTXOsByScript d) toAddress amount fee = Returns (Inr t)"
    and "LockingScriptForAddress U (wal_Address w) (wal_Prefix w) = Inr script"
    and "\<forall>i < length (tx_Inputs t). v t i script"
    and "\<not> IsCoinbase t" and "MinFee t \<le> fee"
  shows "ValidateTransaction t (Get d) (Some v) {} = (Inr fee, set (input_keys t))
    \<and> (\<exists>toScript. LockingScriptForAddress U toAddress (wal_Prefix w) = Inr toScript
          \<and> hd (tx_Outputs t) = \<lparr>out_Amount = amount, out_LockingScript = toScript\<rparr>
          \<and> (\<forall>out \<in> set (tl (tx_Outputs t)). out_LockingScript out = script))"
proof -
  obtain fs toScript utxos k change where b: "amount \<noteq> 0"
    "LockingScriptForAddress U (wal_Address w) (wal_Prefix w) = Inr fs"
    "LockingScriptForAddress U toAddress (wal_Prefix w) = Inr toScript"
    "ListUTXOsByScript d fs = Inr utxos" "k \<le> length utxos"
    "sum_list (map (\<lambda>u. unat (utxo_Amount u)) (take k utxos)) = unat amount + unat fee + unat change"
    "map strip_input (tx_Inputs t) = map utxo_input (take k utxos)"
    "tx_Outputs t = \<lparr>out_Amount = amount, out_LockingScript = toScript\<rparr>
       # (if change > 0 then [\<lparr>out_Amount = change, out_LockingScript = fs\<rparr>] else [])"
    "\<forall>i < length (tx_Inputs t). signed_input S w fs t i"
    "\<forall>j < k. sum_list (map (\<lambda>u. unat (utxo_Amount u)) (take j utxos)) < unat amount + unat fee"
    "sum_list (map (\<lambda>u. unat (utxo_Amount u)) (take k utxos)) < 2 ^ 64"
    by (rule BuildTransaction_Inr [OF assms(3)])
  have fs: "fs = script" using b(2) assms(4) by simp
  obtain us where us: "ListUTXOs d = Inr us" "distinct (map utxo_key us)"
    "\<And>u. u \<in> set us \<longleftrightarrow> utxo_map d (utxo_key u) = Some u"
    using ListUTXOs_typed [OF assms(1,2)] by blast
  then have utxos: "utxos = filter (\<lambda>u. utxo_Script u = script) us"
    using b(4) by (simp add: ListUTXOsByScript_def fs)
  have coin: "Get d (utxo_TxHash u) (utxo_OutputIdx u) = Inr u \<and> utxo_Script u = script"
    if "u \<in> set (take k utxos)" for u
    using set_take_subset [THEN subsetD, OF that] us(3) by (auto simp: utxos Get_iff utxo_key_def)
  have "distinct (map utxo_key (take k utxos))"
    using us(2) unfolding utxos by (metis distinct_map_filter distinct_take take_map)
  note spent = spent_coins [OF b(7) this ballI, OF coin]
  have ok: "input_ok t (Get d) (Some v) (NOT 0) i (tx_Inputs t ! i)" if "i < length (tx_Inputs t)" for i
    using that assms(5) unfolding input_ok.simps by (simp only: spent(3) sum.case option.case simp_thms)
  have out: "output_total t = unat amount + unat change" by (simp add: b(8) output_total_def word_gt_0)
  have "ValidateTransaction t (Get d) (Some v) {} = (Inr fee, set (input_keys t))"
    unfolding ValidateTransaction_def ValidateTransactionAt_Inr
    using assms(6,7) spent(1,2) ok out b(1,6,8,11) by auto
  then show ?thesis using b(3,8) fs by auto
qed

text \<open>A wallet with one coin: what building a payment to itself gives.\<close>

definition demo_unicode :: unicode where
  "demo_unicode = \<lparr>uni_ToLower = id, uni_ToUpper = id\<rparr>"

definition demo_coin :: "byte list \<Rightarrow> UTXO" where
  "demo_coin script = \<lparr>utxo_TxHash = 7, utxo_OutputIdx = 0, utxo_Amount = 5000, utxo_Script = script,
                       utxo_Height = 1, utxo_Coinbase = False\<rparr>"

definition demo_wallet :: "byte list \<Rightarrow> string \<Rightarrow> Wallet" where
  "demo_wallet pub addr = \<lparr>wal_PrivateKey = \<lparr>priv_D = 1, priv_XY = Some (curve_Gx, curve_Gy)\<rparr>,
     wal_PublicKey = pub, wal_Address = addr, wal_Prefix = net_AddressPrefix Regtest\<rparr>"

definition demo_signer :: signer where
  "demo_signer = (\<lambda>_ _. Inr (1, 1))"

definition demo_payment :: "byte list \<Rightarrow> byte list \<Rightarrow> Transaction" where
  "demo_payment pub script = \<lparr>tx_Version = 1,
     tx_Inputs = [\<lparr>in_PrevTxHash = 7, in_OutputIdx = 0,
       in_Signature = replicate 31 0 @ [1] @ replicate 31 0 @ [1], in_PublicKey = pub\<rparr>],
     tx_Outputs = [\<lparr>out_Amount = 1000, out_LockingScript = script\<rparr>, \<lparr>out_Amount = 3000, out_LockingScript = script\<rparr>],
     tx_LockTime = 0\<rparr>"

lemma FillBytes_one: "big_FillBytes 32 1 = Returns (replicate 31 0 @ [1])"
  by (simp add: big_FillBytes_def eval_simps)

lemma demo_build:
  assumes "LockingScriptForAddress demo_unicode addr (net_AddressPrefix Regtest) = Inr script"
    and "provider script = Inr [demo_coin script]"
  shows "BuildTransaction demo_unicode demo_signer (demo_wallet pub addr) provider addr 1000 1000
    = Returns (Inr (demo_payment pub script))"
proof -
  have "\<not> add_overflows 1000 1000" "\<not> add_overflows 0 5000" by (simp_all add: add_overflows_iff)
  then show ?thesis
    using assms
    by (simp add: BuildTransaction_def demo_wallet_def demo_coin_def demo_payment_def Let_def SignInput_def
        demo_signer_def FillBytes_one utxo_input_def put_signature_def)
qed

lemma Regtest_prefix: "lower_ascii (net_AddressPrefix Regtest)" "net_AddressPrefix Regtest \<noteq> []"
  by (simp_all add: Regtest_def lower_ascii_def ascii_def ascii_lower_def)

lemma demo_store:
  fixes script :: "byte list"
  defines "d \<equiv> fst (PutUTXO demo_db (demo_coin script))"
  shows "db_ok d" and "store_typed d" and "ListUTXOsByScript d script = Inr [demo_coin script]"
proof -
  have p: "PutUTXO demo_db (demo_coin script) = (d, None)"
    by (simp add: d_def PutUTXO_def peb_Set_no_faults)
  then have s: "peb_Set demo_db (keyUTXO 7 0) (JsonUTXO (demo_coin script)) = (d, None)"
    by (simp add: PutUTXO_def demo_coin_def)
  show ok: "db_ok d" using peb.put_ok [OF demo_db_ok(1) flat_keys(4) s] .
  show typed: "store_typed d"
    using set_typed [OF demo_db_ok(1) demo_db_typed flat_keys(4) _ s] typed_utxo [of "demo_coin script"]
    by (simp add: demo_coin_def)
  have u: "utxo_map d k = (if k = (7, 0) then Some (demo_coin script) else None)" for k
    using peb.get_put [OF demo_db_ok(1) flat_keys(4) flat_keys(4) s]
    by (cases k) (auto simp: utxo_map_def utxo_of_def)
  obtain us where us: "ListUTXOs d = Inr us" "distinct (map utxo_key us)"
    "\<And>u. u \<in> set us \<longleftrightarrow> utxo_map d (utxo_key u) = Some u"
    using ListUTXOs_typed [OF ok typed] by blast
  have "utxo_key (demo_coin script) = (7, 0)" by (simp add: utxo_key_def demo_coin_def)
  then have mem: "v \<in> set us \<longleftrightarrow> v = demo_coin script" for v unfolding us(3) u by auto
  have "distinct us" using us(2) by (simp add: distinct_map)
  then have "us = [demo_coin script]"
    using mem [of "us ! 0"] mem [of "us ! 1"] mem [of "demo_coin script"]
    by (cases us rule: remdups_adj.cases) auto
  then show "ListUTXOsByScript d script = Inr [demo_coin script]"
    using us(1) by (simp add: ListUTXOsByScript_def demo_coin_def)
qed

theorem BuildTransaction_accepted_witness:
  "\<exists>script d addr t. BuildTransaction demo_unicode demo_signer (demo_wallet [] addr) (ListUTXOsByScript d) addr 1000 1000
       = Returns (Inr t)
     \<and> ValidateTransaction t (Get d) (Some (\<lambda>t i s. s = script)) {} = (Inr 1000, set (input_keys t))"
proof -
  obtain addr where addr: "LockingScriptForAddress demo_unicode addr (net_AddressPrefix Regtest)
      = Inr (ScriptForPubKeyHash [0, 255])"
    using encode_address [OF Regtest_prefix] by blast
  define script where "script = ScriptForPubKeyHash [0, 255]"
  define d where "d = fst (PutUTXO demo_db (demo_coin script))"
  note store = demo_store [of script, folded d_def]
  note b = demo_build [OF addr [folded script_def], of "ListUTXOsByScript d", OF store(3), of "[]"]
  have "length script = 8" by (simp add: script_def ScriptForPubKeyHash_def string_bytes_def)
  then have "MinFee (demo_payment [] script) \<le> 1000"
    by (simp add: MinFee_def MinRelayFeePerByte_def demo_payment_def SerializeTransaction_def WriteTransaction_def
        WriteInput_def WriteOutput_def writeVarBytesList_def)
  moreover have "\<not> IsCoinbase (demo_payment [] script)" by (simp add: demo_payment_def IsCoinbase.simps)
  ultimately have "ValidateTransaction (demo_payment [] script) (Get d) (Some (\<lambda>t i s. s = script)) {}
      = (Inr 1000, set (input_keys (demo_payment [] script)))"
    using BuildTransaction_accepted [OF store(1,2) b, of script "\<lambda>t i s. s = script"] addr
    by (simp add: demo_wallet_def script_def)
  then show ?thesis using b by blast
qed

text \<open>
  C34. What the wallet signs is what the verifier checks. For a wallet whose address is that of its
  public key, the verifier's verdict on every input of a built transaction is exactly the verdict of
  ECDSA on the signature the signer produced for the very hash the verifier computes: signing the
  later inputs has not invalidated the earlier signatures, and script, key hash and encoding fit.
\<close>

theorem BuildTransaction_verifies:
  assumes "BuildTransaction U S w provider toAddress amount fee = Returns (Inr t)"
    and "AddressFromPublicKey U (wal_PublicKey w) (wal_Prefix w) = Inr (wal_Address w)"
    and "lower_ascii (wal_Prefix w)" and "wal_Prefix w \<noteq> []"
    and "unmarshalCompressed (wal_PublicKey w) = Some Q" and "i < length (tx_Inputs t)"
  shows "\<exists>r s. S (wal_PrivateKey w) (SignatureHash t i (ScriptForPubKeyHash (Hash160 (wal_PublicKey w)))) = Inr (r, s)
    \<and> VerifyTransactionInput t i (ScriptForPubKeyHash (Hash160 (wal_PublicKey w)))
      = ecdsa_Verify Q (SignatureHash t i (ScriptForPubKeyHash (Hash160 (wal_PublicKey w)))) \<bar>r\<bar> \<bar>s\<bar>"
proof -
  let ?script = "ScriptForPubKeyHash (Hash160 (wal_PublicKey w))"
  obtain five addr where a: "convertBits (Hash160 (wal_PublicKey w)) 8 5 True = Inr five"
    "bech32Encode U (wal_Prefix w) five = Inr addr"
    "LockingScriptForAddress U addr (wal_Prefix w) = Inr ?script"
    using encode_address [OF assms(3,4)] by blast
  then have addr: "addr = wal_Address w" using assms(2) by (simp add: AddressFromPublicKey_def)
  have "\<forall>i < length (tx_Inputs t). signed_input S w ?script t i"
    by (rule BuildTransaction_Inr [OF assms(1)]) (use a(3) addr in simp)
  then obtain r s rb sb where sgn: "S (wal_PrivateKey w) (SignatureHash t i ?script) = Inr (r, s)"
    "big_FillBytes 32 r = Returns rb" "big_FillBytes 32 s = Returns sb"
    "in_Signature (tx_Inputs t ! i) = rb @ sb" "in_PublicKey (tx_Inputs t ! i) = wal_PublicKey w"
    using assms(6) by (auto simp: signed_input_def)
  have bytes: "big_SetBytes bs = \<bar>z\<bar> \<and> length bs = 32" if "big_FillBytes 32 z = Returns bs" for z bs
    using that by (rule big_SetBytes_FillBytes)
  have "VerifyTransactionInput t i ?script = ecdsa_Verify Q (SignatureHash t i ?script) \<bar>r\<bar> \<bar>s\<bar>"
    using assms(5,6) sgn(4,5) bytes [OF sgn(2)] bytes [OF sgn(3)] ExtractPubKeyHash_iff [THEN iffD2, OF refl]
    by (simp add: VerifyTransactionInput_def Let_def)
  then show ?thesis using sgn(1) by blast
qed

theorem BuildTransaction_verifies_witness:
  "\<exists>script addr t. BuildTransaction demo_unicode demo_signer (demo_wallet demo_key addr)
       (\<lambda>s. Inr [demo_coin s]) addr 1000 1000 = Returns (Inr t)
     \<and> VerifyTransactionInput t 0 script = ecdsa_Verify (demo_x, 1) (SignatureHash t 0 script) 1 1"
proof -
  obtain five addr where a: "convertBits (Hash160 demo_key) 8 5 True = Inr five"
    "bech32Encode demo_unicode (net_AddressPrefix Regtest) five = Inr addr"
    "LockingScriptForAddress demo_unicode addr (net_AddressPrefix Regtest) = Inr (ScriptForPubKeyHash (Hash160 demo_key))"
    using encode_address [OF Regtest_prefix] by blast
  note b = demo_build [OF a(3), of "\<lambda>s. Inr [demo_coin s]" demo_key, OF refl]
  have "AddressFromPublicKey demo_unicode demo_key (net_AddressPrefix Regtest) = Inr addr"
    using a(1,2) by (simp add: AddressFromPublicKey_def)
  then show ?thesis
    using BuildTransaction_verifies [OF b, of "(demo_x, 1)" 0] b Regtest_prefix unmarshalCompressed_demo_key
    by (auto simp: demo_wallet_def demo_signer_def demo_payment_def)
qed

section \<open>The scalar zero\<close>

lemma scalar_loop_zeros: "scalar_loop B (replicate n False @ bs) None = scalar_loop B bs None"
  by (induction n) simp_all

lemma byte_bits_0: "byte_bits 0 = replicate 8 False"
  by (simp add: byte_bits_def numeral_eq_Suc)

lemma bits_zeros: "concat (replicate n (byte_bits 0)) = replicate (8 * n) False"
  by (induction n) (simp_all add: byte_bits_0 flip: replicate_add)

lemma hex_DecodeString_zeros: "hex_DecodeString (replicate (2 * n) (CHR ''0'')) = Inr (replicate n 0)"
  by (induction n) (simp_all add: hex_digit_val_def)

text \<open>
  A private key of zeros crashes the import: for every hexadecimal string of \<open>2 n\<close> zeros the
  product with the base point is nil, and encoding it dereferences a nil coordinate.
\<close>

theorem FromHexPrivateKey_zero_panics:
  "FromHexPrivateKey U (replicate (2 * n) (CHR ''0'')) prefix = Panics"
proof -
  have "ScalarBaseMult (replicate n 0) = Returns None"
    using scalar_loop_zeros [of _ "8 * n" "[]"] by (simp add: ScalarBaseMult_def ScalarMult_def bits_zeros)
  then show ?thesis by (simp add: FromHexPrivateKey_def hex_DecodeString_zeros FromPrivateKey_def)
qed

end
