(* ===== verification/Seed.thy ===== *)
theory Seed
  imports Wallet
begin

text \<open>
  \<open>wallet/pbkdf2_internal.go\<close>, \<open>wallet/seed_audit.go\<close> and the seed phrases of \<open>wallet/store.go\<close>.
  \<open>crypto/hmac\<close> is written out over SHA-256. Random bytes are an argument, as are the Unicode tables,
  which \<open>strings\<close> consults only for text beyond ASCII. The lemmas show that the key derivation is the
  published one, that a generated phrase passes the audit, and how many phrases there are.
\<close>

section \<open>\<open>crypto/hmac\<close> and PBKDF2\<close>

definition hmac_key :: "byte list \<Rightarrow> byte list" where
  "hmac_key key =
     (let k = (if length key > 64 then hash_bytes (Sum256 key) else key)
      in k @ replicate (64 - length k) 0)"

definition hmac :: "byte list \<Rightarrow> byte list \<Rightarrow> byte list" where
  "hmac key msg =
     (let k = hmac_key key
      in hash_bytes (Sum256 (map (\<lambda>b. b XOR 0x5c) k @ hash_bytes (Sum256 (map (\<lambda>b. b XOR 0x36) k @ msg)))))"

text \<open>\<open>for n := 2; n <= iter; n++\<close>: the remaining rounds on the running value and the accumulator.\<close>

fun pbkdf2_rounds :: "byte list \<Rightarrow> nat \<Rightarrow> byte list \<Rightarrow> byte list \<Rightarrow> byte list" where
  "pbkdf2_rounds password 0 U T = T"
| "pbkdf2_rounds password (Suc n) U T =
     (let U = hmac password U in pbkdf2_rounds password n U (map2 (XOR) T U))"

definition pbkdf2_block :: "byte list \<Rightarrow> byte list \<Rightarrow> nat \<Rightarrow> nat \<Rightarrow> byte list" where
  "pbkdf2_block password salt n_iter block =
     (let T = hmac password (salt @ rev (PutUint32 (of_nat block)))
      in pbkdf2_rounds password (n_iter - 1) T T)"

definition pbkdf2SHA256 :: "byte list \<Rightarrow> byte list \<Rightarrow> nat \<Rightarrow> nat \<Rightarrow> byte list" where
  "pbkdf2SHA256 password salt n_iter keyLen =
     (let numBlocks = (keyLen + 32 - 1) div 32
      in take keyLen (concat (map (pbkdf2_block password salt n_iter) [1..<Suc numBlocks])))"

definition pbkdf2Iter :: nat where
  "pbkdf2Iter = 100000"

section \<open>Seed phrases\<close>

definition seedWords :: "string list" where
  "seedWords = [
     ''able'', ''about'', ''above'', ''absent'', ''absorb'', ''access'', ''acid'', ''across'', ''act'',
     ''adapt'', ''add'', ''adjust'', ''admit'', ''adult'', ''agent'', ''ahead'', ''alarm'', ''album'',
     ''alert'', ''alien'', ''align'', ''allow'', ''alone'', ''alpha'', ''always'', ''amber'', ''anchor'',
     ''angle'', ''apple'', ''april'', ''arena'', ''arrow'', ''asset'', ''atom'', ''audit'', ''avoid'',
     ''badge'', ''balance'', ''basic'', ''beach'', ''because'', ''before'', ''binary'', ''bonus'', ''brave'',
     ''bridge'', ''budget'', ''cable'', ''camera'', ''carbon'', ''chain'', ''circle'', ''client'', ''coin'',
     ''core'', ''credit'', ''crypto'', ''dash'', ''delta'', ''digital'', ''dollar'', ''double'', ''dream'',
     ''eagle'', ''earth'', ''elite'', ''energy'', ''engine'', ''equal'', ''ethic'', ''fabric'', ''faith'',
     ''fiber'', ''final'', ''future'', ''galaxy'', ''genesis'', ''global'', ''gold'', ''green'', ''guard'',
     ''hash'', ''honest'', ''index'', ''input'', ''jewel'', ''kernel'', ''layer'', ''ledger'', ''limit'',
     ''main'', ''market'', ''matrix'', ''memory'', ''merkle'', ''miner'', ''mobile'', ''money'', ''native'',
     ''network'', ''nevel'', ''node'', ''nonce'', ''output'', ''packet'', ''payment'', ''peer'', ''proof'',
     ''public'', ''quantum'', ''reward'', ''script'', ''secure'', ''seed'', ''signal'', ''silver'', ''supply'',
     ''target'', ''token'', ''trust'', ''valid'', ''wallet'', ''work'', ''zero'']"

fun join_words :: "string list \<Rightarrow> string" where
  "join_words [] = []"
| "join_words [w] = w"
| "join_words (w # ws) = w @ '' '' @ join_words ws"

text \<open>\<open>rand.Read\<close> of \<open>n\<close> bytes is the argument.\<close>

definition NewSeedPhrase :: "(nat \<Rightarrow> error + byte list) \<Rightarrow> int \<Rightarrow> error + string" where
  "NewSeedPhrase rand_Read words =
     (let words = (if words \<le> 0 then 24 else words)
      in case rand_Read (nat words) of
           Inl e \<Rightarrow> Inl e
         | Inr b \<Rightarrow> Inr (join_words (map (\<lambda>v. seedWords ! (unat v mod length seedWords)) b)))"

definition NewFromSeedPhrase :: "unicode \<Rightarrow> string \<Rightarrow> string \<Rightarrow> (error + Wallet) go" where
  "NewFromSeedPhrase U seed prefix =
     FromHexPrivateKey U
       (hex_EncodeToString (pbkdf2SHA256 (string_bytes seed) (string_bytes ''nevel-seed'') pbkdf2Iter 32)) prefix"

section \<open>The audit\<close>

record SeedAuditReport =
  rep_Words :: nat
  rep_Wordlist :: string
  rep_EstimatedEntropy :: nat
  rep_StandardWarnings :: "string list"
  rep_Valid :: bool

text \<open>\<open>strings.TrimSpace\<close> and \<open>strings.Fields\<close>; on text beyond ASCII they ask the Unicode tables.\<close>

record unicode_space =
  usp_TrimSpace :: "string \<Rightarrow> string"
  usp_Fields :: "string \<Rightarrow> string list"

definition asciiSpace :: "char \<Rightarrow> bool" where
  "asciiSpace c \<longleftrightarrow> (of_char c :: nat) \<in> {9, 10, 11, 12, 13, 32}"

definition TrimSpace :: "unicode_space \<Rightarrow> string \<Rightarrow> string" where
  "TrimSpace V s =
     (if ascii s then rev (dropWhile asciiSpace (rev (dropWhile asciiSpace s))) else usp_TrimSpace V s)"

fun ascii_fields :: "string \<Rightarrow> string \<Rightarrow> string list" where
  "ascii_fields [] w = (if w = [] then [] else [w])"
| "ascii_fields (c # cs) w =
     (if asciiSpace c then (if w = [] then ascii_fields cs [] else w # ascii_fields cs [])
      else ascii_fields cs (w @ [c]))"

definition Fields :: "unicode_space \<Rightarrow> string \<Rightarrow> string list" where
  "Fields V s = (if ascii s then ascii_fields s [] else usp_Fields V s)"

definition seedCountMessage :: string where
  "seedCountMessage = ''seed phrase must contain 12, 18, or 24 words''"

definition seedWordMessage :: string where
  "seedWordMessage = ''seed phrase contains a non NEVEL wordlist word''"

definition seedCompatMessage :: string where
  "seedCompatMessage =
     ''NEVEL v1 seeds are audited for internal compatibility but are not BIP-39 mnemonic checksums''"

definition AuditSeedPhrase :: "unicode \<Rightarrow> unicode_space \<Rightarrow> string \<Rightarrow> SeedAuditReport \<times> error option" where
  "AuditSeedPhrase U V seed =
     (let words = Fields V (ToLower U (TrimSpace V seed));
          report = \<lparr>rep_Words = length words, rep_Wordlist = ''nevel-v1'',
                    rep_EstimatedEntropy = length words * 8, rep_StandardWarnings = [], rep_Valid = False\<rparr>
      in if length words \<noteq> 12 \<and> length words \<noteq> 18 \<and> length words \<noteq> 24 then
           (report\<lparr>rep_StandardWarnings := [seedCountMessage]\<rparr>, Some ErrSeedWordCount)
         else if list_ex (\<lambda>w. w \<notin> set seedWords) words then
           (report\<lparr>rep_StandardWarnings := [seedWordMessage]\<rparr>, Some ErrSeedWordlist)
         else
           (report\<lparr>rep_StandardWarnings := (if length words = 24 then [seedCompatMessage] else []),
                   rep_Valid := True\<rparr>, None))"

section \<open>The published key derivation\<close>

text \<open>PBKDF2 of RFC 8018: the exclusive or of the iterated pseudo-random function, block by block.\<close>

definition rfc_U :: "byte list \<Rightarrow> byte list \<Rightarrow> nat \<Rightarrow> nat \<Rightarrow> byte list" where
  "rfc_U P S i j = (hmac P ^^ j) (S @ rev (le_bytes 4 i))"

definition rfc_F :: "byte list \<Rightarrow> byte list \<Rightarrow> nat \<Rightarrow> nat \<Rightarrow> byte list" where
  "rfc_F P S c i = foldl (map2 (XOR)) (rfc_U P S i 1) (map (rfc_U P S i) [2..<Suc c])"

definition rfc_PBKDF2 :: "byte list \<Rightarrow> byte list \<Rightarrow> nat \<Rightarrow> nat \<Rightarrow> byte list" where
  "rfc_PBKDF2 P S c dkLen =
     take dkLen (concat (map (rfc_F P S c) [1..<Suc ((dkLen + 31) div 32)]))"

lemma pbkdf2_rounds_foldl:
  "pbkdf2_rounds P n U T = foldl (map2 (XOR)) T (map (\<lambda>j. (hmac P ^^ j) U) [1..<Suc n])"
proof (induction n arbitrary: U T)
  case 0
  then show ?case by simp
next
  case (Suc n)
  have "[1..<Suc (Suc n)] = 1 # map Suc [1..<Suc n]" by (simp add: map_Suc_upt upt_conv_Cons del: upt_Suc)
  then show ?case
    using Suc by (simp add: Let_def o_def funpow_Suc_right del: upt_Suc funpow.simps)
qed

lemma length_hmac [simp]: "length (hmac key msg) = 32"
  by (simp add: hmac_def Let_def)

lemma length_foldl_xor:
  "length T = n \<Longrightarrow> \<forall>x \<in> set xs. length x = n \<Longrightarrow> length (foldl (map2 (XOR)) T (xs :: byte list list)) = n"
  by (induction xs arbitrary: T) simp_all

lemma length_rfc_F: "length (rfc_F P S c i) = 32"
proof -
  have "length (rfc_U P S i j) = 32" if "0 < j" for j
    using that by (cases j) (simp_all add: rfc_U_def)
  then show ?thesis unfolding rfc_F_def by (intro length_foldl_xor) auto
qed

lemma pbkdf2_block_rfc:
  assumes "1 \<le> c" and "i < 2 ^ 32"
  shows "pbkdf2_block P S c i = rfc_F P S c i"
proof -
  have i: "PutUint32 (of_nat i) = le_bytes 4 i"
    using assms(2) by (simp add: PutUint32_def unat_of_nat take_bit_eq_mod)
  have "[2..<Suc c] = map Suc [1..<Suc (c - 1)]"
    using assms(1) by (cases c) (simp_all add: map_Suc_upt numeral_2_eq_2 del: upt_Suc)
  then have "map (rfc_U P S i) [2..<Suc c] = map (\<lambda>j. (hmac P ^^ j) (rfc_U P S i 1)) [1..<Suc (c - 1)]"
    by (simp add: rfc_U_def o_def funpow_swap1 del: upt_Suc)
  then show ?thesis
    by (simp add: pbkdf2_block_def Let_def pbkdf2_rounds_foldl rfc_F_def i rfc_U_def del: upt_Suc)
qed

lemma pbkdf2_is_rfc:
  assumes "1 \<le> c" and "keyLen \<le> (2 ^ 32 - 1) * 32"
  shows "pbkdf2SHA256 P S c keyLen = rfc_PBKDF2 P S c keyLen"
    and "length (pbkdf2SHA256 P S c keyLen) = keyLen"
proof -
  let ?n = "(keyLen + 31) div 32"
  have "keyLen + 32 - 1 = keyLen + 31" by simp
  have "?n \<le> 2 ^ 32 - 1" using assms(2) by simp
  then have "map (pbkdf2_block P S c) [1..<Suc ?n] = map (rfc_F P S c) [1..<Suc ?n]"
    using assms(1) by (intro map_cong pbkdf2_block_rfc) auto
  then show eq: "pbkdf2SHA256 P S c keyLen = rfc_PBKDF2 P S c keyLen"
    unfolding pbkdf2SHA256_def rfc_PBKDF2_def Let_def \<open>keyLen + 32 - 1 = keyLen + 31\<close> by (simp only:)
  have "length (concat (map (rfc_F P S c) [1..<Suc ?n])) = 32 * ?n"
    by (simp add: length_concat o_def length_rfc_F sum_list_triv del: upt_Suc)
  moreover have "keyLen \<le> 32 * ?n" by linarith
  ultimately show "length (pbkdf2SHA256 P S c keyLen) = keyLen" using eq by (simp add: rfc_PBKDF2_def del: upt_Suc)
qed

lemma pbkdf2SHA256_length: "length (pbkdf2SHA256 P S pbkdf2Iter 32) = 32"
  by (rule pbkdf2_is_rfc(2)) (simp_all add: pbkdf2Iter_def)

text \<open>
  C38. The key derivation is PBKDF2 with HMAC-SHA-256 as published: for at least one iteration and
  every key length up to the published maximum, \<open>pbkdf2SHA256\<close> returns the published function's
  value, which has exactly the requested length.
\<close>

theorem pbkdf2SHA256_rfc:
  assumes "1 \<le> c" and "keyLen \<le> (2 ^ 32 - 1) * 32"
  shows "pbkdf2SHA256 P S c keyLen = rfc_PBKDF2 P S c keyLen
    \<and> length (pbkdf2SHA256 P S c keyLen) = keyLen"
  using pbkdf2_is_rfc [OF assms] by simp

theorem pbkdf2SHA256_rfc_witness:
  "pbkdf2SHA256 [112] [115] 2 32 = rfc_PBKDF2 [112] [115] 2 32 \<and> length (pbkdf2SHA256 [112] [115] 2 32) = 32"
  by (rule pbkdf2SHA256_rfc) simp_all

section \<open>Generated phrases pass the audit\<close>

definition plain_word :: "string \<Rightarrow> bool" where
  "plain_word w \<longleftrightarrow> w \<noteq> [] \<and> list_all (\<lambda>c. 97 \<le> (of_char c :: nat) \<and> (of_char c :: nat) \<le> 122) w"

lemma seedWords_plain: "list_all plain_word seedWords"
  by (simp add: seedWords_def plain_word_def)

lemma length_seedWords: "length seedWords = 124"
  by (simp add: seedWords_def)

lemma plain_char:
  assumes "97 \<le> (of_char c :: nat)" and "(of_char c :: nat) \<le> 122"
  shows "\<not> asciiSpace c" and "ascii_lower c = c"
  using assms by (auto simp: asciiSpace_def ascii_lower_def Let_def)

lemma join_words_chars:
  assumes "list_all plain_word ws" and "c \<in> set (join_words ws)"
  shows "c = CHR '' '' \<or> 97 \<le> (of_char c :: nat) \<and> (of_char c :: nat) \<le> 122"
  using assms by (induction ws rule: join_words.induct) (auto simp: plain_word_def list_all_iff)

lemma join_words_lower:
  assumes "list_all plain_word ws"
  shows "ascii (join_words ws)" and "ToLower U (join_words ws) = join_words ws"
proof -
  have c: "(of_char c :: nat) < 128 \<and> ascii_lower c = c" if "c \<in> set (join_words ws)" for c
    using join_words_chars [OF assms that] plain_char(2) [of c] by (auto simp: ascii_lower_def)
  then show "ascii (join_words ws)" by (simp add: ascii_def list_all_iff)
  then show "ToLower U (join_words ws) = join_words ws"
    using c by (simp add: ToLower_def map_idI)
qed

lemma ascii_fields_word:
  "list_all (\<lambda>c. \<not> asciiSpace c) w \<Longrightarrow> ascii_fields (w @ rest) acc = ascii_fields rest (acc @ w)"
  by (induction w arbitrary: acc) simp_all

lemma plain_word_no_space: "plain_word w \<Longrightarrow> list_all (\<lambda>c. \<not> asciiSpace c) w"
  unfolding plain_word_def list_all_iff using plain_char(1) by blast

lemma ascii_fields_join:
  "list_all plain_word ws \<Longrightarrow> ascii_fields (join_words ws) [] = ws"
proof (induction ws rule: join_words.induct)
  case (2 w)
  then show ?case
    using ascii_fields_word [OF plain_word_no_space, of w "[]" "[]"] by (simp add: plain_word_def)
next
  case (3 w v vs)
  have "asciiSpace CHR '' ''" by (simp add: asciiSpace_def)
  then show ?case
    using 3 ascii_fields_word [OF plain_word_no_space, of w "'' '' @ join_words (v # vs)" "[]"]
    by (simp add: plain_word_def)
qed simp

lemma dropWhile_plain: "s = [] \<or> \<not> asciiSpace (hd s) \<Longrightarrow> dropWhile asciiSpace s = s"
  by (cases s) auto

lemma join_words_ends:
  assumes "list_all plain_word ws" and "ws \<noteq> []"
  shows "join_words ws \<noteq> []" and "\<not> asciiSpace (hd (join_words ws))" and "\<not> asciiSpace (last (join_words ws))"
proof -
  have w: "w \<noteq> [] \<and> \<not> asciiSpace (hd w) \<and> \<not> asciiSpace (last w)" if "plain_word w" for w
    using plain_word_no_space [OF that] that by (auto simp: plain_word_def list_all_iff)
  have "join_words ws \<noteq> [] \<and> \<not> asciiSpace (hd (join_words ws)) \<and> \<not> asciiSpace (last (join_words ws))"
    using assms by (induction ws rule: join_words.induct) (auto simp: w)
  then show "join_words ws \<noteq> []" "\<not> asciiSpace (hd (join_words ws))" "\<not> asciiSpace (last (join_words ws))"
    by simp_all
qed

lemma Fields_join:
  assumes "list_all plain_word ws"
  shows "Fields V (ToLower U (TrimSpace V (join_words ws))) = ws"
proof (cases "ws = []")
  case True
  then show ?thesis by (simp add: TrimSpace_def ToLower_def Fields_def ascii_def)
next
  case False
  have "hd (rev s) = last s" for s :: string by (rule hd_rev)
  then have "TrimSpace V (join_words ws) = join_words ws"
    using join_words_ends [OF assms False] join_words_lower(1) [OF assms]
    by (simp add: TrimSpace_def dropWhile_plain)
  then show ?thesis
    using join_words_lower [OF assms] ascii_fields_join [OF assms] by (simp add: Fields_def)
qed

text \<open>
  A generated phrase passes the wallet's own audit: whatever random bytes it is drawn from, a
  phrase of 12, 18 or 24 words is reported valid, with the right number of words.
\<close>

theorem NewSeedPhrase_audited:
  assumes "words \<in> {12, 18, 24}" and "rand_Read (nat words) = Inr b" and "length b = nat words"
  shows "\<exists>phrase report. NewSeedPhrase rand_Read words = Inr phrase
    \<and> AuditSeedPhrase U V phrase = (report, None) \<and> rep_Valid report \<and> rep_Words report = nat words"
proof -
  define ws where "ws = map (\<lambda>v. seedWords ! (unat v mod length seedWords)) b"
  have mem: "seedWords ! (unat v mod length seedWords) \<in> set seedWords" for v :: byte
    by (rule nth_mem) (simp add: length_seedWords)
  have "list_all plain_word ws"
    using seedWords_plain mem by (auto simp: ws_def list_all_iff)
  then have fields: "Fields V (ToLower U (TrimSpace V (join_words ws))) = ws" by (rule Fields_join)
  have known: "\<not> list_ex (\<lambda>w. w \<notin> set seedWords) ws" using mem by (auto simp: ws_def list_ex_iff)
  have len: "length ws = 12 \<or> length ws = 18 \<or> length ws = 24" using assms(1,3) by (auto simp: ws_def)
  have "NewSeedPhrase rand_Read words = Inr (join_words ws)"
    using assms(1,2) by (auto simp: NewSeedPhrase_def ws_def)
  then show ?thesis
    using fields known len assms(3) by (auto simp: AuditSeedPhrase_def Let_def ws_def [symmetric])
      (auto simp: ws_def)
qed

theorem NewSeedPhrase_audited_witness:
  "\<exists>phrase report. NewSeedPhrase (\<lambda>n. Inr (replicate n 130)) 12 = Inr phrase
    \<and> AuditSeedPhrase demo_unicode \<lparr>usp_TrimSpace = id, usp_Fields = (\<lambda>s. [s])\<rparr> phrase = (report, None)
    \<and> rep_Valid report \<and> rep_Words report = 12"
  using NewSeedPhrase_audited [of 12 "\<lambda>n. Inr (replicate n 130)" "replicate 12 130"] by simp

text \<open>
  The audit overstates the entropy. A phrase of \<open>n\<close> words is one of at most \<open>124 ^ n\<close>, since the
  list has 124 words, while the report counts eight bits, a factor of 256, for each word.
\<close>

theorem seed_entropy_overstated:
  assumes "0 < n"
  shows "card {phrase. \<exists>b. length b = n \<and> NewSeedPhrase (\<lambda>_. Inr b) (int n) = Inr phrase} \<le> 124 ^ n
    \<and> 124 ^ n < (2 :: nat) ^ (8 * n)
    \<and> (length (Fields V (ToLower U (TrimSpace V seed))) = n \<longrightarrow>
         rep_EstimatedEntropy (fst (AuditSeedPhrase U V seed)) = 8 * n)"
proof -
  let ?ph = "{phrase. \<exists>b. length b = n \<and> NewSeedPhrase (\<lambda>_. Inr b) (int n) = Inr phrase}"
  let ?ws = "{ws. set ws \<subseteq> set seedWords \<and> length ws = n}"
  have fin: "finite ?ws" by (rule finite_lists_length_eq) simp
  have "?ph \<subseteq> join_words ` ?ws"
    using assms by (auto simp: NewSeedPhrase_def length_seedWords intro!: imageI nth_mem)
  then have "card ?ph \<le> card (join_words ` ?ws)" by (intro card_mono finite_imageI fin)
  also have "\<dots> \<le> card ?ws" by (rule card_image_le [OF fin])
  also have "\<dots> = card (set seedWords) ^ n" by (simp add: card_lists_length_eq)
  also have "\<dots> \<le> 124 ^ n" using card_length [of seedWords] by (intro power_mono) (simp_all add: length_seedWords)
  finally have "card ?ph \<le> 124 ^ n" .
  moreover have "(124 :: nat) ^ n < (2 ^ 8) ^ n" using assms by (intro power_strict_mono) simp_all
  moreover have "length (Fields V (ToLower U (TrimSpace V seed))) = n \<longrightarrow>
      rep_EstimatedEntropy (fst (AuditSeedPhrase U V seed)) = 8 * n"
    by (simp add: AuditSeedPhrase_def Let_def)
  ultimately show ?thesis by (simp add: power_mult)
qed

theorem seed_entropy_overstated_witness:
  "card {phrase. \<exists>b. length b = 12 \<and> NewSeedPhrase (\<lambda>_. Inr b) 12 = Inr phrase} \<le> 124 ^ 12
    \<and> 124 ^ 12 < (2 :: nat) ^ 96"
  using seed_entropy_overstated [of 12] by simp

end
