(* ===== verification/Pay.thy ===== *)
theory Pay
  imports Seed
begin

text \<open>
  Package \<open>pay\<close> (\<open>pay/pay.go\<close>): payment requests and signed webhooks. The map of requests is a map
  from identifiers; every method holds the mutex throughout and is one step. The clock, in
  nanoseconds, and the random bytes of an identifier are arguments. The lemmas give the life cycle of
  a request over every sequence of calls.
\<close>

definition StatusPending :: string where "StatusPending = ''pending''"

definition StatusBroadcasted :: string where "StatusBroadcasted = ''broadcasted''"

definition StatusConfirmed :: string where "StatusConfirmed = ''confirmed''"

definition StatusExpired :: string where "StatusExpired = ''expired''"

definition StatusRefunded :: string where "StatusRefunded = ''refunded''"

lemmas status_defs = StatusPending_def StatusBroadcasted_def StatusConfirmed_def StatusExpired_def StatusRefunded_def

record PaymentRequest =
  pay_ID :: string
  pay_Merchant :: string
  pay_Address :: string
  pay_Amount :: u64
  pay_Memo :: string
  pay_ExpiresAt :: i64
  pay_Status :: string
  pay_TxHash :: string

type_synonym pay_Store = "string \<Rightarrow> PaymentRequest option"

definition NewStore :: pay_Store where
  "NewStore = (\<lambda>_. None)"

text \<open>\<open>time.Now().Add(ttl).Unix()\<close>; a duration counts nanoseconds.\<close>

definition unix_after :: "int \<Rightarrow> i64 \<Rightarrow> i64" where
  "unix_after now ttl = of_int ((now + sint ttl) div 10 ^ 9)"

definition pay_Create ::
  "error + byte list \<Rightarrow> int \<Rightarrow> pay_Store \<Rightarrow> string \<Rightarrow> string \<Rightarrow> u64 \<Rightarrow> string \<Rightarrow> i64
     \<Rightarrow> pay_Store \<times> (error + PaymentRequest)" where
  "pay_Create idBytes now s merchant address amount memo ttl =
     (if merchant = [] \<or> address = [] \<or> amount = 0 then
        (s, Inl (ErrText ''merchant, address, and positive amount are required''))
      else case idBytes of
        Inl e \<Rightarrow> (s, Inl e)
      | Inr b \<Rightarrow>
          let ttl = (if sint ttl \<le> 0 then 15 * 60 * 1000000000 else ttl);
              req = \<lparr>pay_ID = hex_EncodeToString b, pay_Merchant = merchant, pay_Address = address,
                     pay_Amount = amount, pay_Memo = memo, pay_ExpiresAt = unix_after now ttl,
                     pay_Status = StatusPending, pay_TxHash = []\<rparr>
          in (s(pay_ID req \<mapsto> req), Inr req))"

definition pay_Get :: "int \<Rightarrow> pay_Store \<Rightarrow> string \<Rightarrow> PaymentRequest option" where
  "pay_Get now s pid =
     (case s pid of
        None \<Rightarrow> None
      | Some req \<Rightarrow>
          Some (if pay_Status req = StatusPending \<and> now div 10 ^ 9 > sint (pay_ExpiresAt req)
                then req\<lparr>pay_Status := StatusExpired\<rparr> else req))"

definition MarkBroadcasted ::
  "int \<Rightarrow> pay_Store \<Rightarrow> string \<Rightarrow> string \<Rightarrow> pay_Store \<times> (error + PaymentRequest)" where
  "MarkBroadcasted now s pid txHash =
     (case s pid of
        None \<Rightarrow> (s, Inl (ErrText ''payment not found''))
      | Some req \<Rightarrow>
          let req = (if now div 10 ^ 9 > sint (pay_ExpiresAt req) then req\<lparr>pay_Status := StatusExpired\<rparr>
                     else req\<lparr>pay_Status := StatusBroadcasted, pay_TxHash := txHash\<rparr>)
          in (s(pid \<mapsto> req), Inr req))"

section \<open>Webhooks\<close>

definition SignWebhook :: "byte list \<Rightarrow> byte list \<Rightarrow> string" where
  "SignWebhook secret body = hex_EncodeToString (hmac secret body)"

definition VerifyWebhook :: "byte list \<Rightarrow> byte list \<Rightarrow> string \<Rightarrow> bool" where
  "VerifyWebhook secret body signature \<longleftrightarrow> SignWebhook secret body = signature"

record WebhookEvent =
  evt_Type :: string
  evt_Payment :: PaymentRequest
  evt_CreatedAt :: i64

definition pay_Event :: "int \<Rightarrow> string \<Rightarrow> PaymentRequest \<Rightarrow> WebhookEvent" where
  "pay_Event now eventType payment =
     \<lparr>evt_Type = eventType, evt_Payment = payment, evt_CreatedAt = of_int (now div 10 ^ 9)\<rparr>"

section \<open>The life cycle of a request\<close>

text \<open>Any sequence of calls, with any clock and any random bytes.\<close>

inductive pay_reachable :: "pay_Store \<Rightarrow> bool" where
  pay_new: "pay_reachable NewStore"
| pay_create: "pay_reachable s \<Longrightarrow> pay_reachable (fst (pay_Create b now s merchant address amount memo ttl))"
| pay_mark: "pay_reachable s \<Longrightarrow> pay_reachable (fst (MarkBroadcasted now s pid txHash))"

text \<open>What holds of a stored request: it is filed under its own identifier and its status is possible.\<close>

definition request_ok :: "string \<Rightarrow> PaymentRequest \<Rightarrow> bool" where
  "request_ok pid r \<longleftrightarrow> pay_ID r = pid \<and> pay_Merchant r \<noteq> [] \<and> pay_Address r \<noteq> [] \<and> pay_Amount r \<noteq> 0
     \<and> pay_Status r \<in> {StatusPending, StatusBroadcasted, StatusExpired}
     \<and> (pay_Status r = StatusPending \<longrightarrow> pay_TxHash r = [])"

definition pay_inv :: "pay_Store \<Rightarrow> bool" where
  "pay_inv s \<longleftrightarrow> (\<forall>pid r. s pid = Some r \<longrightarrow> request_ok pid r)"

lemma pay_inv_Create: "pay_inv s \<Longrightarrow> pay_inv (fst (pay_Create b now s merchant address amount memo ttl))"
  by (auto simp: pay_inv_def pay_Create_def request_ok_def Let_def split: sum.splits)

lemma pay_inv_Mark: "pay_inv s \<Longrightarrow> pay_inv (fst (MarkBroadcasted now s pid txHash))"
  by (auto simp: pay_inv_def MarkBroadcasted_def request_ok_def Let_def status_defs split: option.splits)

lemma pay_reachable_inv: "pay_reachable s \<Longrightarrow> pay_inv s"
proof (induction rule: pay_reachable.induct)
  case pay_new
  then show ?case by (simp add: pay_inv_def NewStore_def)
qed (simp_all add: pay_inv_Create pay_inv_Mark)


text \<open>
  A broadcast can be forgotten. A request that was marked as broadcast in time and is marked
  again after its expiry becomes expired, although its transaction has been sent and is still
  recorded.
\<close>

theorem MarkBroadcasted_forgets:
  assumes "s pid = Some r" and "t1 div 10 ^ 9 \<le> sint (pay_ExpiresAt r)" and "sint (pay_ExpiresAt r) < t2 div 10 ^ 9"
  shows "pay_Status (the (fst (MarkBroadcasted t1 s pid tx) pid)) = StatusBroadcasted
    \<and> pay_Status (the (fst (MarkBroadcasted t2 (fst (MarkBroadcasted t1 s pid tx)) pid tx) pid)) = StatusExpired
    \<and> pay_TxHash (the (fst (MarkBroadcasted t2 (fst (MarkBroadcasted t1 s pid tx)) pid tx) pid)) = tx"
  using assms by (simp add: MarkBroadcasted_def Let_def)

definition demo_request :: PaymentRequest where
  "demo_request = projr (snd (pay_Create (Inr [1]) 0 NewStore ''shop'' ''addr'' 5 [] 0))"

lemma demo_request:
  "pay_Create (Inr [1]) 0 NewStore ''shop'' ''addr'' 5 [] 0 = ([''01'' \<mapsto> demo_request], Inr demo_request)"
  "pay_ExpiresAt demo_request = 900"
  by (simp_all add: demo_request_def pay_Create_def unix_after_def NewStore_def hex_EncodeToString_def
      hex_byte_def hex_digit_def Let_def)


theorem MarkBroadcasted_forgets_witness:
  "pay_Status (the (fst (MarkBroadcasted 901000000000
      (fst (MarkBroadcasted 0 [''01'' \<mapsto> demo_request] ''01'' ''ff'')) ''01'' ''ff'') ''01'')) = StatusExpired"
  using MarkBroadcasted_forgets [of "[''01'' \<mapsto> demo_request]" "''01''" demo_request 0 901000000000 "''ff''"]
    demo_request(2) by simp

end
