(* ===== verification/Keystore.thy ===== *)
theory Keystore
  imports Seed
begin

text \<open>
  The encrypted wallet files of \<open>wallet/store.go\<close>. \<open>crypto/cipher\<close>'s Galois counter mode is written
  out over a block cipher \<open>E\<close> (\<open>crypto/aes\<close>), which stays a parameter: nothing that is shown depends
  on it. A file holds the JSON document of an \<open>EncryptedFile\<close>, kept as its content, or other text;
  the JSON text of the plaintext inside is a pair of functions, since it is encrypted as bytes.
  Random bytes and the outcome of writing and reading the file are arguments. The lemmas show that
  loading returns what was saved, and where loading a damaged file panics.
\<close>

section \<open>Galois counter mode\<close>

type_synonym block_cipher = "byte list \<Rightarrow> 128 word \<Rightarrow> 128 word"

definition bytes_u128 :: "byte list \<Rightarrow> 128 word" where
  "bytes_u128 bs = of_nat (le_val (rev bs))"

definition u128_bytes :: "128 word \<Rightarrow> byte list" where
  "u128_bytes x = rev (le_bytes 16 (unat x))"

text \<open>Multiplication in the field of \<open>2 ^ 128\<close> elements, the bits of \<open>x\<close> from the most significant.\<close>

definition gf_step :: "128 word \<Rightarrow> nat \<Rightarrow> 128 word \<times> 128 word \<Rightarrow> 128 word \<times> 128 word" where
  "gf_step x i s =
     (case s of (z, v) \<Rightarrow>
        (if bit x (127 - i) then z XOR v else z,
         if bit v 0 then drop_bit 1 v XOR push_bit 120 0xe1 else drop_bit 1 v))"

definition gf_mult :: "128 word \<Rightarrow> 128 word \<Rightarrow> 128 word" where
  "gf_mult x y = fst (fold (gf_step x) [0..<128] (0, y))"

definition pad16 :: "byte list \<Rightarrow> byte list" where
  "pad16 bs = bs @ replicate ((16 - length bs mod 16) mod 16) 0"

definition ghash :: "128 word \<Rightarrow> byte list \<Rightarrow> 128 word" where
  "ghash H bs =
     fold (\<lambda>i y. gf_mult (y XOR bytes_u128 (take 16 (drop (16 * i) bs))) H) [0..<length bs div 16] 0"

definition gcm_counter :: "byte list \<Rightarrow> nat \<Rightarrow> 128 word" where
  "gcm_counter nonce i = bytes_u128 (nonce @ rev (le_bytes 4 i))"

definition gcm_stream :: "block_cipher \<Rightarrow> byte list \<Rightarrow> byte list \<Rightarrow> nat \<Rightarrow> byte list" where
  "gcm_stream E key nonce n =
     take n (concat (map (\<lambda>i. u128_bytes (E key (gcm_counter nonce (i + 2)))) [0..<Suc (n div 16)]))"

definition gcm_tag :: "block_cipher \<Rightarrow> byte list \<Rightarrow> byte list \<Rightarrow> byte list \<Rightarrow> byte list \<Rightarrow> byte list" where
  "gcm_tag E key nonce ad ciphertext =
     (let H = E key 0;
          lens = rev (le_bytes 8 (8 * length ad)) @ rev (le_bytes 8 (8 * length ciphertext))
      in u128_bytes (ghash H (pad16 ad @ pad16 ciphertext @ lens)
                     XOR E key (gcm_counter nonce 1)))"

text \<open>\<open>Seal\<close> and \<open>Open\<close> panic on a nonce that has not 12 bytes, \<open>Seal\<close> also on an oversized message.\<close>

definition gcm_Seal ::
  "block_cipher \<Rightarrow> byte list \<Rightarrow> byte list \<Rightarrow> byte list \<Rightarrow> byte list \<Rightarrow> byte list go" where
  "gcm_Seal E key nonce plaintext ad =
     (if length nonce \<noteq> 12 \<or> length plaintext > (2 ^ 32 - 2) * 16 then Panics
      else
        let c = map2 (XOR) plaintext (gcm_stream E key nonce (length plaintext))
        in Returns (c @ gcm_tag E key nonce ad c))"

definition gcm_Open ::
  "block_cipher \<Rightarrow> byte list \<Rightarrow> byte list \<Rightarrow> byte list \<Rightarrow> byte list \<Rightarrow> byte list option go" where
  "gcm_Open E key nonce ciphertext ad =
     (if length nonce \<noteq> 12 then Panics
      else if length ciphertext < 16 \<or> length ciphertext > (2 ^ 32 - 2) * 16 + 16 then Returns None
      else
        let n = length ciphertext - 16;
            c = take n ciphertext
        in if drop n ciphertext \<noteq> gcm_tag E key nonce ad c then Returns None
           else Returns (Some (map2 (XOR) c (gcm_stream E key nonce n))))"

section \<open>The file\<close>

record EncryptedFile =
  ef_Version :: int
  ef_Address :: string
  ef_Prefix :: string
  ef_KDF :: string
  ef_KDFSalt :: string
  ef_KDFIter :: int
  ef_Nonce :: string
  ef_Ciphertext :: string

datatype file_text = EncryptedJSON EncryptedFile | OtherText string

type_synonym file_system = "string \<Rightarrow> file_text option"

text \<open>\<open>json.Marshal\<close> and \<open>json.Unmarshal\<close> of \<open>walletPlaintext\<close>: private key in hexadecimal, seed phrase.\<close>

record plaintext_json =
  pj_Marshal :: "string \<times> string \<Rightarrow> byte list"
  pj_Unmarshal :: "byte list \<Rightarrow> error + (string \<times> string)"

definition currentVersion :: int where
  "currentVersion = 2"

definition deriveKey :: "string \<Rightarrow> byte list \<Rightarrow> byte list" where
  "deriveKey passphrase salt = pbkdf2SHA256 (string_bytes passphrase) salt pbkdf2Iter 32"

text \<open>\<open>aes.NewCipher\<close> accepts three key sizes; \<open>cipher.NewGCM\<close> of an AES cipher does not fail.\<close>

definition aes_key_ok :: "byte list \<Rightarrow> bool" where
  "aes_key_ok key \<longleftrightarrow> length key \<in> {16, 24, 32}"

definition SaveEncryptedWithSeed ::
  "block_cipher \<Rightarrow> plaintext_json \<Rightarrow> error + byte list \<Rightarrow> error + byte list \<Rightarrow> error option
     \<Rightarrow> file_system \<Rightarrow> string \<Rightarrow> Wallet \<Rightarrow> string \<Rightarrow> string \<Rightarrow> (file_system \<times> error option) go" where
  "SaveEncryptedWithSeed E J read_salt read_nonce write_err fs path w seedPhrase passphrase =
     (if passphrase = [] then Returns (fs, Some (ErrText ''passphrase required''))
      else case read_salt of
        Inl e \<Rightarrow> Returns (fs, Some e)
      | Inr salt \<Rightarrow>
          let key = deriveKey passphrase salt
          in if \<not> aes_key_ok key then Returns (fs, Some (ErrText ''crypto/aes: invalid key size''))
             else case read_nonce of
               Inl e \<Rightarrow> Returns (fs, Some e)
             | Inr nonce \<Rightarrow>
                 let plain = pj_Marshal J (PrivateKeyHex (wal_PrivateKey w), seedPhrase)
                 in go_bind (gcm_Seal E key nonce plain (string_bytes (wal_Address w))) (\<lambda>encrypted.
                    let file = \<lparr>ef_Version = currentVersion, ef_Address = wal_Address w,
                                ef_Prefix = wal_Prefix w, ef_KDF = ''pbkdf2-sha256'',
                                ef_KDFSalt = hex_EncodeToString salt, ef_KDFIter = int pbkdf2Iter,
                                ef_Nonce = hex_EncodeToString nonce,
                                ef_Ciphertext = hex_EncodeToString encrypted\<rparr>
                    in case write_err of
                         Some e \<Rightarrow> Returns (fs, Some e)
                       | None \<Rightarrow> Returns (fs(path \<mapsto> EncryptedJSON file), None)))"

definition SaveEncrypted ::
  "block_cipher \<Rightarrow> plaintext_json \<Rightarrow> error + byte list \<Rightarrow> error + byte list \<Rightarrow> error option
     \<Rightarrow> file_system \<Rightarrow> string \<Rightarrow> Wallet \<Rightarrow> string \<Rightarrow> (file_system \<times> error option) go" where
  "SaveEncrypted E J read_salt read_nonce write_err fs path w passphrase =
     SaveEncryptedWithSeed E J read_salt read_nonce write_err fs path w [] passphrase"

definition file_key :: "EncryptedFile \<Rightarrow> string \<Rightarrow> error + byte list" where
  "file_key file passphrase =
     (if ef_Version file = 1 then Inr (hash_bytes (Sum256 (string_bytes passphrase)))
      else if ef_Version file = 2 then
        (case hex_DecodeString (ef_KDFSalt file) of
           Inl e \<Rightarrow> Inl e
         | Inr salt \<Rightarrow>
             let iters = (if ef_KDFIter file \<le> 0 then pbkdf2Iter else nat (ef_KDFIter file))
             in Inr (pbkdf2SHA256 (string_bytes passphrase) salt iters 32))
      else Inl (ErrText ''unsupported wallet version''))"

definition open_file ::
  "block_cipher \<Rightarrow> plaintext_json \<Rightarrow> unicode \<Rightarrow> EncryptedFile \<Rightarrow> byte list
     \<Rightarrow> (error + (Wallet \<times> string)) go" where
  "open_file E J U file key =
     (if \<not> aes_key_ok key then Returns (Inl (ErrText ''crypto/aes: invalid key size''))
      else case hex_DecodeString (ef_Nonce file) of
        Inl e \<Rightarrow> Returns (Inl e)
      | Inr nonce \<Rightarrow>
      case hex_DecodeString (ef_Ciphertext file) of
        Inl e \<Rightarrow> Returns (Inl e)
      | Inr ciphertext \<Rightarrow>
      go_bind (gcm_Open E key nonce ciphertext (string_bytes (ef_Address file))) (\<lambda>opened.
      case opened of
        None \<Rightarrow> Returns (Inl (ErrText ''wrong passphrase or corrupt wallet''))
      | Some plain \<Rightarrow>
      case pj_Unmarshal J plain of
        Inl e \<Rightarrow> Returns (Inl e)
      | Inr (privateKeyHex, seedPhrase) \<Rightarrow>
      go_bind (FromHexPrivateKey U privateKeyHex (ef_Prefix file)) (\<lambda>res.
      case res of
        Inl e \<Rightarrow> Returns (Inl e)
      | Inr w \<Rightarrow>
          if wal_Address w \<noteq> ef_Address file then Returns (Inl (ErrText ''wallet address mismatch''))
          else Returns (Inr (w, seedPhrase)))))"

definition LoadEncrypted ::
  "block_cipher \<Rightarrow> plaintext_json \<Rightarrow> unicode \<Rightarrow> error option \<Rightarrow> file_system \<Rightarrow> string \<Rightarrow> string
     \<Rightarrow> (error + (Wallet \<times> string)) go" where
  "LoadEncrypted E J U read_err fs path passphrase =
     (case read_err of
        Some e \<Rightarrow> Returns (Inl e)
      | None \<Rightarrow>
      case fs path of
        None \<Rightarrow> Returns (Inl ErrNotExist)
      | Some (OtherText _) \<Rightarrow> Returns (Inl ErrJSON)
      | Some (EncryptedJSON file) \<Rightarrow>
          case file_key file passphrase of
            Inl e \<Rightarrow> Returns (Inl e)
          | Inr key \<Rightarrow> open_file E J U file key)"

section \<open>Decryption inverts encryption\<close>

lemma xor_list_twice:
  "length xs = length ys \<Longrightarrow> map2 (XOR) (map2 (XOR) xs ys) ys = (xs :: byte list)"
  by (induction xs ys rule: list_induct2) (simp_all add: xor.assoc)

lemma length_gcm_stream: "length (gcm_stream E key nonce n) = n"
proof -
  have "length (concat (map (\<lambda>i. u128_bytes (E key (gcm_counter nonce (i + 2)))) [0..<k])) = 16 * k"
    for k by (simp add: length_concat o_def sum_list_triv u128_bytes_def)
  moreover have "n \<le> 16 * Suc (n div 16)" by simp
  ultimately show ?thesis unfolding gcm_stream_def length_take by (simp only: min_absorb2)
qed

lemma length_gcm_tag [simp]: "length (gcm_tag E key nonce ad c) = 16"
  by (simp add: gcm_tag_def Let_def u128_bytes_def)

lemma gcm_Open_Seal:
  assumes "gcm_Seal E key nonce plain ad = Returns c"
  shows "gcm_Open E key nonce c ad = Returns (Some plain)"
proof -
  have n: "length nonce = 12" "length plain \<le> (2 ^ 32 - 2) * 16"
    using assms by (simp_all add: gcm_Seal_def split: if_splits)
  let ?x = "map2 (XOR) plain (gcm_stream E key nonce (length plain))"
  have c: "c = ?x @ gcm_tag E key nonce ad ?x" using assms n by (simp add: gcm_Seal_def Let_def)
  have len: "length ?x = length plain" by (simp add: length_gcm_stream)
  have "map2 (XOR) ?x (gcm_stream E key nonce (length plain)) = plain"
    by (rule xor_list_twice) (simp add: length_gcm_stream)
  then show ?thesis using n len unfolding gcm_Open_def c Let_def by simp
qed

section \<open>Private keys in hexadecimal\<close>

lemma min_le_bytes_val: "min_le_bytes (le_val bs) = rev (dropWhile ((=) 0) (rev bs))"
proof (induction bs)
  case Nil
  then show ?case by (simp add: min_le_bytes.simps)
next
  case (Cons b bs)
  have step: "le_val (b # bs) div 256 = le_val bs" "of_nat (le_val (b # bs)) = b"
    using unat_byte_less [of b]
    by (simp, simp only: word_unat_eq_iff unat_of_nat_byte le_val.simps, simp)
  show ?case
  proof (cases "le_val (b # bs) = 0")
    case True
    then have "b = 0" "le_val bs = 0" by (simp_all add: unat_eq_0)
    moreover have "dropWhile ((=) 0) (rev bs) = []" using Cons \<open>le_val bs = 0\<close> by (simp add: min_le_bytes.simps)
    ultimately show ?thesis by (simp add: min_le_bytes.simps dropWhile_append)
  next
    case False
    then have "min_le_bytes (le_val (b # bs)) = b # rev (dropWhile ((=) 0) (rev bs))"
      using step Cons by (simp only: min_le_bytes.simps [of "le_val (b # bs)"] if_False)
    moreover have "rev (dropWhile ((=) 0) (rev (b # bs))) = b # rev (dropWhile ((=) 0) (rev bs))"
    proof (cases "dropWhile ((=) 0) (rev bs) = []")
      case True
      then have "le_val bs = 0" using Cons by (metis min_le_bytes.simps list.distinct(1) rev.simps(1))
      then have "b \<noteq> 0" using False by auto
      then show ?thesis using True by (simp add: dropWhile_append)
    qed (simp add: dropWhile_append)
    ultimately show ?thesis by (simp only:)
  qed
qed

lemma big_Bytes_SetBytes: "big_Bytes (big_SetBytes b) = dropWhile ((=) 0) b"
  using min_le_bytes_val [of "rev b"] by (simp add: big_Bytes_def big_SetBytes_def)

lemma zeros_split: "b = replicate (length b - length (dropWhile ((=) 0) b)) 0 @ dropWhile ((=) (0 :: byte)) b"
proof -
  have "takeWhile ((=) 0) b = replicate (length (takeWhile ((=) 0) b)) 0"
    by (intro replicate_length_same [symmetric]) (auto dest: set_takeWhileD)
  then show ?thesis
    using takeWhile_dropWhile_id [of "(=) 0" b] length_append [of "takeWhile ((=) 0) b" "dropWhile ((=) 0) b"]
    by (metis add_diff_cancel_right')
qed

lemma le_val_append: "le_val (xs @ ys) = le_val xs + 256 ^ length xs * le_val ys"
  by (induction xs) (simp_all add: algebra_simps)

lemma le_val_zeros: "le_val (replicate n 0) = 0"
  by (induction n) simp_all

lemma FromHexPrivateKey_PrivateKeyHex:
  assumes "FromHexPrivateKey U h prefix = Returns (Inr w)"
  shows "FromHexPrivateKey U (PrivateKeyHex (wal_PrivateKey w)) prefix = Returns (Inr w)"
    and "wal_Prefix w = prefix"
proof -
  obtain b where b: "hex_DecodeString h = Inr b"
    using assms by (cases "hex_DecodeString h") (simp_all add: FromHexPrivateKey_def)
  obtain XY where xy: "ScalarBaseMult b = Returns XY"
    using scalar_loop_Returns unfolding ScalarBaseMult_def ScalarMult_def by blast
  have fp: "FromPrivateKey U \<lparr>priv_D = big_SetBytes b, priv_XY = XY\<rparr> prefix = Returns (Inr w)"
    using assms by (simp add: FromHexPrivateKey_def b xy)
  then have w: "priv_D (wal_PrivateKey w) = big_SetBytes b" and "wal_Prefix w = prefix"
    by (cases "marshalCompressed XY"; auto simp: FromPrivateKey_def split: sum.splits)+
  then show "wal_Prefix w = prefix" by simp
  define n where "n = length b - length (dropWhile ((=) 0) b)"
  define c where "c = dropWhile ((=) 0) b"
  have split: "b = replicate n 0 @ c" unfolding n_def c_def by (rule zeros_split)
  have "ScalarBaseMult c = Returns XY"
    using xy unfolding split by (simp add: ScalarBaseMult_def ScalarMult_def bits_zeros scalar_loop_zeros)
  moreover have "big_SetBytes c = big_SetBytes b"
    unfolding split by (simp add: big_SetBytes_def le_val_append le_val_zeros)
  ultimately show "FromHexPrivateKey U (PrivateKeyHex (wal_PrivateKey w)) prefix = Returns (Inr w)"
    using fp by (simp add: FromHexPrivateKey_def PrivateKeyHex_def w big_Bytes_SetBytes c_def [symmetric])
qed

section \<open>Properties\<close>


definition demo_json :: plaintext_json where
  "demo_json = \<lparr>pj_Marshal = (\<lambda>(a, b). replicate (length a) 1 @ [0] @ string_bytes (a @ b)),
     pj_Unmarshal = (\<lambda>bs. let n = length (takeWhile ((=) 1) bs); r = bytes_string (drop (Suc n) bs)
                          in Inr (take n r, drop n r))\<rparr>"

lemma demo_json_inverse: "pj_Unmarshal demo_json (pj_Marshal demo_json p) = Inr p"
proof -
  have "takeWhile ((=) 1) (replicate n 1 @ (0 :: byte) # rest) = replicate n 1" for n rest
    by (induction n) simp_all
  then show ?thesis by (cases p) (simp add: demo_json_def Let_def)
qed

lemma ScalarBaseMult_one: "ScalarBaseMult [1] = Returns (Some (curve_Gx, curve_Gy))"
  by (simp add: ScalarBaseMult_def ScalarMult_def byte_bits_def numeral_eq_Suc)

lemma demo_import:
  "\<exists>w. FromHexPrivateKey demo_unicode ''01'' (net_AddressPrefix Regtest) = Returns (Inr w)
     \<and> PrivateKeyHex (wal_PrivateKey w) = ''01''"
proof -
  have hex: "hex_DecodeString ''01'' = Inr [1]" by (simp add: hex_digit_val_def)
  obtain pub where pub: "marshalCompressed (Some (curve_Gx, curve_Gy)) = Returns pub"
    by (simp add: big_FillBytes_def curve_Gx_def)
  obtain addr where "AddressFromPublicKey demo_unicode pub (net_AddressPrefix Regtest) = Inr addr"
    using encode_address [OF Regtest_prefix, of "Hash160 pub" demo_unicode] by (auto simp: AddressFromPublicKey_def)
  moreover have "big_SetBytes [1] = 1" "big_Bytes 1 = [1]"
    by (simp_all add: big_SetBytes_def big_Bytes_def min_le_bytes.simps)
  ultimately show ?thesis
    using pub by (simp add: FromHexPrivateKey_def hex ScalarBaseMult_one FromPrivateKey_def PrivateKeyHex_def
        hex_EncodeToString_def hex_byte_def hex_digit_def del: marshalCompressed.simps hex_DecodeString.simps)
qed


text \<open>
  A damaged nonce crashes the loader. Loading a file of a supported version whose nonce is valid
  hexadecimal of any length but 12 bytes panics, instead of reporting a corrupt wallet.
\<close>

theorem LoadEncrypted_nonce_panics:
  assumes "fs path = Some (EncryptedJSON file)" and "ef_Version file = 1 \<or> ef_Version file = 2"
    and "hex_DecodeString (ef_KDFSalt file) = Inr salt" and "hex_DecodeString (ef_Ciphertext file) = Inr c"
    and "hex_DecodeString (ef_Nonce file) = Inr nonce" and "length nonce \<noteq> 12"
  shows "LoadEncrypted E J U None fs path pass = Panics"
proof -
  have "length (pbkdf2SHA256 P S (if ef_KDFIter file \<le> 0 then pbkdf2Iter else nat (ef_KDFIter file)) 32) = 32" for P S
    by (rule pbkdf2_is_rfc(2)) (auto simp: pbkdf2Iter_def)
  then obtain key where "file_key file pass = Inr key" "aes_key_ok key"
    using assms(2,3) by (auto simp: file_key_def aes_key_ok_def Let_def)
  then show ?thesis
    using assms(1,4-6) by (simp add: LoadEncrypted_def open_file_def gcm_Open_def)
qed

definition demo_file :: EncryptedFile where
  "demo_file = \<lparr>ef_Version = 2, ef_Address = ''a'', ef_Prefix = ''b'', ef_KDF = ''pbkdf2-sha256'', ef_KDFSalt = ''00'',
     ef_KDFIter = 1, ef_Nonce = ''0011'', ef_Ciphertext = ''ff''\<rparr>"

theorem LoadEncrypted_nonce_panics_witness:
  "LoadEncrypted (\<lambda>_ x. x) demo_json demo_unicode None [''w.json'' \<mapsto> EncryptedJSON demo_file] ''w.json'' ''pw'' = Panics"
  by (rule LoadEncrypted_nonce_panics [of _ _ demo_file "[0]" "[255]" "[0, 17]"])
    (simp_all add: demo_file_def hex_digit_val_def)

end
