(* ===== verification/Rpc.thy ===== *)
theory Rpc
  imports Health Adapter Pay Keystore
begin

text \<open>
  Package \<open>rpc\<close> (\<open>rpc/server.go\<close>) and package \<open>explorer\<close> (\<open>explorer/server.go\<close>). The store and the pool
  of a server made from a chain manager are the manager's own, so the server holds the manager alone.
  A handler takes a request and returns the new server and the answer; nothing, where it never
  returns. The JSON decoder with its limit on the body, the clock, random bytes, the signer, the
  Unicode tables and Go's order of visiting maps are the record \<open>rpc_env\<close>. A panic is caught by
  \<open>net/http\<close>, which drops the connection. Struct values given to the JSON encoder are kept as they are,
  and error texts as the error values they are made of.
\<close>

section \<open>Requests and answers\<close>

record Request =
  rq_Method :: string
  rq_Path :: string
  rq_Authorization :: string
  rq_Address :: string
  rq_Body :: "byte list"

text \<open>A \<open>float64\<close> of a request is only handed on, and kept as its 64 bits.\<close>

datatype json = JBool bool | JNum int | JFloat u64 | JStr string | JArr "json list" | JObj "(string \<times> json) list"

datatype body =
    JSON json | TipBody ChainTip | TemplateBody MiningTemplate | UTXOBody "UTXO list" | InvoiceBody PaymentRequest
  | HealthBody HealthReport | ErrorBody error | Location string

record Response =
  rs_Status :: nat
  rs_Headers :: "(string \<times> string) list"
  rs_Body :: body

datatype answer = Answer Response | Dropped

record BuildRequest =
  br_PrivateKeyHex :: string
  br_ToAddress :: string
  br_Amount :: u64
  br_Fee :: u64

record TradeRequest =
  tr_PrivateKeyHex :: string
  tr_PoolAddress :: string
  tr_Amount :: u64
  tr_Side :: string
  tr_Ticker :: string
  tr_LaunchID :: string
  tr_TradeID :: string
  tr_PriceNevel :: u64

record PoolRequest =
  pq_LaunchID :: string
  pq_Ticker :: string
  pq_NevelLiquidity :: u64
  pq_TokenLiquidity :: u64

record InvoiceRequest =
  iq_Merchant :: string
  iq_Address :: string
  iq_Amount :: u64
  iq_Memo :: string
  iq_TTL :: i64

record rpc_json =
  rj_Hex :: "nat \<Rightarrow> byte list \<Rightarrow> error + string"
  rj_Build :: "nat \<Rightarrow> byte list \<Rightarrow> error + BuildRequest"
  rj_Trade :: "nat \<Rightarrow> byte list \<Rightarrow> error + TradeRequest"
  rj_Pool :: "nat \<Rightarrow> byte list \<Rightarrow> error + PoolRequest"
  rj_Invoice :: "nat \<Rightarrow> byte list \<Rightarrow> error + InvoiceRequest"
  rj_MarshalPool :: "PoolRequest \<Rightarrow> byte list"

record rpc_env =
  re_Json :: rpc_json
  re_Unicode :: unicode
  re_Sign :: signer
  re_ErrText :: "error \<Rightarrow> string"
  re_Key :: "error + PrivateKey"
  re_Rand :: "error + byte list"
  re_Now :: int
  re_Rank :: ranking
  re_Ranks :: "nat \<Rightarrow> ranking"
  re_MsgTime :: int
  re_BlockTime :: i64

section \<open>The server\<close>

datatype backend = Standalone DB "Mempool option" "SignatureVerifier option" | OnChain Manager

record Server =
  srv_Backend :: backend
  srv_Payments :: pay_Store
  srv_AuthToken :: string
  srv_Peers :: "(int \<Rightarrow> int) option"

definition srv_Store :: "Server \<Rightarrow> DB" where
  "srv_Store s = (case srv_Backend s of Standalone d mp v \<Rightarrow> d | OnChain m \<Rightarrow> mgr_Store m)"

definition srv_Mempool :: "Server \<Rightarrow> Mempool option" where
  "srv_Mempool s = (case srv_Backend s of Standalone d mp v \<Rightarrow> mp | OnChain m \<Rightarrow> mgr_Mempool m)"

definition srv_Chain :: "Server \<Rightarrow> Manager option" where
  "srv_Chain s = (case srv_Backend s of Standalone d mp v \<Rightarrow> None | OnChain m \<Rightarrow> Some m)"

definition rpc_New :: "DB \<Rightarrow> Mempool option \<Rightarrow> SignatureVerifier option \<Rightarrow> Server" where
  "rpc_New store mp verifier =
     \<lparr>srv_Backend = Standalone store mp verifier, srv_Payments = NewStore, srv_AuthToken = [], srv_Peers = None\<rparr>"

definition NewWithChain :: "Manager \<Rightarrow> Server" where
  "NewWithChain manager =
     \<lparr>srv_Backend = OnChain manager, srv_Payments = NewStore, srv_AuthToken = [], srv_Peers = None\<rparr>"

text \<open>\<open>s.Mempool.Add(t)\<close>: the pool looks outputs up in the server's store.\<close>

definition srv_Add :: "rpc_env \<Rightarrow> Server \<Rightarrow> Mempool \<Rightarrow> Transaction \<Rightarrow> Server \<times> error option" where
  "srv_Add env s mp t =
     (case srv_Backend s of
        Standalone d _ v \<Rightarrow>
          (case mp_Add (re_Ranks env) (re_Now env) (Get d) v mp t of
             (mp, e) \<Rightarrow> (s\<lparr>srv_Backend := Standalone d (Some mp) v\<rparr>, e))
      | OnChain m \<Rightarrow>
          (case mp_Add (re_Ranks env) (re_Now env) (Get (mgr_Store m)) (mgr_Verifier m) mp t of
             (mp, e) \<Rightarrow> (s\<lparr>srv_Backend := OnChain (m\<lparr>mgr_Mempool := Some mp\<rparr>)\<rparr>, e)))"

definition addr_prefix :: "Server \<Rightarrow> string" where
  "addr_prefix s = (case srv_Chain s of None \<Rightarrow> ''nevel'' | Some m \<Rightarrow> net_AddressPrefix (mgr_Network m))"

section \<open>Answers\<close>

definition writeBody :: "body \<Rightarrow> answer" where
  "writeBody b = Answer \<lparr>rs_Status = 200, rs_Headers = [(''content-type'', ''application/json'')], rs_Body = b\<rparr>"

definition writeJSON :: "json \<Rightarrow> answer" where
  "writeJSON v = writeBody (JSON v)"

definition http_Error :: "error \<Rightarrow> nat \<Rightarrow> answer" where
  "http_Error e code =
     Answer \<lparr>rs_Status = code, rs_Headers = [(''content-type'', ''text/plain; charset=utf-8'')], rs_Body = ErrorBody e\<rparr>"

definition method_not_allowed :: answer where
  "method_not_allowed = http_Error (ErrText ''method not allowed'') 405"

definition bad_json :: answer where
  "bad_json = http_Error (ErrText ''bad json'') 400"

definition j_hash :: "hash \<Rightarrow> json" where
  "j_hash h = JStr (hex_hash h)"

definition j_u64 :: "u64 \<Rightarrow> json" where
  "j_u64 w = JNum (uint w)"

definition j_u32 :: "u32 \<Rightarrow> json" where
  "j_u32 w = JNum (uint w)"

definition blockDTO :: "Block \<Rightarrow> json" where
  "blockDTO b =
     JObj [(''hash'', j_hash (blk_Hash b)), (''height'', j_u64 (hdr_Height (blk_Header b))),
       (''previous'', j_hash (hdr_PrevHash (blk_Header b))),
       (''merkleRoot'', j_hash (hdr_MerkleRoot (blk_Header b))),
       (''timestamp'', JNum (sint (hdr_Timestamp (blk_Header b)))), (''bits'', j_u32 (hdr_Bits (blk_Header b))),
       (''nonce'', JNum (uint (hdr_Nonce (blk_Header b)))),
       (''transactions'', JArr (map (\<lambda>t. j_hash (tx_Hash t)) (blk_Transactions b)))]"

definition txDTO :: "Transaction \<Rightarrow> json" where
  "txDTO t =
     JObj [(''hash'', j_hash (tx_Hash t)), (''version'', JNum (uint (tx_Version t))),
       (''inputs'', JArr (map (\<lambda>inp. JObj [(''prevTxHash'', j_hash (in_PrevTxHash inp)),
                                          (''outputIdx'', j_u32 (in_OutputIdx inp))]) (tx_Inputs t))),
       (''outputs'', JArr (map (\<lambda>out. JObj [(''amount'', j_u64 (out_Amount out)),
                                           (''lockingScript'', JStr (hex_EncodeToString (out_LockingScript out)))])
                              (tx_Outputs t))),
       (''lockTime'', JNum (uint (tx_LockTime t))), (''coinbase'', JBool (IsCoinbase t))]"

definition parseHash :: "string \<Rightarrow> error + hash" where
  "parseHash raw =
     (case hex_DecodeString raw of
        Inl e \<Rightarrow> Inl (ErrText ''bad hash'')
      | Inr b \<Rightarrow> if length b \<noteq> 32 then Inl (ErrText ''bad hash'') else Inr (copy_hash b))"

definition metaHash :: "string \<Rightarrow> string \<Rightarrow> string \<Rightarrow> string \<Rightarrow> string" where
  "metaHash launchID tradeID side ticker =
     hex_hash (Sum256 (string_bytes (launchID @ '':'' @ tradeID @ '':'' @ side @ '':'' @ ticker)))"

definition explorerUrl :: "string \<Rightarrow> string \<Rightarrow> json" where
  "explorerUrl kind h = JStr (''https://0nevel.com/explorer?'' @ kind @ ''='' @ h)"

text \<open>\<open>strings.HasPrefix\<close>, \<open>strings.TrimPrefix\<close>, \<open>strconv.ParseUint(s, 10, 64)\<close>.\<close>

definition HasPrefix :: "string \<Rightarrow> string \<Rightarrow> bool" where
  "HasPrefix s p \<longleftrightarrow> take (length p) s = p"

definition TrimPrefix :: "string \<Rightarrow> string \<Rightarrow> string" where
  "TrimPrefix s p = (if HasPrefix s p then drop (length p) s else s)"

definition ParseUint :: "string \<Rightarrow> u64 option" where
  "ParseUint s =
     (if s = [] then None
      else case dec_val 0 s of None \<Rightarrow> None | Some n \<Rightarrow> if n < 2 ^ 64 then Some (of_nat n) else None)"

section \<open>Handlers that only read\<close>

definition health :: answer where
  "health = writeJSON (JObj [(''status'', JStr ''ok'')])"

definition securityMetrics :: "rpc_env \<Rightarrow> Server \<Rightarrow> answer" where
  "securityMetrics env s =
     (let peers = (case srv_Peers s of None \<Rightarrow> 0 | Some f \<Rightarrow> f (re_Now env));
          alert = (\<lambda>a. writeJSON (JObj [(''peerCount'', JNum peers), (''alerts'', JArr [JStr a])]))
      in case srv_Chain s of
           None \<Rightarrow> alert ''chain_manager_unavailable''
         | Some m \<Rightarrow>
             case mgr_Tip m of
               Inl e \<Rightarrow> alert ''tip_unavailable''
             | Inr tip \<Rightarrow>
                 writeBody (HealthBody (AssessHealth tip peers
                   \<lparr>ht_MaxTipAge = 5 * 60 * 10 ^ 9, ht_MaxReorgDepth = 0, ht_MinPeerCount = 1,
                    ht_MinHashrateWork = None\<rparr> (re_Now env))))"

definition rpc_tip :: "Server \<Rightarrow> answer" where
  "rpc_tip s =
     (case srv_Chain s of
        Some m \<Rightarrow> (case mgr_Tip m of Inl e \<Rightarrow> http_Error e 404 | Inr tip \<Rightarrow> writeBody (TipBody tip))
      | None \<Rightarrow>
          case Tip (srv_Store s) of
            Inl e \<Rightarrow> http_Error e 404
          | Inr h \<Rightarrow>
              case GetBlock (srv_Store s) h of
                Inl e \<Rightarrow> http_Error e 404
              | Inr b \<Rightarrow>
                  writeJSON (JObj [(''hash'', j_hash h), (''height'', j_u64 (hdr_Height (blk_Header b))),
                    (''bits'', j_u32 (hdr_Bits (blk_Header b)))]))"

definition writeBlock :: "Server \<Rightarrow> hash \<Rightarrow> answer" where
  "writeBlock s h =
     (case GetBlock (srv_Store s) h of Inl e \<Rightarrow> http_Error e 404 | Inr b \<Rightarrow> writeJSON (blockDTO b))"

definition blockHeight :: "Request \<Rightarrow> Server \<Rightarrow> answer" where
  "blockHeight rq s =
     (case ParseUint (TrimPrefix (rq_Path rq) ''/block/height/'') of
        None \<Rightarrow> http_Error (ErrText ''bad height'') 400
      | Some height \<Rightarrow>
          case BlockHashByHeight (srv_Store s) height of Inl e \<Rightarrow> http_Error e 404 | Inr h \<Rightarrow> writeBlock s h)"

definition blockHash :: "Request \<Rightarrow> Server \<Rightarrow> answer" where
  "blockHash rq s =
     (case parseHash (TrimPrefix (rq_Path rq) ''/block/'') of
        Inl e \<Rightarrow> http_Error (ErrText ''bad hash'') 400
      | Inr h \<Rightarrow> writeBlock s h)"

definition txByHash :: "Request \<Rightarrow> Server \<Rightarrow> answer" where
  "txByHash rq s =
     (case parseHash (TrimPrefix (rq_Path rq) ''/tx/'') of
        Inl e \<Rightarrow> http_Error (ErrText ''bad hash'') 400
      | Inr h \<Rightarrow> case GetTx (srv_Store s) h of Inl e \<Rightarrow> http_Error e 404 | Inr t \<Rightarrow> writeJSON (txDTO t))"

definition rpc_address :: "rpc_env \<Rightarrow> Request \<Rightarrow> Server \<Rightarrow> answer" where
  "rpc_address env rq s =
     (let parts = split_path (TrimPrefix (rq_Path rq) ''/address/'')
      in if length parts \<noteq> 2 \<or> (parts ! 1 \<noteq> ''balance'' \<and> parts ! 1 \<noteq> ''utxos'') then
           http_Error (ErrText ''expected /address/{address}/balance or /address/{address}/utxos'') 404
         else case LockingScriptForAddress (re_Unicode env) (parts ! 0) (addr_prefix s) of
           Inl e \<Rightarrow> http_Error e 400
         | Inr script \<Rightarrow>
             if parts ! 1 = ''balance'' then
               case BalanceByScript (srv_Store s) script of
                 Inl e \<Rightarrow> http_Error e 500
               | Inr balance \<Rightarrow> writeJSON (JObj [(''address'', JStr (parts ! 0)), (''balance'', j_u64 balance)])
             else case ListUTXOsByScript (srv_Store s) script of
                 Inl e \<Rightarrow> http_Error e 500
               | Inr utxos \<Rightarrow> writeBody (UTXOBody utxos))"

definition rpc_mempool :: "rpc_env \<Rightarrow> Server \<Rightarrow> answer" where
  "rpc_mempool env s =
     (case srv_Mempool s of
        None \<Rightarrow> writeJSON (JArr [])
      | Some mp \<Rightarrow> writeJSON (JArr (map (\<lambda>t. j_hash (tx_Hash t)) (Snapshot (re_Rank env) mp))))"

definition miningTemplate :: "rpc_env \<Rightarrow> Request \<Rightarrow> Server \<Rightarrow> answer" where
  "miningTemplate env rq s =
     (case srv_Chain s of
        None \<Rightarrow> http_Error (ErrText ''chain manager unavailable'') 503
      | Some m \<Rightarrow>
          if rq_Address rq = [] then http_Error (ErrText ''address query parameter required'') 400
          else case LockingScriptForAddress (re_Unicode env) (rq_Address rq) (net_AddressPrefix (mgr_Network m)) of
            Inl e \<Rightarrow> http_Error e 400
          | Inr script \<Rightarrow>
              case BuildTemplate (re_Rank env) (re_MsgTime env) (re_BlockTime env) m script of
                Inl e \<Rightarrow> http_Error e 500
              | Inr (_, tmpl) \<Rightarrow> writeBody (TemplateBody tmpl))"

definition paymentStatus :: "rpc_env \<Rightarrow> Request \<Rightarrow> Server \<Rightarrow> answer" where
  "paymentStatus env rq s =
     (case pay_Get (re_Now env) (srv_Payments s) (TrimPrefix (rq_Path rq) ''/payments/status/'') of
        None \<Rightarrow> http_Error (ErrText ''payment not found'') 404
      | Some invoice \<Rightarrow> writeBody (InvoiceBody invoice))"

definition genesisWalletNew :: "rpc_env \<Rightarrow> Request \<Rightarrow> Server \<Rightarrow> answer" where
  "genesisWalletNew env rq s =
     (if rq_Method rq \<noteq> ''POST'' then method_not_allowed
      else case wallet_New (re_Key env) (re_Unicode env) (addr_prefix s) of
        Panics \<Rightarrow> Dropped
      | Returns (Inl e) \<Rightarrow> http_Error e 500
      | Returns (Inr wlt) \<Rightarrow>
          writeJSON (JObj [(''address'', JStr (wal_Address wlt)),
            (''privateKeyHex'', JStr (PrivateKeyHex (wal_PrivateKey wlt))),
            (''publicKeyHex'', JStr (hex_EncodeToString (wal_PublicKey wlt)))]))"

definition genesisPool :: "rpc_env \<Rightarrow> Request \<Rightarrow> answer" where
  "genesisPool env rq =
     (if rq_Method rq \<noteq> ''POST'' then method_not_allowed
      else case rj_Pool (re_Json env) (2 ^ 20) (rq_Body rq) of
        Inl e \<Rightarrow> bad_json
      | Inr req \<Rightarrow>
          let poolSeed = ''genesis-pool:'' @ pq_LaunchID req @ '':'' @ pq_Ticker req;
              poolAddr = ''nevel1pool'' @ ToLower (re_Unicode env) (pq_Ticker req)
                @ take 8 (hex_hash (Sum256 (string_bytes poolSeed)));
              txHash = hex_hash (Sum256 (rj_MarshalPool (re_Json env) req))
          in writeJSON (JObj [(''success'', JBool True), (''poolAddress'', JStr poolAddr), (''txHash'', JStr txHash),
               (''ticker'', JStr (pq_Ticker req)), (''nevelLiquidity'', JFloat (pq_NevelLiquidity req)),
               (''tokenLiquidity'', JFloat (pq_TokenLiquidity req)), (''chain'', JStr ''nevel''),
               (''explorerUrl'', explorerUrl ''pool'' poolAddr)]))"

section \<open>Handlers that change the server\<close>

definition decode_tx :: "rpc_env \<Rightarrow> Request \<Rightarrow> answer + Transaction" where
  "decode_tx env rq =
     (if rq_Method rq \<noteq> ''POST'' then Inl method_not_allowed
      else case rj_Hex (re_Json env) (2 ^ 20) (rq_Body rq) of
        Inl e \<Rightarrow> Inl bad_json
      | Inr hx \<Rightarrow>
          case hex_DecodeString hx of
            Inl e \<Rightarrow> Inl (http_Error (ErrText ''bad transaction hex'') 400)
          | Inr data \<Rightarrow>
              case DeserializeTransaction data of Inl e \<Rightarrow> Inl (http_Error e 400) | Inr t \<Rightarrow> Inr t)"

definition broadcastTx :: "rpc_env \<Rightarrow> Request \<Rightarrow> Server \<Rightarrow> Server \<times> answer" where
  "broadcastTx env rq s =
     (case decode_tx env rq of
        Inl a \<Rightarrow> (s, a)
      | Inr t \<Rightarrow>
          case srv_Mempool s of
            None \<Rightarrow> (s, http_Error (ErrText ''mempool unavailable'') 503)
          | Some mp \<Rightarrow>
              case srv_Add env s mp t of
                (s, Some e) \<Rightarrow> (s, http_Error e 400)
              | (s, None) \<Rightarrow> (s, writeJSON (JObj [(''txHash'', j_hash (tx_Hash t))])))"

definition build_fee :: "BuildRequest \<Rightarrow> u64" where
  "build_fee req = (if br_Fee req = 0 then 1000 else br_Fee req)"

text \<open>\<open>FromHexPrivateKey\<close> followed by \<open>BuildTransaction\<close>, for \<open>buildTx\<close> and \<open>genesisTrade\<close>.\<close>

datatype built = BadKey error | BadBuild Wallet error | Built Wallet Transaction | BuildPanics

definition build_from ::
  "rpc_env \<Rightarrow> Server \<Rightarrow> string \<Rightarrow> string \<Rightarrow> u64 \<Rightarrow> u64 \<Rightarrow> built" where
  "build_from env s key toAddress amount fee =
     (case FromHexPrivateKey (re_Unicode env) key (addr_prefix s) of
        Panics \<Rightarrow> BuildPanics
      | Returns (Inl e) \<Rightarrow> BadKey e
      | Returns (Inr w) \<Rightarrow>
          case BuildTransaction (re_Unicode env) (re_Sign env) w (ListUTXOsByScript (srv_Store s)) toAddress amount fee of
            Panics \<Rightarrow> BuildPanics
          | Returns (Inl e) \<Rightarrow> BadBuild w e
          | Returns (Inr t) \<Rightarrow> Built w t)"

definition bad_key :: "error \<Rightarrow> answer" where
  "bad_key e = http_Error (Errorf ''bad private key: '' e) 400"

definition buildTx :: "rpc_env \<Rightarrow> Request \<Rightarrow> Server \<Rightarrow> Server \<times> answer" where
  "buildTx env rq s =
     (if rq_Method rq \<noteq> ''POST'' then (s, method_not_allowed)
      else case rj_Build (re_Json env) (2 ^ 20) (rq_Body rq) of
        Inl e \<Rightarrow> (s, bad_json)
      | Inr req \<Rightarrow>
          if br_PrivateKeyHex req = [] \<or> br_ToAddress req = [] \<or> br_Amount req = 0 then
            (s, http_Error (ErrText ''privateKeyHex, toAddress, and amount are required'') 400)
          else case build_from env s (br_PrivateKeyHex req) (br_ToAddress req) (br_Amount req) (build_fee req) of
            BuildPanics \<Rightarrow> (s, Dropped)
          | BadKey e \<Rightarrow> (s, bad_key e)
          | BadBuild w e \<Rightarrow> (s, http_Error e 400)
          | Built w t \<Rightarrow>
              case srv_Mempool s of
                None \<Rightarrow> (s, http_Error (ErrText ''mempool unavailable'') 503)
              | Some mp \<Rightarrow>
                  case srv_Add env s mp t of
                    (s, Some e) \<Rightarrow> (s, http_Error e 400)
                  | (s, None) \<Rightarrow>
                      (s, writeJSON (JObj [(''txHash'', j_hash (tx_Hash t)), (''fromAddress'', JStr (wal_Address w)),
                         (''toAddress'', JStr (br_ToAddress req)), (''amount'', j_u64 (br_Amount req)),
                         (''fee'', j_u64 (build_fee req)), (''raw'', JStr (hex_EncodeToString (SerializeTransaction t))),
                         (''explorerUrl'', explorerUrl ''tx'' (hex_hash (tx_Hash t)))])))"

definition trade_meta :: "TradeRequest \<Rightarrow> (string \<times> json) list \<Rightarrow> answer" where
  "trade_meta req extra =
     (let h = metaHash (tr_LaunchID req) (tr_TradeID req) (tr_Side req) (tr_Ticker req)
      in writeJSON (JObj ([(''success'', JBool True), (''txHash'', JStr h), (''type'', JStr ''genesis_meta''),
           (''side'', JStr (tr_Side req)), (''ticker'', JStr (tr_Ticker req))] @ extra
           @ [(''explorerUrl'', explorerUrl ''tx'' h)])))"

definition trade_utxo :: "TradeRequest \<Rightarrow> Wallet \<Rightarrow> Transaction \<Rightarrow> answer" where
  "trade_utxo req wlt t =
     writeJSON (JObj [(''success'', JBool True), (''txHash'', j_hash (tx_Hash t)), (''type'', JStr ''genesis_utxo''),
       (''side'', JStr (tr_Side req)), (''ticker'', JStr (tr_Ticker req)), (''fromAddress'', JStr (wal_Address wlt)),
       (''toAddress'', JStr (tr_PoolAddress req)), (''amount'', j_u64 (tr_Amount req)), (''fee'', JNum 1000),
       (''chain'', JStr ''nevel''), (''explorerUrl'', explorerUrl ''tx'' (hex_hash (tx_Hash t)))])"

definition genesisTrade :: "rpc_env \<Rightarrow> Request \<Rightarrow> Server \<Rightarrow> Server \<times> answer" where
  "genesisTrade env rq s =
     (if rq_Method rq \<noteq> ''POST'' then (s, method_not_allowed)
      else case rj_Trade (re_Json env) (2 ^ 20) (rq_Body rq) of
        Inl e \<Rightarrow> (s, bad_json)
      | Inr req \<Rightarrow>
          if tr_PrivateKeyHex req \<noteq> [] \<and> tr_PoolAddress req \<noteq> [] \<and> tr_Amount req > 0 then
            case build_from env s (tr_PrivateKeyHex req) (tr_PoolAddress req) (tr_Amount req) 1000 of
              BuildPanics \<Rightarrow> (s, Dropped)
            | BadKey e \<Rightarrow> (s, bad_key e)
            | BadBuild wlt e \<Rightarrow>
                (s, trade_meta req [(''fallback'', JBool True), (''fallbackReason'', JStr (re_ErrText env e))])
            | Built wlt t \<Rightarrow>
                (case srv_Mempool s of None \<Rightarrow> s | Some mp \<Rightarrow> fst (srv_Add env s mp t), trade_utxo req wlt t)
          else (s, trade_meta req [(''chain'', JStr ''nevel'')]))"

definition decode_block :: "rpc_env \<Rightarrow> Request \<Rightarrow> answer + Block" where
  "decode_block env rq =
     (case rj_Hex (re_Json env) (2 ^ 22) (rq_Body rq) of
        Inl e \<Rightarrow> Inl bad_json
      | Inr hx \<Rightarrow>
          case hex_DecodeString hx of
            Inl e \<Rightarrow> Inl (http_Error (ErrText ''bad block hex'') 400)
          | Inr data \<Rightarrow> case DeserializeBlock data of Inl e \<Rightarrow> Inl (http_Error e 400) | Inr b \<Rightarrow> Inr b)"

definition submitBlock :: "rpc_env \<Rightarrow> Request \<Rightarrow> Server \<Rightarrow> (Server \<times> answer) option" where
  "submitBlock env rq s =
     (if rq_Method rq \<noteq> ''POST'' then Some (s, method_not_allowed)
      else case srv_Chain s of
        None \<Rightarrow> Some (s, http_Error (ErrText ''chain manager unavailable'') 503)
      | Some m \<Rightarrow>
          case decode_block env rq of
            Inl a \<Rightarrow> Some (s, a)
          | Inr block \<Rightarrow>
              case ValidateAndApplyBlock (re_Now env div 10 ^ 9) m block of
                None \<Rightarrow> None
              | Some (m, Some e) \<Rightarrow> Some (s\<lparr>srv_Backend := OnChain m\<rparr>, http_Error e 400)
              | Some (m, None) \<Rightarrow>
                  Some (s\<lparr>srv_Backend := OnChain m\<rparr>,
                    writeJSON (JObj [(''hash'', j_hash (blk_Hash block)), (''height'', j_u64 (hdr_Height (blk_Header block)))])))"

text \<open>\<open>time.Duration(req.TTL)*time.Second\<close> wraps.\<close>

definition invoice :: "rpc_env \<Rightarrow> Request \<Rightarrow> Server \<Rightarrow> Server \<times> answer" where
  "invoice env rq s =
     (if rq_Method rq \<noteq> ''POST'' then (s, method_not_allowed)
      else case rj_Invoice (re_Json env) (2 ^ 20) (rq_Body rq) of
        Inl e \<Rightarrow> (s, bad_json)
      | Inr req \<Rightarrow>
          case pay_Create (re_Rand env) (re_Now env) (srv_Payments s) (iq_Merchant req) (iq_Address req) (iq_Amount req)
                 (iq_Memo req) (iq_TTL req * 1000000000) of
            (p, Inl e) \<Rightarrow> (s\<lparr>srv_Payments := p\<rparr>, http_Error e 400)
          | (p, Inr created) \<Rightarrow> (s\<lparr>srv_Payments := p\<rparr>, writeBody (InvoiceBody created)))"

section \<open>Routing\<close>

text \<open>
  \<open>http.ServeMux\<close>: a pattern that ends in a slash matches every path below it, the longest match wins;
  an unclean path, and a path whose pattern is registered with a slash added, are redirected.
\<close>

datatype route =
    R_health | R_metrics | R_tip | R_blockHeight | R_blockHash | R_broadcastTx | R_buildTx | R_txByHash | R_address
  | R_mempool | R_template | R_submit | R_invoice | R_status | R_pool | R_trade | R_walletNew

definition routes :: "(string \<times> route) list" where
  "routes =
     [(''/health'', R_health), (''/metrics/security'', R_metrics), (''/chain/tip'', R_tip),
      (''/block/height/'', R_blockHeight), (''/block/'', R_blockHash), (''/tx/broadcast'', R_broadcastTx),
      (''/tx/build'', R_buildTx), (''/tx/'', R_txByHash), (''/address/'', R_address), (''/mempool'', R_mempool),
      (''/mining/template'', R_template), (''/mining/submit'', R_submit), (''/payments/invoice'', R_invoice),
      (''/payments/status/'', R_status), (''/genesis/pool'', R_pool), (''/genesis/trade'', R_trade),
      (''/genesis/wallet/new'', R_walletNew)]"

definition HasSlash :: "string \<Rightarrow> bool" where
  "HasSlash p \<longleftrightarrow> p \<noteq> [] \<and> last p = CHR ''/''"

definition pattern_matches :: "string \<Rightarrow> string \<Rightarrow> bool" where
  "pattern_matches pat path \<longleftrightarrow> (if HasSlash pat then HasPrefix path pat else path = pat)"

definition longer :: "string \<times> route \<Rightarrow> string \<times> route \<Rightarrow> string \<times> route" where
  "longer a b = (if length (fst a) < length (fst b) then b else a)"

definition mux_match :: "string \<Rightarrow> route option" where
  "mux_match path =
     (case filter (\<lambda>(pat, _). pattern_matches pat path) routes of
        [] \<Rightarrow> None
      | x # xs \<Rightarrow> Some (snd (foldl longer x xs)))"

definition cleanPath :: "string \<Rightarrow> string" where
  "cleanPath p =
     (if p = [] then ''/''
      else let p = (if hd p = CHR ''/'' then p else ''/'' @ p); np = filepath_Clean p
           in if HasSlash p \<and> np \<noteq> ''/'' then np @ ''/'' else np)"

definition redirect :: "string \<Rightarrow> answer" where
  "redirect path = Answer \<lparr>rs_Status = 301, rs_Headers = [(''location'', path)], rs_Body = Location path\<rparr>"

definition not_found :: answer where
  "not_found = http_Error (ErrText ''404 page not found'') 404"

definition dispatch :: "rpc_env \<Rightarrow> Request \<Rightarrow> Server \<Rightarrow> route \<Rightarrow> (Server \<times> answer) option" where
  "dispatch env rq s r =
     (case r of
        R_health \<Rightarrow> Some (s, health)
      | R_metrics \<Rightarrow> Some (s, securityMetrics env s)
      | R_tip \<Rightarrow> Some (s, rpc_tip s)
      | R_blockHeight \<Rightarrow> Some (s, blockHeight rq s)
      | R_blockHash \<Rightarrow> Some (s, blockHash rq s)
      | R_broadcastTx \<Rightarrow> Some (broadcastTx env rq s)
      | R_buildTx \<Rightarrow> Some (buildTx env rq s)
      | R_txByHash \<Rightarrow> Some (s, txByHash rq s)
      | R_address \<Rightarrow> Some (s, rpc_address env rq s)
      | R_mempool \<Rightarrow> Some (s, rpc_mempool env s)
      | R_template \<Rightarrow> Some (s, miningTemplate env rq s)
      | R_submit \<Rightarrow> submitBlock env rq s
      | R_invoice \<Rightarrow> Some (invoice env rq s)
      | R_status \<Rightarrow> Some (s, paymentStatus env rq s)
      | R_pool \<Rightarrow> Some (s, genesisPool env rq)
      | R_trade \<Rightarrow> Some (genesisTrade env rq s)
      | R_walletNew \<Rightarrow> Some (s, genesisWalletNew env rq s))"

definition ServeMux :: "rpc_env \<Rightarrow> Request \<Rightarrow> Server \<Rightarrow> (Server \<times> answer) option" where
  "ServeMux env rq s =
     (let path = (if rq_Method rq = ''CONNECT'' then rq_Path rq else cleanPath (rq_Path rq))
      in if path \<notin> fst ` set routes \<and> path \<noteq> [] \<and> path @ ''/'' \<in> fst ` set routes then Some (s, redirect (path @ ''/''))
         else if path \<noteq> rq_Path rq then Some (s, redirect path)
         else case mux_match path of None \<Rightarrow> Some (s, not_found) | Some r \<Rightarrow> dispatch env rq s r)"

definition protected :: "Request \<Rightarrow> bool" where
  "protected rq \<longleftrightarrow> rq_Method rq \<noteq> ''GET'' \<or> HasPrefix (rq_Path rq) ''/mining/'' \<or> HasPrefix (rq_Path rq) ''/tx/broadcast''
     \<or> HasPrefix (rq_Path rq) ''/tx/build'' \<or> HasPrefix (rq_Path rq) ''/genesis/'' \<or> HasPrefix (rq_Path rq) ''/payments/''"

definition unauthorized :: answer where
  "unauthorized = http_Error (ErrText ''unauthorized'') 401"

definition auth ::
  "(rpc_env \<Rightarrow> Request \<Rightarrow> Server \<Rightarrow> (Server \<times> answer) option) \<Rightarrow> rpc_env \<Rightarrow> Request \<Rightarrow> Server \<Rightarrow> (Server \<times> answer) option" where
  "auth serve env rq s =
     (if srv_AuthToken s \<noteq> [] \<and> protected rq \<and> rq_Authorization rq \<noteq> ''Bearer '' @ srv_AuthToken s
      then Some (s, unauthorized) else serve env rq s)"

fun add_headers :: "answer \<Rightarrow> answer" where
  "add_headers Dropped = Dropped"
| "add_headers (Answer r) =
     Answer (r\<lparr>rs_Headers := [(''x-content-type-options'', ''nosniff''), (''referrer-policy'', ''no-referrer'')] @ rs_Headers r\<rparr>)"

definition securityHeaders ::
  "(rpc_env \<Rightarrow> Request \<Rightarrow> Server \<Rightarrow> (Server \<times> answer) option) \<Rightarrow> rpc_env \<Rightarrow> Request \<Rightarrow> Server \<Rightarrow> (Server \<times> answer) option" where
  "securityHeaders serve env rq s = map_option (\<lambda>(s, a). (s, add_headers a)) (serve env rq s)"

definition rpc_Handler :: "rpc_env \<Rightarrow> Request \<Rightarrow> Server \<Rightarrow> (Server \<times> answer) option" where
  "rpc_Handler = securityHeaders (auth ServeMux)"

section \<open>The explorer\<close>

record ChainStats =
  cs_Height :: u64
  cs_Difficulty :: u32
  cs_MempoolCount :: int
  cs_CirculatingSupply :: u64

datatype page = IndexPage ChainTip ChainStats | CountPage nat | ErrorPage error nat

definition explorer_index :: "ranking \<Rightarrow> Manager \<Rightarrow> page" where
  "explorer_index rank m =
     (case mgr_Tip m of
        Inl e \<Rightarrow> ErrorPage e 500
      | Inr tip \<Rightarrow>
          IndexPage tip \<lparr>cs_Height = tip_Height tip, cs_Difficulty = tip_Bits tip,
            cs_MempoolCount = (case mgr_Mempool m of None \<Rightarrow> 0 | Some mp \<Rightarrow> int (length (Snapshot rank mp))),
            cs_CirculatingSupply = 0\<rparr>)"

definition explorer_mempool :: "ranking \<Rightarrow> Manager \<Rightarrow> page" where
  "explorer_mempool rank m =
     CountPage (case mgr_Mempool m of None \<Rightarrow> 0 | Some mp \<Rightarrow> length (Snapshot rank mp))"

section \<open>Lemmas: who may change the server\<close>

lemma srv_Add_payments [simp]: "srv_Payments (fst (srv_Add env s mp t)) = srv_Payments s"
  and srv_Add_token [simp]: "srv_AuthToken (fst (srv_Add env s mp t)) = srv_AuthToken s"
  by (simp_all add: srv_Add_def split: backend.splits prod.splits)

text \<open>The routes whose handlers change anything, and only on POST.\<close>

definition writing :: "route set" where
  "writing = {R_broadcastTx, R_buildTx, R_submit, R_invoice, R_trade}"

lemma dispatch_reads: "r \<notin> writing \<or> rq_Method rq \<noteq> ''POST'' \<Longrightarrow> \<exists>a. dispatch env rq s r = Some (s, a)"
  by (cases r)
    (simp_all add: dispatch_def writing_def broadcastTx_def decode_tx_def buildTx_def submitBlock_def invoice_def
      genesisTrade_def)

lemma ServeMux_reads: "rq_Method rq \<noteq> ''POST'' \<Longrightarrow> \<exists>a. ServeMux env rq s = Some (s, a)"
  using dispatch_reads [of _ rq env s] by (auto simp: ServeMux_def Let_def split: option.splits)

text \<open>
  C24. Only an authorised POST request changes anything: a request that leaves the server in another
  state has method POST and, where a token is set, carries it; a protected request without the token
  is answered with 401 and changes nothing, and every request of another method returns at once.
\<close>

theorem rpc_changes_authorised:
  "(\<forall>s' a. rpc_Handler env rq s = Some (s', a) \<and> s' \<noteq> s \<longrightarrow>
       rq_Method rq = ''POST'' \<and> (srv_AuthToken s = [] \<or> rq_Authorization rq = ''Bearer '' @ srv_AuthToken s))
   \<and> (srv_AuthToken s \<noteq> [] \<and> rq_Authorization rq \<noteq> ''Bearer '' @ srv_AuthToken s \<and> protected rq \<longrightarrow>
       rpc_Handler env rq s = Some (s, add_headers unauthorized))
   \<and> (rq_Method rq \<noteq> ''POST'' \<longrightarrow> (\<exists>a. rpc_Handler env rq s = Some (s, a)))"
proof (cases "rq_Method rq = ''POST''")
  case True
  then show ?thesis by (auto simp: rpc_Handler_def securityHeaders_def auth_def protected_def)
next
  case False
  from ServeMux_reads [OF this] obtain a where "ServeMux env rq s = Some (s, a)" by blast
  then show ?thesis using False by (auto simp: rpc_Handler_def securityHeaders_def auth_def)
qed

definition demo_rq :: Request where
  "demo_rq = \<lparr>rq_Method = ''GET'', rq_Path = ''/payments/status/7'', rq_Authorization = [], rq_Address = [], rq_Body = []\<rparr>"

text \<open>Surroundings to evaluate in: bodies are their hexadecimal text, trades have no key.\<close>

definition demo_rpc :: rpc_env where
  "demo_rpc = \<lparr>re_Json = \<lparr>rj_Hex = (\<lambda>k bs. if length bs \<le> k then Inr (bytes_string bs) else Inl EOF),
       rj_Build = (\<lambda>_ _. Inl EOF), rj_Trade = (\<lambda>_ _. Inl EOF), rj_Pool = (\<lambda>_ _. Inl EOF),
       rj_Invoice = (\<lambda>_ _. Inr \<lparr>iq_Merchant = ''shop'', iq_Address = ''addr'', iq_Amount = 5, iq_Memo = [], iq_TTL = 60\<rparr>),
       rj_MarshalPool = (\<lambda>_. [])\<rparr>,
     re_Unicode = demo_unicode, re_Sign = demo_signer, re_ErrText = (\<lambda>_. ''error''), re_Key = Inl EOF, re_Rand = Inr [1],
     re_Now = 0, re_Rank = (\<lambda>_. 0), re_Ranks = (\<lambda>_ _. 0), re_MsgTime = 0, re_BlockTime = 0\<rparr>"

definition demo_server :: Server where
  "demo_server = (NewWithChain (demo_mgr\<lparr>mgr_Mempool := Some (mp_New 1000)\<rparr>))\<lparr>srv_AuthToken := ''secret''\<rparr>"

theorem rpc_changes_authorised_witness:
  "srv_AuthToken demo_server \<noteq> [] \<and> protected demo_rq
   \<and> rpc_Handler demo_rpc demo_rq demo_server = Some (demo_server, add_headers unauthorized)"
  using rpc_changes_authorised [of demo_rpc demo_rq demo_server]
  by (simp add: demo_rq_def demo_server_def protected_def HasPrefix_def)

section \<open>Lemmas: what requests do to the chain\<close>

text \<open>The transactions that a request puts to the pool.\<close>

definition offered :: "rpc_env \<Rightarrow> Request \<Rightarrow> Server \<Rightarrow> Transaction list" where
  "offered env rq s =
     (case decode_tx env rq of Inr t \<Rightarrow> [t] | Inl _ \<Rightarrow> [])
     @ (case rj_Build (re_Json env) (2 ^ 20) (rq_Body rq) of
          Inl _ \<Rightarrow> []
        | Inr req \<Rightarrow>
            (case build_from env s (br_PrivateKeyHex req) (br_ToAddress req) (br_Amount req) (build_fee req) of
               Built w t \<Rightarrow> [t] | _ \<Rightarrow> []))
     @ (case rj_Trade (re_Json env) (2 ^ 20) (rq_Body rq) of
          Inl _ \<Rightarrow> []
        | Inr req \<Rightarrow>
            (case build_from env s (tr_PrivateKeyHex req) (tr_PoolAddress req) (tr_Amount req) 1000 of
               Built w t \<Rightarrow> [t] | _ \<Rightarrow> []))"

definition request_safe :: "Transaction set \<Rightarrow> rpc_env \<Rightarrow> Request \<Rightarrow> Server \<Rightarrow> bool" where
  "request_safe T env rq s \<longleftrightarrow> set (offered env rq s) \<subseteq> T \<and> (\<forall>b. decode_block env rq = Inr b \<longrightarrow> blk_Height b \<noteq> 0)"

definition server_safe :: "Transaction set \<Rightarrow> Server \<Rightarrow> bool" where
  "server_safe T s \<longleftrightarrow> (\<exists>m. srv_Backend s = OnChain m \<and> chain_safe T m) \<and> pay_reachable (srv_Payments s)"

definition server_grows :: "Server \<Rightarrow> Server \<Rightarrow> bool" where
  "server_grows s s' \<longleftrightarrow> (\<forall>m. srv_Backend s = OnChain m \<longrightarrow> (\<exists>m'. srv_Backend s' = OnChain m' \<and> chain_grows m m'))"

definition good_answer :: "Transaction set \<Rightarrow> Server \<Rightarrow> (Server \<times> answer) option \<Rightarrow> bool" where
  "good_answer T s r \<longleftrightarrow> (\<exists>s' a. r = Some (s', a) \<and> server_safe T s' \<and> server_grows s s')"

lemma server_grows_refl: "server_grows s s"
  by (simp add: server_grows_def chain_grows_refl)

lemma server_grows_trans: "server_grows r s \<Longrightarrow> server_grows s t \<Longrightarrow> server_grows r t"
  unfolding server_grows_def by (blast intro: chain_grows_trans)

lemma good_same: "server_safe T s \<Longrightarrow> good_answer T s (Some (s, a))"
  by (simp add: good_answer_def server_grows_refl)

lemma good_pool:
  assumes "server_safe T s" and "srv_Mempool s = Some mp" and "t \<in> T" and "inj_on tx_Hash T"
  shows "good_answer T s (Some (fst (srv_Add env s mp t), a))"
proof -
  obtain m where m: "srv_Backend s = OnChain m" "chain_safe T m" "pay_reachable (srv_Payments s)"
    using assms(1) by (auto simp: server_safe_def)
  have mp: "mgr_Mempool m = Some mp" using assms(2) m(1) by (simp add: srv_Mempool_def)
  let ?m = "m\<lparr>mgr_Mempool := Some (fst (mp_Add (re_Ranks env) (re_Now env) (Get (mgr_Store m)) (mgr_Verifier m) mp t))\<rparr>"
  have "fst (srv_Add env s mp t) = s\<lparr>srv_Backend := OnChain ?m\<rparr>"
    by (simp add: srv_Add_def m(1) split: prod.splits)
  then show ?thesis
    using chain_safe_pool [OF m(2) mp assms(3,4), of "re_Ranks env" "re_Now env"] m
    by (simp add: good_answer_def server_safe_def server_grows_def)
qed

lemma submitBlock_good:
  assumes "server_safe T s" and "request_safe T env rq s"
  shows "good_answer T s (submitBlock env rq s)"
proof (cases "rq_Method rq = ''POST''")
  case False
  then show ?thesis using good_same [OF assms(1)] by (simp add: submitBlock_def)
next
  case post: True
  obtain m where m: "srv_Backend s = OnChain m" "chain_safe T m" "pay_reachable (srv_Payments s)"
    using assms(1) by (auto simp: server_safe_def)
  then have c: "srv_Chain s = Some m" by (simp add: srv_Chain_def)
  show ?thesis
  proof (cases "decode_block env rq")
    case (Inl a)
    then show ?thesis using good_same [OF assms(1)] post c by (simp add: submitBlock_def)
  next
    case (Inr b)
    then have "wf_Block b"
      by (auto simp: decode_block_def DeserializeBlock_def block_codec.dec_iff split: sum.splits elim!: and_then.elims)
    moreover have "blk_Height b \<noteq> 0" using assms(2) Inr by (simp add: request_safe_def)
    ultimately obtain m' r where "ValidateAndApplyBlock (re_Now env div 10 ^ 9) m b = Some (m', r)"
      "chain_safe T m'" "chain_grows m m'"
      using chain_safe_block [OF m(2), of b "re_Now env div 10 ^ 9"] by blast
    then show ?thesis
      using post c Inr m by (cases r) (simp_all add: submitBlock_def good_answer_def server_safe_def server_grows_def)
  qed
qed

lemma invoice_good: "server_safe T s \<Longrightarrow> good_answer T s (Some (invoice env rq s))"
  using pay_create [of "srv_Payments s"] chain_grows_refl
  by (auto simp: invoice_def good_answer_def server_safe_def server_grows_def split: sum.splits prod.splits)
    (metis fst_conv)+

lemma broadcastTx_good:
  assumes "server_safe T s" and "request_safe T env rq s" and "inj_on tx_Hash T"
  shows "good_answer T s (Some (broadcastTx env rq s))"
proof (cases "decode_tx env rq")
  case (Inl a)
  then show ?thesis using good_same [OF assms(1)] by (simp add: broadcastTx_def)
next
  case (Inr t)
  then have "t \<in> T" using assms(2) by (simp add: request_safe_def offered_def)
  note pool = good_pool [OF assms(1) _ this assms(3), where env = env]
  show ?thesis
  proof (cases "srv_Mempool s")
    case None
    then show ?thesis using Inr good_same [OF assms(1)] by (simp add: broadcastTx_def)
  next
    case (Some mp)
    then show ?thesis
      using Inr pool [OF Some] by (cases "srv_Add env s mp t"; cases "snd (srv_Add env s mp t)") (simp_all add: broadcastTx_def)
  qed
qed

lemma buildTx_good:
  assumes "server_safe T s" and "request_safe T env rq s" and "inj_on tx_Hash T"
  shows "good_answer T s (Some (buildTx env rq s))"
proof (cases "rj_Build (re_Json env) (2 ^ 20) (rq_Body rq)")
  case (Inl a)
  then show ?thesis using good_same [OF assms(1)] by (simp add: buildTx_def)
next
  case req: (Inr req)
  let ?B = "build_from env s (br_PrivateKeyHex req) (br_ToAddress req) (br_Amount req) (build_fee req)"
  show ?thesis
  proof (cases "\<exists>w t. ?B = Built w t")
    case False
    then show ?thesis using req good_same [OF assms(1)] by (cases ?B) (simp_all add: buildTx_def)
  next
    case True
    then obtain w t where B: "?B = Built w t" by blast
    then have "t \<in> T" using assms(2) req by (simp add: request_safe_def offered_def)
    note pool = good_pool [OF assms(1) _ this assms(3), where env = env]
    show ?thesis
    proof (cases "srv_Mempool s")
      case None
      then show ?thesis using req B good_same [OF assms(1)] by (simp add: buildTx_def)
    next
      case (Some mp)
      then show ?thesis
        using req B pool [OF Some] good_same [OF assms(1)]
        by (cases "srv_Add env s mp t"; cases "snd (srv_Add env s mp t)") (simp_all add: buildTx_def)
    qed
  qed
qed

lemma genesisTrade_good:
  assumes "server_safe T s" and "request_safe T env rq s" and "inj_on tx_Hash T"
  shows "good_answer T s (Some (genesisTrade env rq s))"
proof (cases "rj_Trade (re_Json env) (2 ^ 20) (rq_Body rq)")
  case (Inl a)
  then show ?thesis using good_same [OF assms(1)] by (simp add: genesisTrade_def)
next
  case req: (Inr req)
  let ?B = "build_from env s (tr_PrivateKeyHex req) (tr_PoolAddress req) (tr_Amount req) 1000"
  show ?thesis
  proof (cases "\<exists>w t. ?B = Built w t")
    case False
    then show ?thesis using req good_same [OF assms(1)] by (cases ?B) (simp_all add: genesisTrade_def)
  next
    case True
    then obtain w t where B: "?B = Built w t" by blast
    then have "t \<in> T" using assms(2) req by (simp add: request_safe_def offered_def)
    from good_pool [OF assms(1) _ this assms(3), where env = env] show ?thesis
      using req B good_same [OF assms(1)] by (cases "srv_Mempool s") (simp_all add: genesisTrade_def)
  qed
qed

lemma rpc_Handler_good:
  assumes "server_safe T s" and "request_safe T env rq s" and "inj_on tx_Hash T"
  shows "good_answer T s (rpc_Handler env rq s)"
proof -
  have "good_answer T s (dispatch env rq s r)" for r
  proof (cases "r \<in> writing")
    case True
    then show ?thesis
      using broadcastTx_good [OF assms] buildTx_good [OF assms] genesisTrade_good [OF assms]
        submitBlock_good [OF assms(1,2)] invoice_good [OF assms(1)]
      by (auto simp: writing_def dispatch_def)
  next
    case False
    then show ?thesis using dispatch_reads [OF disjI1] good_same [OF assms(1)] by metis
  qed
  then have "good_answer T s (ServeMux env rq s)"
    using good_same [OF assms(1)] by (simp add: ServeMux_def Let_def split: option.splits)
  then have "good_answer T s (auth ServeMux env rq s)" using good_same [OF assms(1)] by (simp add: auth_def)
  then show ?thesis by (auto simp: rpc_Handler_def securityHeaders_def good_answer_def)
qed

section \<open>Properties\<close>

text \<open>A run of requests, one after the other, each with its surroundings.\<close>

fun serve_all :: "(rpc_env \<times> Request) list \<Rightarrow> Server \<Rightarrow> (Server \<times> answer list) option" where
  "serve_all [] s = Some (s, [])"
| "serve_all ((env, rq) # rqs) s =
     (case rpc_Handler env rq s of
        None \<Rightarrow> None
      | Some (s, a) \<Rightarrow> map_option (\<lambda>(s, as). (s, a # as)) (serve_all rqs s))"

fun run_safe :: "Transaction set \<Rightarrow> (rpc_env \<times> Request) list \<Rightarrow> Server \<Rightarrow> bool" where
  "run_safe T [] s \<longleftrightarrow> True"
| "run_safe T ((env, rq) # rqs) s \<longleftrightarrow>
     request_safe T env rq s \<and> (case rpc_Handler env rq s of None \<Rightarrow> True | Some (s, a) \<Rightarrow> run_safe T rqs s)"

lemma serve_all_safe:
  assumes "server_safe T s" and "run_safe T rqs s" and "inj_on tx_Hash T"
  shows "\<exists>s' as. serve_all rqs s = Some (s', as) \<and> length as = length rqs \<and> server_safe T s' \<and> server_grows s s'"
  using assms(1,2)
proof (induction rqs arbitrary: s)
  case Nil
  then show ?case by (simp add: server_grows_refl)
next
  case (Cons x rqs)
  obtain env rq where x: "x = (env, rq)" by fastforce
  then have "request_safe T env rq s" using Cons.prems(2) by simp
  from rpc_Handler_good [OF Cons.prems(1) this assms(3)] obtain s1 a
    where h: "rpc_Handler env rq s = Some (s1, a)" "server_safe T s1" "server_grows s s1"
    by (auto simp: good_answer_def)
  then have "run_safe T rqs s1" using Cons.prems(2) x by simp
  from Cons.IH [OF h(2) this] obtain s' as where "serve_all rqs s1 = Some (s', as)" "length as = length rqs"
    "server_safe T s'" "server_grows s1 s'" by blast
  then show ?case using x h server_grows_trans [OF h(3)] by simp
qed


definition demo_post :: Request where
  "demo_post = \<lparr>rq_Method = ''POST'', rq_Path = ''/payments/invoice'', rq_Authorization = ''Bearer secret'', rq_Address = [],
     rq_Body = []\<rparr>"

lemma demo_post_safe: "request_safe {} demo_rpc demo_post s"
  by (simp add: request_safe_def offered_def decode_tx_def decode_block_def demo_rpc_def demo_post_def bytes_string_def
      DeserializeTransaction_def DeserializeBlock_def ReadTransaction_def ReadBlock_def ReadUint32_def ReadFull_def)


text \<open>
  C26. A trade is reported as a success although nothing happened: when the transaction that
  \<open>genesisTrade\<close> builds is refused by the pool, or when it cannot be built for lack of funds, the server
  stays as it was and the answer still says \<open>success\<close> and names a transaction hash.
\<close>

theorem genesisTrade_claims_success:
  assumes "rq_Method rq = ''POST''" and "rj_Trade (re_Json env) (2 ^ 20) (rq_Body rq) = Inr req"
    and "tr_PrivateKeyHex req \<noteq> []" and "tr_PoolAddress req \<noteq> []" and "tr_Amount req > 0"
    and "srv_Mempool s = Some mp"
    and "(\<exists>w e. build_from env s (tr_PrivateKeyHex req) (tr_PoolAddress req) (tr_Amount req) 1000 = BadBuild w e)
      \<or> (\<exists>w t e. build_from env s (tr_PrivateKeyHex req) (tr_PoolAddress req) (tr_Amount req) 1000 = Built w t
            \<and> snd (srv_Add env s mp t) = Some e)"
  shows "\<exists>h rest. genesisTrade env rq s
     = (s, writeJSON (JObj ((''success'', JBool True) # (''txHash'', JStr h) # rest)))"
proof -
  have refused: "fst (srv_Add env s mp t) = s" if "snd (srv_Add env s mp t) = Some e" for t e
  proof (cases "srv_Backend s")
    case (Standalone d mp' v)
    then have "mp' = Some mp" using assms(6) by (simp add: srv_Mempool_def)
    then show ?thesis
      using Standalone that mp_Add_error [of "re_Ranks env" "re_Now env" "Get d" v mp t e]
      by (simp add: srv_Add_def split: prod.splits)
  next
    case (OnChain m)
    then have "m\<lparr>mgr_Mempool := Some mp\<rparr> = m" using assms(6) by (simp add: srv_Mempool_def)
    then show ?thesis
      using OnChain that mp_Add_error [of "re_Ranks env" "re_Now env" "Get (mgr_Store m)" "mgr_Verifier m" mp t e]
      by (simp add: srv_Add_def split: prod.splits)
  qed
  have meta: "\<exists>h rest. trade_meta req extra = writeJSON (JObj ((''success'', JBool True) # (''txHash'', JStr h) # rest))"
    for extra unfolding trade_meta_def Let_def append.simps by blast
  have utxo: "\<exists>h rest. trade_utxo req w t = writeJSON (JObj ((''success'', JBool True) # (''txHash'', JStr h) # rest))"
    for w t unfolding trade_utxo_def j_hash_def by blast
  from assms(7) show ?thesis
  proof (elim disjE exE conjE)
    fix w e
    assume "build_from env s (tr_PrivateKeyHex req) (tr_PoolAddress req) (tr_Amount req) 1000 = BadBuild w e"
    then show ?thesis using assms(1-5) meta by (simp add: genesisTrade_def)
  next
    fix w t e
    assume "build_from env s (tr_PrivateKeyHex req) (tr_PoolAddress req) (tr_Amount req) 1000 = Built w t"
      and "snd (srv_Add env s mp t) = Some e"
    then show ?thesis using assms(1-6) utxo refused by (simp add: genesisTrade_def)
  qed
qed

definition demo_trade :: TradeRequest where
  "demo_trade = \<lparr>tr_PrivateKeyHex = ''01'', tr_PoolAddress = ''pool'', tr_Amount = NOT 0, tr_Side = ''buy'', tr_Ticker = ''T'',
     tr_LaunchID = ''1'', tr_TradeID = ''2'', tr_PriceNevel = 0\<rparr>"

definition demo_trade_env :: rpc_env where
  "demo_trade_env = demo_rpc\<lparr>re_Json := (re_Json demo_rpc)\<lparr>rj_Trade := (\<lambda>_ _. Inr demo_trade)\<rparr>\<rparr>"

text \<open>A trade of more than all coins: the fee overflows, and the trade succeeds.\<close>

theorem genesisTrade_claims_success_witness:
  "\<exists>h rest. genesisTrade demo_trade_env demo_post demo_server
     = (demo_server, writeJSON (JObj ((''success'', JBool True) # (''txHash'', JStr h) # rest)))"
proof -
  obtain w where w: "FromHexPrivateKey demo_unicode ''01'' (net_AddressPrefix Regtest) = Returns (Inr w)"
    using demo_import by blast
  have "addr_prefix demo_server = net_AddressPrefix Regtest"
    by (simp add: addr_prefix_def srv_Chain_def demo_server_def NewWithChain_def demo_mgr(3) easy_net_def)
  moreover have "add_overflows (NOT 0) 1000" by (simp add: add_overflows_def)
  ultimately have "build_from demo_trade_env demo_server ''01'' ''pool'' (NOT 0) 1000 = BadBuild w ErrInflation"
    using w by (simp add: build_from_def demo_trade_env_def demo_rpc_def BuildTransaction_def)
  then have "\<exists>w e. build_from demo_trade_env demo_server (tr_PrivateKeyHex demo_trade) (tr_PoolAddress demo_trade)
      (tr_Amount demo_trade) 1000 = BadBuild w e"
    by (simp add: demo_trade_def)
  from disjI1 [OF this] show ?thesis
    by (intro genesisTrade_claims_success [of demo_post demo_trade_env demo_trade demo_server "mp_New 1000"])
      (simp_all add: demo_post_def demo_trade_env_def demo_trade_def demo_server_def NewWithChain_def srv_Mempool_def
        word_gt_0)
qed

section \<open>Further lemmas\<close>

text \<open>On a chain the block endpoint serves the block of the height, for every height up to the tip.\<close>

lemma blockHeight_serves:
  assumes "srv_Backend s = OnChain m" and "mgr_inv m bs" and "h < length bs" and "h < 2 ^ 64"
    and "rq_Path rq = ''/block/height/'' @ dec_string h"
  shows "blockHeight rq s = writeJSON (blockDTO (bs ! h))"
proof -
  have hc: "holds_chain (mgr_Store m) bs" using assms(2) by (simp add: mgr_inv_def)
  have "TrimPrefix (rq_Path rq) ''/block/height/'' = dec_string h"
    by (simp add: assms(5) TrimPrefix_def HasPrefix_def)
  moreover have "dec_string h \<noteq> []" by (subst dec_string.simps) simp
  ultimately have "ParseUint (TrimPrefix (rq_Path rq) ''/block/height/'') = Some (of_nat h)"
    using assms(4) by (simp add: ParseUint_def dec_val_dec_string)
  then show ?thesis
    using holds_chain_nth(1,4) [OF hc assms(3)] assms(1) by (simp add: blockHeight_def writeBlock_def srv_Store_def)
qed

text \<open>The lifetime of an invoice wraps: asked for 292 years, it expires after fifteen minutes.\<close>

lemma invoice_ttl_wraps:
  assumes "rq_Method rq = ''POST''" and "rj_Invoice (re_Json env) (2 ^ 20) (rq_Body rq) = Inr req"
    and "iq_Merchant req \<noteq> []" and "iq_Address req \<noteq> []" and "iq_Amount req \<noteq> 0" and "iq_TTL req = 9223372037"
    and "re_Rand env = Inr b"
  shows "\<exists>inv. snd (invoice env rq s) = writeBody (InvoiceBody inv)
     \<and> pay_ExpiresAt inv = of_int ((re_Now env + 15 * 60 * 10 ^ 9) div 10 ^ 9)"
  using assms by (simp add: invoice_def pay_Create_def unix_after_def Let_def) (rule exI, rule conjI [OF refl], simp)

end
