(* ===== verification/Command.thy ===== *)
theory Command
  imports Rpc Sync
begin

text \<open>
  The two programs, \<open>cmd/neveld/main.go\<close> and \<open>cmd/nevel-cli/main.go\<close>, after the parsing of their
  flags. What they print or serve is a value; the disk, the genesis search and the mining loop are
  those of the component theories. \<open>wallet.Verifier{}\<close> enters as the verifier of the manager.
\<close>

section \<open>The node program\<close>

record node_flags =
  nf_network :: string
  nf_datadir :: string
  nf_rpc :: string
  nf_address :: string
  nf_blocks :: int
  nf_rpctoken :: string

datatype node_outcome =
    NodeUsage
  | NodeFatal error
  | Initialized string hash u64
  | Serving Server string
  | MinedTips "(string \<times> string) option" "ChainTip list" "MiningSummary option"
  | NodeStatus string ChainTip
  | NodePanic

text \<open>\<open>filepath.Join\<close> of several elements leaves out the empty ones.\<close>

definition Join_all :: "string list \<Rightarrow> string" where
  "Join_all elems =
     (let parts = filter (\<lambda>e. e \<noteq> []) elems in if parts = [] then [] else filepath_Clean (join_path parts))"

definition mustManager ::
  "SignatureVerifier \<Rightarrow> error option \<Rightarrow> dbval disk \<Rightarrow> string \<Rightarrow> Network \<Rightarrow> error + Manager" where
  "mustManager verifier mkdir disk path net =
     (case Open path mkdir disk of
        Inl e \<Rightarrow> Inl e
      | Inr db \<Rightarrow> Inr (mgr_New db net (Some (mp_New (of_int DefaultMempoolMaxByte))) (Some verifier)))"

definition node_start :: "Manager \<Rightarrow> string \<Rightarrow> string \<Rightarrow> node_outcome" where
  "node_start manager addr token = Serving ((NewWithChain manager)\<lparr>srv_AuthToken := token\<rparr>) addr"

text \<open>The tips printed while mining: all of a short run, otherwise every hundred-thousandth.\<close>

definition printed_tips :: "int \<Rightarrow> ChainTip list \<Rightarrow> ChainTip list" where
  "printed_tips blocks tips = filter (\<lambda>tip. blocks \<le> 100 \<or> tip_Height tip mod 100000 = 0) tips"

definition node_mine ::
  "mining_env \<Rightarrow> error + PrivateKey \<Rightarrow> node_flags \<Rightarrow> Manager \<Rightarrow> (Manager \<times> node_outcome) option" where
  "node_mine env key fl m =
     (let run = (\<lambda>generated address.
            case MineBlocksStreaming env m (nf_blocks fl) address of
              None \<Rightarrow> None
            | Some (m, tips, summary, Some e) \<Rightarrow> Some (m, NodeFatal e)
            | Some (m, tips, summary, None) \<Rightarrow>
                Some (m, MinedTips generated (printed_tips (nf_blocks fl) tips)
                  (if nf_blocks fl \<le> 100 then None else Some summary)))
      in if nf_address fl = [] then
           case wallet_New key (env_Unicode env) (net_AddressPrefix (mgr_Network m)) of
             Panics \<Rightarrow> Some (m, NodePanic)
           | Returns (Inl e) \<Rightarrow> Some (m, NodeFatal e)
           | Returns (Inr w) \<Rightarrow> run (Some (wal_Address w, PrivateKeyHex (wal_PrivateKey w))) (wal_Address w)
         else run None (nf_address fl))"

definition node_genesis :: "context_t \<Rightarrow> Manager \<Rightarrow> (Manager \<Rightarrow> Block \<Rightarrow> (Manager \<times> node_outcome) option)
    \<Rightarrow> (Manager \<times> node_outcome) option" where
  "node_genesis background m k =
     (case InitGenesis background m of
        None \<Rightarrow> None
      | Some (m, Inl e) \<Rightarrow> Some (m, NodeFatal e)
      | Some (m, Inr b) \<Rightarrow> k m b)"

text \<open>The manager is returned for its store: what is left on the disk when the program ends.\<close>

definition neveld_main ::
  "SignatureVerifier \<Rightarrow> mining_env \<Rightarrow> error + PrivateKey \<Rightarrow> context_t \<Rightarrow> error option \<Rightarrow> dbval disk
     \<Rightarrow> string list \<Rightarrow> node_flags \<Rightarrow> (Manager option \<times> node_outcome) option" where
  "neveld_main verifier env key background mkdir disk args fl =
     (if args = [] then Some (None, NodeUsage)
      else
        let net = ByName (nf_network fl);
            dbPath = Join_all [nf_datadir fl, nf_network fl, ''chain.pebble''];
            opened = (\<lambda>k. case mustManager verifier mkdir disk dbPath net of
                             Inl e \<Rightarrow> Some (None, NodeFatal e)
                           | Inr m \<Rightarrow> map_option (\<lambda>(m, out). (Some m, out)) (k m))
        in if hd args = ''init'' then
             opened (\<lambda>m. node_genesis background m (\<lambda>m b.
               Some (m, Initialized (net_ID net) (blk_Hash b) (hdr_Height (blk_Header b)))))
           else if hd args = ''start'' then
             opened (\<lambda>m. node_genesis background m (\<lambda>m b. Some (m, node_start m (nf_rpc fl) (nf_rpctoken fl))))
           else if hd args = ''mine'' then
             opened (\<lambda>m. node_genesis background m (\<lambda>m b. node_mine env key fl m))
           else if hd args = ''status'' then
             opened (\<lambda>m. case mgr_Tip m of
                Inl e \<Rightarrow> Some (m, NodeFatal e)
              | Inr tip \<Rightarrow> Some (m, NodeStatus (net_ID net) tip))
           else Some (None, NodeUsage))"

section \<open>The client program\<close>

text \<open>The body of an invoice request is kept as the four texts it is made of.\<close>

datatype cli_outcome =
    CliUsage
  | CliFatal error
  | CliPanic
  | CliWallet string string
  | CliGET string
  | CliPOST string string string string string

definition cli_main ::
  "unicode \<Rightarrow> error + PrivateKey \<Rightarrow> string list \<Rightarrow> string \<Rightarrow> string \<Rightarrow> string list \<Rightarrow> cli_outcome" where
  "cli_main U key osArgs netName rpcURL args =
     (if osArgs = [] then CliUsage
      else if hd osArgs = ''wallet'' then
        if args = [] \<or> hd args \<noteq> ''create'' then CliUsage
        else case wallet_New key U (net_AddressPrefix (ByName netName)) of
          Panics \<Rightarrow> CliPanic
        | Returns (Inl e) \<Rightarrow> CliFatal e
        | Returns (Inr w) \<Rightarrow> CliWallet (wal_Address w) (PrivateKeyHex (wal_PrivateKey w))
      else if hd osArgs = ''status'' then CliGET (rpcURL @ ''/chain/tip'')
      else if hd osArgs = ''block'' then
        if length args \<noteq> 1 then CliUsage else CliGET (rpcURL @ ''/block/height/'' @ args ! 0)
      else if hd osArgs = ''tx'' then
        if length args \<noteq> 1 then CliUsage else CliGET (rpcURL @ ''/tx/'' @ args ! 0)
      else if hd osArgs = ''balance'' then
        if length args \<noteq> 1 then CliUsage else CliGET (rpcURL @ ''/address/'' @ args ! 0 @ ''/balance'')
      else if hd osArgs = ''invoice'' then
        if length args < 3 then CliUsage
        else CliPOST (rpcURL @ ''/payments/invoice'') (args ! 0) (args ! 1) (args ! 2) (join_words (drop 3 args))
      else CliUsage)"

section \<open>Lemmas\<close>

text \<open>
  A node started on an empty disk satisfies what the server's guarantees ask for: its manager holds a
  chain of one block, its pool is empty and no payment is on file.
\<close>

lemma neveld_start_fresh:
  assumes "neveld_main v env key background None (empty_disk []) (''start'' # rest) fl = Some (Some m, Serving s addr)"
  shows "\<exists>g mp. srv_Backend s = OnChain m \<and> mgr_inv m [g] \<and> mgr_Mempool m = Some mp \<and> pool_txs mp = {}
     \<and> pay_reachable (srv_Payments s) \<and> srv_AuthToken s = nf_rpctoken fl"
proof -
  let ?net = "ByName (nf_network fl)"
  let ?path = "Join_all [nf_datadir fl, nf_network fl, ''chain.pebble'']"
  have net: "net_ok ?net" by (simp add: ByName_def net_ok_networks)
  obtain d where d: "Open ?path None (empty_disk []) = Inr d"
    using assms by (cases "Open ?path None (empty_disk [])") (auto simp: neveld_main_def mustManager_def Let_def)
  let ?m = "mgr_New d ?net (Some (mp_New (of_int DefaultMempoolMaxByte))) (Some v)"
  have "mgr_inv ?m []"
    using holds_chain_empty [OF d] net by (simp add: mgr_inv_def mgr_New_def valid_empty mp_reachable.intros(1))
  then have h: "holds_chain (mgr_Store ?m) []" "net_ok (mgr_Network ?m)" by (simp_all add: mgr_inv_def)
  obtain b where g: "InitGenesis background ?m = Some (m, Inr b)"
    and s: "s = (NewWithChain m)\<lparr>srv_AuthToken := nf_rpctoken fl\<rparr>"
    using assms d by (auto simp: neveld_main_def mustManager_def node_genesis_def node_start_def Let_def
        split: option.splits sum.splits prod.splits)
  from h g have "\<exists>b. mgr_inv m [b] \<and> mgr_Mempool m = Some (mp_New (of_int DefaultMempoolMaxByte))"
  proof (cases rule: InitGenesis_chain)
    case same
    then show ?thesis by simp
  next
    case (started d' b')
    have "valid_chain ?net (Some v) [b']"
      using valid_snoc [OF valid_empty, of ?net "Some v" b'] started(4) by (simp add: mgr_New_def)
    then show ?thesis
      using started net by (auto simp: mgr_inv_def mgr_New_def mp_reachable.intros(1))
  qed
  then show ?thesis by (auto simp: s NewWithChain_def pay_new pool_txs_def mp_New_def)
qed

text \<open>
  The client sends no Authorization header: a node started with a token refuses every invoice that
  \<open>nevel-cli\<close> asks for.
\<close>

lemma cli_invoice_refused:
  assumes "nf_rpctoken fl \<noteq> []" and "srv_AuthToken s = nf_rpctoken fl"
    and "rq_Method rq = ''POST''" and "rq_Authorization rq = []"
  shows "rpc_Handler env rq s = Some (s, add_headers unauthorized)"
  using assms by (simp add: rpc_Handler_def securityHeaders_def auth_def protected_def)

end
