(* ===== verification/Readiness.thy ===== *)
theory Readiness
  imports Go_Base
begin

text \<open>
  Package \<open>security\<close> (\<open>security/readiness.go\<close>): the checklist a release must pass. A \<open>time.Time\<close> is the
  number of nanoseconds since the zero time, a duration an integer in the range of \<open>int64\<close>; the order
  in which Go visits the map of controls is a ranking of their names.
\<close>

record AuditEvidence =
  ae_Auditor :: string
  ae_ReportURL :: string
  ae_ReportSHA256 :: string
  ae_CompletedAt :: int
  ae_Scope :: "string list"
  ae_CriticalOpen :: int
  ae_HighOpen :: int

record BattleTestEvidence =
  bt_Network :: string
  bt_PublicStart :: int
  bt_PublicEnd :: int
  bt_MinimumDuration :: int
  bt_SpamDrill :: bool
  bt_MalformedP2PDrill :: bool
  bt_ReorgDrill :: bool
  bt_WalletRestoreDrill :: bool

record OperationalControls =
  oc_P2PHardening :: bool
  oc_DifficultyReorgGuards :: bool
  oc_WalletSeedAudit :: bool
  oc_MiningPoolSecurity :: bool
  oc_DDoSProtection :: bool
  oc_ExchangeMonitoring :: bool
  oc_SupplyEconomicAudit :: bool

record ReleaseEvidence =
  ev_IndependentSecurityAudit :: AuditEvidence
  ev_PublicTestnet :: BattleTestEvidence
  ev_Controls :: OperationalControls

text \<open>\<open>Time.Sub\<close> saturates.\<close>

definition sub_saturating :: "int \<Rightarrow> int \<Rightarrow> int" where
  "sub_saturating t u = max (- (2 ^ 63)) (min (2 ^ 63 - 1) (t - u))"

definition audit_missing :: "AuditEvidence \<Rightarrow> int \<Rightarrow> bool" where
  "audit_missing a now \<longleftrightarrow> ae_Auditor a = [] \<or> ae_ReportURL a = [] \<or> ae_ReportSHA256 a = []
     \<or> ae_CompletedAt a = 0 \<or> ae_CompletedAt a > now"

definition testnet_missing :: "BattleTestEvidence \<Rightarrow> bool" where
  "testnet_missing b \<longleftrightarrow> bt_Network b = [] \<or> bt_PublicStart b = 0
     \<or> sub_saturating (bt_PublicEnd b) (bt_PublicStart b) < bt_MinimumDuration b
     \<or> \<not> bt_SpamDrill b \<or> \<not> bt_MalformedP2PDrill b \<or> \<not> bt_ReorgDrill b \<or> \<not> bt_WalletRestoreDrill b"

definition release_controls :: "OperationalControls \<Rightarrow> (string \<times> bool) list" where
  "release_controls c =
     [(''real P2P hardening'', oc_P2PHardening c),
      (''mature difficulty/reorg protection'', oc_DifficultyReorgGuards c),
      (''wallet seed phrase standard audit'', oc_WalletSeedAudit c),
      (''mining pool/hashrate security'', oc_MiningPoolSecurity c),
      (''DDoS protection'', oc_DDoSProtection c),
      (''exchange-grade monitoring'', oc_ExchangeMonitoring c),
      (''formal supply/economic audit'', oc_SupplyEconomicAudit c)]"

definition ValidateReleaseEvidence :: "(string \<Rightarrow> nat) \<Rightarrow> ReleaseEvidence \<Rightarrow> int \<Rightarrow> error option" where
  "ValidateReleaseEvidence rank e now =
     (let audit = ev_IndependentSecurityAudit e;
          missing =
            (if audit_missing audit now then [''independent security audit evidence''] else [])
            @ (if ae_CriticalOpen audit > 0 \<or> ae_HighOpen audit > 0 then [''critical/high audit findings resolved''] else [])
            @ (if testnet_missing (ev_PublicTestnet e) then [''public testnet battle-testing evidence''] else [])
            @ map fst (filter (\<lambda>(name, ok). \<not> ok) (sort_key (rank \<circ> fst) (release_controls (ev_Controls e))))
      in if missing \<noteq> [] then Some (ErrReleaseGateFailed missing) else None)"

section \<open>Lemmas\<close>

text \<open>
  The gate opens exactly for complete evidence, in whatever order the controls are visited, and a
  refusal names exactly the controls that are off.
\<close>

lemma ValidateReleaseEvidence_None:
  "ValidateReleaseEvidence rank e now = None \<longleftrightarrow>
     \<not> audit_missing (ev_IndependentSecurityAudit e) now
     \<and> ae_CriticalOpen (ev_IndependentSecurityAudit e) \<le> 0 \<and> ae_HighOpen (ev_IndependentSecurityAudit e) \<le> 0
     \<and> \<not> testnet_missing (ev_PublicTestnet e)
     \<and> list_all snd (release_controls (ev_Controls e))"
proof -
  have "map fst (filter (\<lambda>(name, ok). \<not> ok) (sort_key k xs)) = [] \<longleftrightarrow> list_all snd xs"
    for k and xs :: "(string \<times> bool) list"
    by (auto simp: filter_empty_conv list_all_iff)
  then show ?thesis by (simp only: ValidateReleaseEvidence_def Let_def) (auto split: if_splits)
qed

lemma ValidateReleaseEvidence_names:
  assumes "ValidateReleaseEvidence rank e now = Some (ErrReleaseGateFailed missing)"
    and "(name, ok) \<in> set (release_controls (ev_Controls e))"
  shows "name \<in> set missing \<longleftrightarrow> \<not> ok"
proof -
  let ?cs = "release_controls (ev_Controls e)"
  let ?off = "map fst (filter (\<lambda>(name, ok). \<not> ok) (sort_key (rank \<circ> fst) ?cs))"
  let ?known = "[''independent security audit evidence'', ''critical/high audit findings resolved'',
    ''public testnet battle-testing evidence'']"
  have d: "distinct (map fst ?cs)" by (simp add: release_controls_def)
  have "name \<notin> set ?known" using assms(2) by (auto simp: release_controls_def)
  then have "name \<in> set missing \<longleftrightarrow> name \<in> set ?off"
    using assms(1) by (simp only: ValidateReleaseEvidence_def Let_def) (auto simp del: set_map split: if_splits)
  also have "\<dots> \<longleftrightarrow> (name, False) \<in> set ?cs" by force
  also have "\<dots> \<longleftrightarrow> \<not> ok" using eq_key_imp_eq_value [OF d assms(2)] assms(2) by (cases ok) auto
  finally show ?thesis .
qed

text \<open>
  The minimum duration is part of the evidence, not of the gate: with a minimum of zero or less, a
  testnet that lasted no time at all passes.
\<close>

lemma testnet_duration_unchecked:
  assumes "bt_MinimumDuration b \<le> 0" and "bt_PublicStart b \<le> bt_PublicEnd b"
    and "bt_Network b \<noteq> []" and "bt_PublicStart b \<noteq> 0"
    and "bt_SpamDrill b" and "bt_MalformedP2PDrill b" and "bt_ReorgDrill b" and "bt_WalletRestoreDrill b"
  shows "\<not> testnet_missing b"
  using assms by (simp add: testnet_missing_def sub_saturating_def)

end
