(* ===== verification/Spec2Isabelle.thy ===== *)
theory Spec2Isabelle
  imports Command Readiness
begin

text \<open>
  A verification development of nevel-core, a proof-of-work node written in Go.

  \<^bold>\<open>The program.\<close> Transactions and blocks are encoded as bytes and identified by double SHA-256.
  The consensus rules judge a header (parent, height, required bits, proof of work, Merkle root) and
  the transactions of a block (inputs exist, are mature and signed, no value is created beyond fees
  and subsidy). The store keeps blocks, indices, unspent outputs and undo logs in a key-value store
  of one file per key. The chain manager joins them: it validates, connects and disconnects blocks,
  builds templates for the miner and hands mined transactions back to the mempool. The synchroniser
  feeds blocks of a peer to the manager, and so does the network node, whose read loops hand each
  message to an adapter; the HTTP server does the same for its clients, with payments and a
  server-side wallet beside it. The wallet makes keys, addresses and signed transactions and keeps
  them in encrypted files.

  \<^bold>\<open>The theories\<close>, in the order of import, with the files under \<open>src/\<close> they model.
  \<^item> \<open>Go_Base\<close>: the prelude. Machine types, the type \<open>error\<close> of all error values, byte-level encodings,
    and the interface \<open>codec\<close> of a writer and a reader that invert each other.
  \<^item> \<open>Sha256\<close>: \<open>crypto/sha256\<close> of the standard library.
  \<^item> \<open>Params\<close>: \<open>params/params.go\<close>, \<open>params/economics.go\<close>. Compact targets, the audit of the subsidy.
  \<^item> \<open>Tx\<close>: \<open>tx/transaction.go\<close>.
  \<^item> \<open>Block\<close>: \<open>blockchain/block.go\<close>, \<open>blockchain/genesis.go\<close>.
  \<^item> \<open>Consensus\<close>: \<open>consensus/consensus.go\<close>. Readers of unspent outputs, the signature verifier and the
    reader of headers are arguments, as they are in the code.
  \<^item> \<open>Pebble\<close>: \<open>internal/pebble/pebble.go\<close> over a disk on which each write may fail or be torn; its
    contract is the locale \<open>kv_store\<close>.
  \<^item> \<open>Storage\<close>, \<open>Ledger\<close>: \<open>storage/storage.go\<close>. The abstract ledger is a map from outpoints; the locale
    \<open>ledger_store\<close> is what a client may rely on, interpreted on the database here and on the replay of
    a block list in \<open>Replay\<close>.
  \<^item> \<open>Mempool\<close>: \<open>mempool/mempool.go\<close>; the locale \<open>tx_pool\<close> is its contract.
  \<^item> \<open>Address\<close>: \<open>wallet/bech32.go\<close> and the address functions of \<open>wallet/wallet.go\<close>.
  \<^item> \<open>Miner\<close>: \<open>miner/miner.go\<close>.
  \<^item> \<open>Chain\<close>: \<open>chain/chain.go\<close>, \<open>chain/protection.go\<close>.
  \<^item> \<open>Replay\<close>: the abstract machine of the manager, a list of blocks, and the simulation relation
    \<open>holds_chain\<close> between a store and such a list.
  \<^item> \<open>Sync\<close>: \<open>sync/sync.go\<close>.
  \<^item> \<open>Health\<close>: the health report of \<open>chain/protection.go\<close>, with the rounding of its \<open>float64\<close>.
  \<^item> \<open>Ripemd\<close>, \<open>Curve\<close>, \<open>Wallet\<close>: \<open>wallet/ripemd160.go\<close>, \<open>wallet/secp256k1.go\<close>, \<open>wallet/wallet.go\<close>,
    \<open>wallet/builder.go\<close>, \<open>wallet/hardware.go\<close>. A nil point is \<open>None\<close>, a panic the value \<open>Panics\<close>.
  \<^item> \<open>Seed\<close>, \<open>Keystore\<close>: \<open>wallet/pbkdf2_internal.go\<close>, \<open>wallet/seed_audit.go\<close>, \<open>wallet/store.go\<close>. GCM is
    defined over any block cipher.
  \<^item> \<open>Pay\<close>: \<open>pay/pay.go\<close>.
  \<^item> \<open>P2p\<close>: \<open>p2p/p2p.go\<close>, \<open>p2p/hardening.go\<close>, \<open>p2p/node.go\<close>, \<open>p2p/seeds.go\<close>. The locale
    \<open>message_handler\<close> is what a read loop relies on.
  \<^item> \<open>Adapter\<close>: \<open>p2p/handler.go\<close>, which interprets that locale on the chain manager.
  \<^item> \<open>Rpc\<close>: \<open>rpc/server.go\<close>, \<open>explorer/server.go\<close>.
  \<^item> \<open>Command\<close>: \<open>cmd/neveld/main.go\<close>, \<open>cmd/nevel-cli/main.go\<close>.
  \<^item> \<open>Readiness\<close>: \<open>security/readiness.go\<close>.

  \<^bold>\<open>How code becomes definitions.\<close> A struct is a record, \<open>uint32\<close> and its like are words of that
  width, \<open>*big.Int\<close> is \<open>int\<close>. A method that changes its receiver takes the record and returns the new
  one beside its error. Time, randomness, the order in which Go visits a map, the Unicode tables, the
  outcome of disk and network operations, the signature that \<open>crypto/ecdsa\<close> produces and the
  cancellation of a context are arguments. JSON documents are kept as their content, or the decoder
  is an argument. A loop that may not end is a \<open>partial_function (option)\<close> and \<open>None\<close> is a call that
  never returns; theorems that the program returns are proved as such. No fuel is used. Objects that
  several goroutines share are protected by a mutex in the code, so their methods are atomic steps and
  the theorems quantify over all sequences of them.

  \<^bold>\<open>What is shown.\<close> Below: in every reachable state the store is the replay of a valid chain, the
  supply is bounded, validation of a block always returns, a rollback is the replay of the shorter
  chain, a mined template is accepted; and two places where the manager does not do what it means to,
  namely that a heavier side branch is never adopted and that a block of height zero is accepted on
  top of a chain. In the component theories: encoders and decoders invert each other; acceptance of
  headers and transactions is characterised exactly; connecting a block refines the abstract ledger
  and disconnecting undoes it; the mempool's three views agree; addresses round-trip and detect every
  single substitution; the nonce search returns exactly when it should. Of the wallet: its digest and
  key derivation are the published ones, curve addition stays on the curve, what it builds the rules
  accept and what it signs is what the verifier checks, what it saves it loads. Of the network and
  the server: whatever bytes a peer sends and whatever requests a client makes, the chain is only ever
  extended by valid blocks and every call returns; peers and message rates are bounded over all
  interleavings; only authorised POST requests change anything. And of what does not work: a
  signature that makes verification panic, discovery messages that the receiver's own filter refuses,
  peers dialled by name whose slot is never freed, trades reported as done that were not.

  \<^bold>\<open>Not modelled.\<close> The listening socket, timers and the scheduling of goroutines, logging, HTML and
  printed text, and the parsing of flags: they are input and output around the operations above.
  \<open>crypto/ecdsa\<close>'s key generation and signing, AES itself and the JSON text format are the standard
  library's and enter as arguments; the laws used of them are hypotheses, each discharged in a
  witness. \<open>Close\<close> methods do nothing in the model. The theorems on curve addition ask for the inverse
  that a prime modulus provides, since the primality of the modulus is not proved here. Two
  assumptions recur: the hashes of the transactions considered do not collide, and no block of height
  zero is offered on top of a chain, where \<open>second_genesis\<close> shows what one would do.
\<close>

section \<open>Properties across components\<close>










lemma demo_fresh: "fresh_outputs [demo_first]"
  by (simp add: fresh_outputs_def replay_def)


text \<open>
  C15. The rules accept a second block of height zero on top of any chain. A block of height zero whose
  previous hash is the current tip is checked against no previous header, so neither its height nor
  its bits need to fit: with a proof of work at any target up to the limit it is applied, the tip's
  height drops back to zero, the height index of the genesis block is overwritten and the full first
  subsidy is paid again. (Unless a block with this very hash is already on record.)
\<close>

theorem second_genesis:
  assumes "mgr_inv m bs" and "bs \<noteq> []" and "wf_Block b" and "hdr_Height (blk_Header b) = 0"
    and "hdr_PrevHash (blk_Header b) = blk_Hash (last bs)"
    and "hdr_MerkleRoot (blk_Header b) = BuildMerkleRoot (blk_Transactions b)"
    and "CheckProofOfWork (blk_Header b) (net_PowLimit (mgr_Network m)) = None"
    and "sint (hdr_Timestamp (blk_Header b)) \<le> now + 7200"
    and "blk_Transactions b = [NewCoinbase msg 50000000000 script]"
  shows "blk_Hash b \<in> blk_Hash ` set bs
    \<or> (\<exists>m'. ValidateAndApplyBlock now m b = Some (m', None)
         \<and> Tip (mgr_Store m') = Inr (blk_Hash b) \<and> Height (mgr_Store m') = Inr 0
         \<and> BlockHashByHeight (mgr_Store m') 0 = Inr (blk_Hash b)
         \<and> utxo_map (mgr_Store m') = connect_block b (replay bs))"
proof (cases "blk_Hash b \<in> blk_Hash ` set bs")
  case False
  let ?d = "mgr_Store m"
  have inv: "holds_chain ?d bs" using assms(1) by (simp add: mgr_inv_def)
  note ok = holds_chain_ok [OF inv]
  obtain e where new: "GetBlock ?d (blk_Hash b) = Inl e"
    using False holds_chain_block [OF inv] by (cases "GetBlock ?d (blk_Hash b)") auto
  have h: "ValidateBlockHeaderWithDifficulty now b None (mgr_Network m) (mgr_HeaderByHeight m) = None"
    using assms(6-8) by (simp add: ValidateBlockHeaderWithDifficulty_None ValidateBlockHeader_None)
  have "BlockReward 0 = 50000000000" by (simp add: BlockReward_def InitialReward_def UnitsPerNEVEL_def)
  then have t: "ValidateBlockTransactions b (Get ?d) (mgr_Verifier m) = None"
    using assms(4,9) by (intro coinbase_only_valid) (simp add: blk_Height_def)
  obtain d1 where d1: "ApplyBlock ?d b = (d1, None)" "dsk_faults (db_disk d1) = []"
    using ApplyBlock_no_faults [OF ok(3)] by blast
  obtain d2 where d2: "PutTotalWork d1 (blk_Hash b) (chain_work ?d b) = (d2, None)"
    using PutTotalWork_no_faults [OF d1(2)] by blast
  have ok1: "db_ok d1" using ApplyBlock_ok [OF ok(1) d1(1)] .
  note st1 = ApplyBlock_state [OF ok(1) d1(1)] and st2 = PutTotalWork_state [OF ok1 d2]
  have "find_prev ?d b = Inr None" using assms(4) by (simp add: find_prev_def)
  then have "ValidateAndApplyBlock now m b = choose_fork m b (chain_work ?d b)"
    using new h t by (simp add: ValidateAndApplyBlock_def)
  also have "\<dots> = Some (m\<lparr>mgr_Store := d2, mgr_Mempool := map_option (\<lambda>mp. RemoveMinedBlock mp b) (mgr_Mempool m)\<rparr>, None)"
    using holds_chain_tip(1) [OF inv assms(2)] assms(5) d1(1) d2 by (simp add: choose_fork_def apply_direct_def)
  finally show ?thesis
    using st1(1) st1(3) [of 0] st1(5) [OF assms(3)] assms(4) ApplyBlock_ledger [OF ok(1) d1(1)] ok(4)
    by (simp add: st2 Height_def)
qed simp

definition demo_second :: Block where
  "demo_second = NewBlock 0 (blk_Hash demo_first) 0 0x2200ffff [NewCoinbase ''m'' 50000000000 [4]]"

lemma easy_work: "hdr_Bits h = 0x2200ffff \<Longrightarrow> CheckProofOfWork h (net_PowLimit easy_net) = None"
  using easy_below [of "hdr_Hash h"] by (simp add: CheckProofOfWork_None easy_net_def easy_target)

theorem second_genesis_witness:
  "blk_Hash demo_second \<in> {blk_Hash demo_first}
   \<or> (\<exists>m'. ValidateAndApplyBlock 0 demo_mgr demo_second = Some (m', None) \<and> Height (mgr_Store m') = Inr 0
        \<and> BlockHashByHeight (mgr_Store m') 0 = Inr (blk_Hash demo_second))"
proof -
  have "wf_Block demo_second"
    by (simp add: demo_second_def NewBlock_def wf_Block_def NewCoinbase_def wf_Transaction_def
        wf_Input_def wf_Output_def string_bytes_def)
  moreover have "CheckProofOfWork (blk_Header demo_second) (net_PowLimit (mgr_Network demo_mgr)) = None"
    unfolding demo_mgr(3) by (rule easy_work) (simp add: demo_second_def NewBlock_def)
  ultimately show ?thesis
    using second_genesis [OF demo_mgr(2), of demo_second 0 "''m''" "[4]"]
    by (auto simp: demo_second_def NewBlock_def)
qed


definition demo_next :: Block where
  "demo_next = NewBlock 0 (blk_Hash demo_first) 1 0x2200ffff
     [NewCoinbase ''NEVEL mined at 0'' 50000000000 [4]]"

end
